(* ===== verification/Prelude.thy ===== *)
theory Prelude
  imports Main "HOL-Library.Word"
begin

text \<open>
  Shared vocabulary of the CoreC development: the result type of fallible Go
  functions, Go's buffered channels, string helpers of the standard library
  (\<^verbatim>\<open>strings.TrimSpace\<close>, \<^verbatim>\<open>strings.HasPrefix\<close>, \<^verbatim>\<open>strings.Contains\<close>, \<dots>), and the
  ``append, then keep the newest \<open>n\<close>'' discipline that the data bus, the alert
  history, the dead-letter queue and the write-audit trail all follow. The last one is
  stated once as the locale \<open>drop_oldest\<close> and interpreted on each of them.
\<close>

named_theorems go_simps \<open>rewrite rules for the Go standard-library helpers\<close>
named_theorems keep_simps \<open>rewrite rules for bounded append-only buffers\<close>

section \<open>Results, time, words\<close>

type_synonym ('e, 'a) result = "'e + 'a"

text \<open>Instants and durations are nanoseconds (\<^verbatim>\<open>time.Time\<close>, \<^verbatim>\<open>time.Duration\<close>).\<close>

type_synonym time = int
type_synonym u8 = "8 word"
type_synonym u16 = "16 word"
type_synonym u32 = "32 word"
type_synonym u64 = "64 word"

abbreviation millisecond :: time where "millisecond \<equiv> 1000000"
abbreviation second :: time where "second \<equiv> 1000000000"
abbreviation minute :: time where "minute \<equiv> 60 * second"

section \<open>The newest elements of a list\<close>

definition keep_last :: "nat \<Rightarrow> 'a list \<Rightarrow> 'a list" where
  "keep_last n xs = drop (length xs - n) xs"

lemma length_keep_last [simp]: "length (keep_last n xs) = min n (length xs)"
  by (simp add: keep_last_def)

lemma keep_last_all [simp, keep_simps]: "length xs \<le> n \<Longrightarrow> keep_last n xs = xs"
  by (simp add: keep_last_def)

lemma keep_last_0 [simp]: "keep_last 0 xs = []"
  by (simp add: keep_last_def)

lemma set_keep_last: "set (keep_last n xs) \<subseteq> set xs"
  by (simp add: keep_last_def set_drop_subset)

lemma keep_last_append:
  "keep_last n (xs @ ys) = keep_last (n - length ys) xs @ keep_last n ys"
proof (cases "n \<le> length ys")
  case True
  then show ?thesis by (simp add: keep_last_def)
next
  case False
  then have "length xs + length ys - n = length xs - (n - length ys)" by simp
  with False show ?thesis by (simp add: keep_last_def)
qed

lemma keep_last_idem [keep_simps]: "keep_last n (keep_last n xs @ ys) = keep_last n (xs @ ys)"
proof -
  have "keep_last (n - length ys) (keep_last n xs) = keep_last (n - length ys) xs"
    by (cases "length xs \<le> n") (simp_all add: keep_last_def)
  then show ?thesis by (simp add: keep_last_append)
qed

lemma keep_last_snoc_full:
  "length xs = n \<Longrightarrow> 0 < n \<Longrightarrow> keep_last n (xs @ [x]) = tl xs @ [x]"
  by (cases xs) (simp_all add: keep_last_def)

lemma rev_keep_last: "rev (keep_last n xs) = take n (rev xs)"
  by (cases "n \<le> length xs") (simp_all add: keep_last_def rev_drop)

lemma last_keep_last_snoc: "0 < n \<Longrightarrow> last (keep_last n (xs @ [x])) = x"
  by (simp add: keep_last_def)

text \<open>
  A buffer with the drop-oldest discipline: pushing appends and then forgets all but the
  newest \<open>cap\<close> elements, and never changes the capacity.
\<close>

locale drop_oldest =
  fixes push :: "'a \<Rightarrow> 'q \<Rightarrow> 'q"
    and items :: "'q \<Rightarrow> 'a list"
    and cap :: "'q \<Rightarrow> nat"
    and ok :: "'q \<Rightarrow> bool"
  assumes items_push: "ok q \<Longrightarrow> items (push x q) = keep_last (cap q) (items q @ [x])"
    and cap_push: "ok q \<Longrightarrow> cap (push x q) = cap q"
    and ok_push: "ok q \<Longrightarrow> ok (push x q)"
    and ok_bounded: "ok q \<Longrightarrow> length (items q) \<le> cap q"
begin

lemma ok_fold: "ok q \<Longrightarrow> ok (fold push xs q)"
  by (induction xs arbitrary: q) (auto intro: ok_push)

lemma cap_fold: "ok q \<Longrightarrow> cap (fold push xs q) = cap q"
  by (induction xs arbitrary: q) (auto simp: cap_push ok_push)

lemma items_fold: "ok q \<Longrightarrow> items (fold push xs q) = keep_last (cap q) (items q @ xs)"
proof (induction xs arbitrary: q)
  case Nil
  then show ?case by (simp add: ok_bounded)
next
  case (Cons x xs)
  then show ?case
    by (simp add: items_push cap_push ok_push keep_last_idem)
qed

lemma bounded_fold: "ok q \<Longrightarrow> length (items (fold push xs q)) \<le> cap q"
  by (simp add: items_fold)

lemma newest_kept:
  assumes "ok q" and "0 < cap q"
  shows "last (items (push x q)) = x"
  using assms by (simp add: items_push last_keep_last_snoc)

lemma short_run_lossless:
  assumes "ok q" and "length (items q) + length xs \<le> cap q"
  shows "items (fold push xs q) = items q @ xs"
  using assms by (simp add: items_fold)

end

section \<open>Go channels\<close>

text \<open>
  A buffered channel: its capacity, the queued elements (oldest first) and whether it
  has been closed. A send on a closed channel panics; \<open>ch_try_send\<close> is the
  \<^verbatim>\<open>select { case ch <- x: default: }\<close> form, so a full buffer is reported and not waited for.
\<close>

record 'a chan =
  ch_cap :: nat
  ch_buf :: "'a list"
  ch_closed :: bool

definition make_chan :: "nat \<Rightarrow> 'a chan" where
  "make_chan n = \<lparr>ch_cap = n, ch_buf = [], ch_closed = False\<rparr>"

datatype 'a send_result = Sent "'a chan" | SendFull | SendPanic

definition ch_try_send :: "'a \<Rightarrow> 'a chan \<Rightarrow> 'a send_result" where
  "ch_try_send x c =
     (if ch_closed c then SendPanic
      else if length (ch_buf c) < ch_cap c then Sent (c\<lparr>ch_buf := ch_buf c @ [x]\<rparr>)
      else SendFull)"

text \<open>\<^verbatim>\<open>select { case x := <-ch: default: }\<close>: \<open>None\<close> when nothing is queued.\<close>

definition ch_try_recv :: "'a chan \<Rightarrow> ('a \<times> 'a chan) option" where
  "ch_try_recv c =
     (case ch_buf c of [] \<Rightarrow> None | x # xs \<Rightarrow> Some (x, c\<lparr>ch_buf := xs\<rparr>))"

definition ch_close :: "'a chan \<Rightarrow> 'a chan" where
  "ch_close c = c\<lparr>ch_closed := True\<rparr>"

definition chan_wf :: "'a chan \<Rightarrow> bool" where
  "chan_wf c \<longleftrightarrow> length (ch_buf c) \<le> ch_cap c"

lemma chan_wf_make [simp]: "chan_wf (make_chan n)"
  by (simp add: chan_wf_def make_chan_def)

lemma chan_wf_close [simp]: "chan_wf (ch_close c) = chan_wf c"
  by (simp add: chan_wf_def ch_close_def)

lemma chan_wf_send: "ch_try_send x c = Sent c' \<Longrightarrow> chan_wf c'"
  by (auto simp: chan_wf_def ch_try_send_def split: if_splits)

lemma chan_wf_recv: "chan_wf c \<Longrightarrow> ch_try_recv c = Some (x, c') \<Longrightarrow> chan_wf c'"
  by (auto simp: chan_wf_def ch_try_recv_def split: list.splits)

section \<open>Strings\<close>

text \<open>
  Go strings are byte sequences; \<open>string\<close> is a list of 8-bit characters, so lengths and
  slices agree. The helpers below are the ASCII behaviour of the package
  \<^verbatim>\<open>strings\<close>: case mapping and white space of non-ASCII code points are not used by the code
  modelled here.
\<close>

definition is_space :: "char \<Rightarrow> bool" where
  "is_space c \<longleftrightarrow> c \<in> {CHR '' '', CHR 0x09, CHR 0x0A, CHR 0x0B, CHR 0x0C, CHR 0x0D}"

definition trim_space :: "string \<Rightarrow> string" where
  "trim_space s = rev (dropWhile is_space (rev (dropWhile is_space s)))"

definition to_lower_char :: "char \<Rightarrow> char" where
  "to_lower_char c =
     (let n = of_char c :: nat in if 65 \<le> n \<and> n \<le> 90 then char_of (n + 32) else c)"

definition to_upper_char :: "char \<Rightarrow> char" where
  "to_upper_char c =
     (let n = of_char c :: nat in if 97 \<le> n \<and> n \<le> 122 then char_of (n - 32) else c)"

definition to_lower :: "string \<Rightarrow> string" where
  "to_lower s = map to_lower_char s"

definition to_upper :: "string \<Rightarrow> string" where
  "to_upper s = map to_upper_char s"

definition equal_fold :: "string \<Rightarrow> string \<Rightarrow> bool" where
  "equal_fold s t \<longleftrightarrow> to_lower s = to_lower t"

definition has_prefix :: "string \<Rightarrow> string \<Rightarrow> bool" where
  "has_prefix s p \<longleftrightarrow> take (length p) s = p"

definition has_suffix :: "string \<Rightarrow> string \<Rightarrow> bool" where
  "has_suffix s p \<longleftrightarrow> has_prefix (rev s) (rev p)"

fun contains_str :: "string \<Rightarrow> string \<Rightarrow> bool" where
  "contains_str [] p \<longleftrightarrow> p = []"
| "contains_str (c # s) p \<longleftrightarrow> has_prefix (c # s) p \<or> contains_str s p"

lemma has_prefix_iff [go_simps]: "has_prefix s p \<longleftrightarrow> (\<exists>t. s = p @ t)"
  by (metis append_eq_conv_conj append_take_drop_id has_prefix_def)

lemma contains_str_iff [go_simps]: "contains_str s p \<longleftrightarrow> (\<exists>u v. s = u @ p @ v)"
proof (induction s)
  case Nil
  then show ?case by auto
next
  case (Cons c s)
  have "(\<exists>u v. c # s = u @ p @ v) \<longleftrightarrow> (\<exists>v. c # s = p @ v) \<or> (\<exists>u v. s = u @ p @ v)"
    by (metis Cons_eq_append_conv append_Cons append_Nil)
  then show ?case by (simp add: Cons has_prefix_iff)
qed

lemma to_upper_length [simp]: "length (to_upper s) = length s"
  by (simp add: to_upper_def)

lemma to_lower_length [simp]: "length (to_lower s) = length s"
  by (simp add: to_lower_def)

text \<open>Decimal notation (\<^verbatim>\<open>strconv.Itoa\<close>, \<^verbatim>\<open>%d\<close>) and its inverse on digit strings.\<close>

definition is_digit :: "char \<Rightarrow> bool" where
  "is_digit c \<longleftrightarrow> 48 \<le> (of_char c :: nat) \<and> (of_char c :: nat) \<le> 57"

definition digit_val :: "char \<Rightarrow> nat" where
  "digit_val c = of_char c - 48"

definition digits_val :: "string \<Rightarrow> nat" where
  "digits_val s = foldl (\<lambda>a c. 10 * a + digit_val c) 0 s"

fun show_nat :: "nat \<Rightarrow> string" where
  "show_nat n = (if n < 10 then [char_of (48 + n)] else show_nat (n div 10) @ [char_of (48 + n mod 10)])"

declare show_nat.simps [simp del]

definition show_int :: "int \<Rightarrow> string" where
  "show_int i = (if i < 0 then ''-'' @ show_nat (nat (- i)) else show_nat (nat i))"

lemma digit_val_char [simp]: "d < 10 \<Longrightarrow> digit_val (char_of (48 + d :: nat)) = d"
  by (simp add: digit_val_def)

lemma is_digit_char [simp]: "d < 10 \<Longrightarrow> is_digit (char_of (48 + d :: nat))"
  by (simp add: is_digit_def)

lemma digits_val_snoc [simp]: "digits_val (s @ [c]) = 10 * digits_val s + digit_val c"
  by (simp add: digits_val_def)

lemma digits_val_show_nat [simp]: "digits_val (show_nat n) = n"
proof (induction n rule: show_nat.induct)
  case (1 n)
  show ?case
  proof (cases "n < 10")
    case True
    then show ?thesis by (simp add: show_nat.simps [of n] digits_val_def)
  next
    case False
    with 1 show ?thesis by (simp add: show_nat.simps [of n])
  qed
qed

lemma show_nat_digits: "c \<in> set (show_nat n) \<Longrightarrow> is_digit c"
proof (induction n rule: show_nat.induct)
  case (1 n)
  then show ?case
    by (cases "n < 10") (auto simp: show_nat.simps [of n])
qed

lemma show_nat_nonempty [simp]: "show_nat n \<noteq> []"
  by (simp add: show_nat.simps [of n])

lemma show_nat_inj [simp]: "show_nat m = show_nat n \<longleftrightarrow> m = n"
  by (metis digits_val_show_nat)

end
