(* ===== verification/Core_Types.thy ===== *)
theory Core_Types
  imports Prelude
begin

text \<open>
  The contract layer \<^verbatim>\<open>core/types.go\<close>: data types and their names, quality codes,
  connection states, rule actions, the values that flow through the engine (Go's
  \<^verbatim>\<open>any\<close> restricted to what drivers and the JSON decoder produce) and the structs
  \<^verbatim>\<open>TagValue\<close>, \<^verbatim>\<open>DataPoint\<close>, \<^verbatim>\<open>WriteCommand\<close>, \<^verbatim>\<open>WriteResult\<close>, \<^verbatim>\<open>TagConfig\<close>.
  Floating-point values are kept as their IEEE bit patterns.
\<close>

section \<open>Data types\<close>

text \<open>
  \<open>TypeOther c\<close> is a \<^verbatim>\<open>DataType\<close> whose integer code \<open>c\<close> is none of the declared constants
  (the underlying Go type is \<^verbatim>\<open>int\<close>, and the YAML decoder stores any code).
\<close>

datatype data_type =
    TypeBool | TypeInt8 | TypeInt16 | TypeInt32 | TypeInt64
  | TypeUint8 | TypeUint16 | TypeUint32 | TypeUint64
  | TypeFloat32 | TypeFloat64 | TypeString | TypeBytes
  | TypeOther int

definition all_data_types :: "data_type list" where
  "all_data_types =
     [TypeBool, TypeInt8, TypeInt16, TypeInt32, TypeInt64, TypeUint8, TypeUint16,
      TypeUint32, TypeUint64, TypeFloat32, TypeFloat64, TypeString, TypeBytes]"

fun data_type_code :: "data_type \<Rightarrow> int" where
  "data_type_code TypeBool = 0"
| "data_type_code TypeInt8 = 1"
| "data_type_code TypeInt16 = 2"
| "data_type_code TypeInt32 = 3"
| "data_type_code TypeInt64 = 4"
| "data_type_code TypeUint8 = 5"
| "data_type_code TypeUint16 = 6"
| "data_type_code TypeUint32 = 7"
| "data_type_code TypeUint64 = 8"
| "data_type_code TypeFloat32 = 9"
| "data_type_code TypeFloat64 = 10"
| "data_type_code TypeString = 11"
| "data_type_code TypeBytes = 12"
| "data_type_code (TypeOther c) = c"

text \<open>The conversion \<^verbatim>\<open>DataType(n)\<close>.\<close>

definition data_type_of_code :: "int \<Rightarrow> data_type" where
  "data_type_of_code n =
     (if 0 \<le> n \<and> n < int (length all_data_types) then all_data_types ! nat n else TypeOther n)"

definition dataTypeNames :: "data_type \<rightharpoonup> string" where
  "dataTypeNames = map_of
     [(TypeBool, ''bool''), (TypeInt8, ''int8''), (TypeInt16, ''int16''), (TypeInt32, ''int32''),
      (TypeInt64, ''int64''), (TypeUint8, ''uint8''), (TypeUint16, ''uint16''),
      (TypeUint32, ''uint32''), (TypeUint64, ''uint64''), (TypeFloat32, ''float32''),
      (TypeFloat64, ''float64''), (TypeString, ''string''), (TypeBytes, ''bytes'')]"

definition dataTypeFromString :: "string \<rightharpoonup> data_type" where
  "dataTypeFromString = map_of
     [(''bool'', TypeBool), (''int8'', TypeInt8), (''int16'', TypeInt16), (''int32'', TypeInt32),
      (''int64'', TypeInt64), (''uint8'', TypeUint8), (''uint16'', TypeUint16),
      (''uint32'', TypeUint32), (''uint64'', TypeUint64), (''float32'', TypeFloat32),
      (''float64'', TypeFloat64), (''string'', TypeString), (''bytes'', TypeBytes)]"

definition data_type_String :: "data_type \<Rightarrow> string" where
  "data_type_String d = (case dataTypeNames d of Some s \<Rightarrow> s | None \<Rightarrow> ''unknown'')"

definition ParseDataType :: "string \<Rightarrow> data_type option" where
  "ParseDataType s = dataTypeFromString s"

text \<open>
  The Go idiom \<^verbatim>\<open>dt, _ := core.ParseDataType(s)\<close>: an unknown name yields the zero value
  of the type, \<^verbatim>\<open>TypeBool\<close>.
\<close>

definition parse_data_type_or_zero :: "string \<Rightarrow> data_type" where
  "parse_data_type_or_zero s = (case ParseDataType s of Some d \<Rightarrow> d | None \<Rightarrow> TypeBool)"

section \<open>Scalar decoding of data types\<close>

text \<open>
  The scalars that the JSON and YAML decoders hand to \<^verbatim>\<open>UnmarshalJSON\<close> and
  \<^verbatim>\<open>UnmarshalYAML\<close>. A JSON number that is not an integer literal fails to decode into \<^verbatim>\<open>int\<close>.
\<close>

datatype scalar = SStr string | SInt int | SUint u64 | SFloatTrunc int | SOtherScalar

datatype type_error = InvalidTypeName string | InvalidTypeCode int | NotATypeScalar

definition data_type_UnmarshalJSON :: "scalar \<Rightarrow> (type_error, data_type) result" where
  "data_type_UnmarshalJSON v =
     (case v of
        SStr s \<Rightarrow> (case ParseDataType s of None \<Rightarrow> Inl (InvalidTypeName s) | Some d \<Rightarrow> Inr d)
      | SInt n \<Rightarrow> (case dataTypeNames (data_type_of_code n) of
                      None \<Rightarrow> Inl (InvalidTypeCode n)
                    | Some _ \<Rightarrow> Inr (data_type_of_code n))
      | _ \<Rightarrow> Inl NotATypeScalar)"

definition data_type_UnmarshalYAML :: "scalar \<Rightarrow> (type_error, data_type) result" where
  "data_type_UnmarshalYAML v =
     (case v of
        SStr s \<Rightarrow> (case ParseDataType s of None \<Rightarrow> Inl (InvalidTypeName s) | Some d \<Rightarrow> Inr d)
      | SInt n \<Rightarrow> Inr (data_type_of_code n)
      | SUint w \<Rightarrow> Inr (data_type_of_code (sint w))
      | SFloatTrunc n \<Rightarrow> Inr (data_type_of_code n)
      | SOtherScalar \<Rightarrow> Inl NotATypeScalar)"

section \<open>Quality, connection state, action\<close>

datatype quality = QualityGood | QualityBad | QualityUncertain

fun quality_String :: "quality \<Rightarrow> string" where
  "quality_String QualityGood = ''good''"
| "quality_String QualityBad = ''bad''"
| "quality_String QualityUncertain = ''uncertain''"

datatype conn_state = StateDisconnected | StateConnecting | StateConnected | StateError

fun conn_state_String :: "conn_state \<Rightarrow> string" where
  "conn_state_String StateDisconnected = ''disconnected''"
| "conn_state_String StateConnecting = ''connecting''"
| "conn_state_String StateConnected = ''connected''"
| "conn_state_String StateError = ''error''"

datatype action = ActionForward | ActionDrop | ActionAlert | ActionTransform | ActionMirror

section \<open>Values and the structs that carry them\<close>

text \<open>
  The dynamic values of Go's \<^verbatim>\<open>any\<close>: one constructor per dynamic type the code produces
  or switches on. \<open>VList\<close> and \<open>VMap\<close> are what \<^verbatim>\<open>encoding/json\<close> yields for arrays and objects.
\<close>

datatype go_value =
    VNil
  | VBool bool
  | VInt u64 | VInt8 u8 | VInt16 u16 | VInt32 u32 | VInt64 u64
  | VUint u64 | VUint8 u8 | VUint16 u16 | VUint32 u32 | VUint64 u64
  | VFloat32 u32 | VFloat64 u64
  | VString string
  | VBytes "u8 list"
  | VList "go_value list"
  | VMap "(string \<times> go_value) list"

record tag_value =
  tv_tag :: string
  tv_value :: go_value
  tv_type :: data_type
  tv_quality :: quality
  tv_timestamp :: time
  tv_error :: "string option"

record data_point =
  dp_driver :: string
  dp_device :: string
  dp_group :: string
  dp_tag :: string
  dp_value :: go_value
  dp_type :: data_type
  dp_quality :: quality
  dp_timestamp :: time
  dp_metadata :: "(string \<times> string) list"
  dp_is_stale :: bool

record write_command =
  wc_driver :: string
  wc_device :: string
  wc_tag :: string
  wc_value :: go_value
  wc_type :: data_type
  wc_source :: string
  wc_remote :: string
  wc_raw :: bool

record write_result =
  wr_success :: bool
  wr_error :: string

record write_audit_entry =
  wa_timestamp :: time
  wa_driver :: string
  wa_device :: string
  wa_tag :: string
  wa_value :: go_value
  wa_type :: data_type
  wa_success :: bool
  wa_error :: string
  wa_source :: string
  wa_remote :: string
  wa_raw :: bool

record dead_letter_entry =
  dl_command :: write_command
  dl_error :: string
  dl_failed_at :: time
  dl_attempts :: nat
  dl_transport :: string

record tag_config =
  tc_name :: string
  tc_address :: string
  tc_type :: string
  tc_group :: string
  tc_interval :: string
  tc_scale :: u64
  tc_offset :: u64
  tc_deadband :: u64
  tc_enforce_interval :: string
  tc_read_timeout :: string
  tc_protect :: string
  tc_trigger_group :: string
  tc_triggers :: string

section \<open>Names and codes are inverse to each other\<close>

lemma data_type_code_of_code [simp]: "data_type_code (data_type_of_code n) = n"
proof (cases "0 \<le> n \<and> n < 13")
  case True
  then have "n \<in> {0, 1, 2, 3, 4, 5, 6, 7, 8, 9, 10, 11, 12}" by simp arith
  then show ?thesis
    by (auto simp: data_type_of_code_def all_data_types_def)
next
  case False
  then show ?thesis by (auto simp: data_type_of_code_def all_data_types_def)
qed

lemma data_type_of_code_declared:
  "d \<in> set all_data_types \<Longrightarrow> data_type_of_code (data_type_code d) = d"
  by (auto simp: all_data_types_def data_type_of_code_def)

lemma dom_dataTypeNames: "dom dataTypeNames = set all_data_types"
  by (auto simp: dataTypeNames_def all_data_types_def dom_def split: if_splits)

lemma Parse_String: "d \<in> set all_data_types \<Longrightarrow> ParseDataType (data_type_String d) = Some d"
  by (auto simp: all_data_types_def data_type_String_def dataTypeNames_def ParseDataType_def
      dataTypeFromString_def)

lemma Parse_String_inv: "ParseDataType s = Some d \<Longrightarrow> data_type_String d = s \<and> d \<in> set all_data_types"
  by (auto simp: all_data_types_def data_type_String_def dataTypeNames_def ParseDataType_def
      dataTypeFromString_def split: if_splits)

lemma of_code_declared_iff:
  "data_type_of_code n \<in> set all_data_types \<longleftrightarrow> 0 \<le> n \<and> n \<le> 12"
proof (cases "0 \<le> n \<and> n < int (length all_data_types)")
  case True
  then have "data_type_of_code n = all_data_types ! nat n" and "nat n < length all_data_types"
    by (auto simp: data_type_of_code_def)
  then have "data_type_of_code n \<in> set all_data_types" by (metis nth_mem)
  with True show ?thesis by (simp add: all_data_types_def)
next
  case False
  then have "data_type_of_code n = TypeOther n" by (auto simp: data_type_of_code_def)
  with False show ?thesis by (auto simp: all_data_types_def)
qed

text \<open>
  A data type survives the trip through its JSON form: decoding the name that
  \<^verbatim>\<open>DataType.MarshalJSON\<close> writes gives the type back, for the thirteen declared types; and
  the decoder never produces an undeclared type, from a name or from a legacy integer code.
\<close>

theorem data_type_json_roundtrip:
  "(d \<in> set all_data_types \<longrightarrow> data_type_UnmarshalJSON (SStr (data_type_String d)) = Inr d)
   \<and> (data_type_UnmarshalJSON v = Inr e \<longrightarrow>
        e \<in> set all_data_types \<and> (v = SStr (data_type_String e) \<or> v = SInt (data_type_code e)))"
proof (intro conjI impI)
  assume "d \<in> set all_data_types"
  then show "data_type_UnmarshalJSON (SStr (data_type_String d)) = Inr d"
    by (simp add: data_type_UnmarshalJSON_def Parse_String)
next
  assume v: "data_type_UnmarshalJSON v = Inr e"
  show "e \<in> set all_data_types"
    using v dom_dataTypeNames
    by (auto simp: data_type_UnmarshalJSON_def domIff set_eq_iff dest: Parse_String_inv
        split: scalar.splits option.splits)
  show "v = SStr (data_type_String e) \<or> v = SInt (data_type_code e)"
    using v by (auto simp: data_type_UnmarshalJSON_def dest: Parse_String_inv
        split: scalar.splits option.splits)
qed

theorem data_type_json_roundtrip_witness:
  "TypeFloat32 \<in> set all_data_types
   \<and> data_type_UnmarshalJSON (SStr (data_type_String TypeFloat32)) = Inr TypeFloat32
   \<and> data_type_UnmarshalJSON (SInt 9) = Inr TypeFloat32"
proof -
  have d: "TypeFloat32 \<in> set all_data_types" by (simp add: all_data_types_def)
  have j: "data_type_UnmarshalJSON (SInt 9) = Inr TypeFloat32"
    by (simp add: data_type_UnmarshalJSON_def data_type_of_code_def all_data_types_def dataTypeNames_def)
  show ?thesis
    using data_type_json_roundtrip [of TypeFloat32 "SInt 9" TypeFloat32] d j by simp
qed

end
