(* ===== verification/Data_Bus.thy ===== *)
theory Data_Bus
  imports Core_Types
begin

text \<open>
  The internal data bus, \<^verbatim>\<open>engine/databus.go\<close>: a main and a high-priority channel with
  drop-oldest back-pressure, and a list of subscribers fed by \<^verbatim>\<open>Broadcast\<close>.
  The first part models each method as one uninterrupted call (a result \<open>None\<close> is a
  panic that leaves the method). The second part models \<^verbatim>\<open>Push\<close> at the grain of its channel
  operations and lets any number of pushers, a consumer and \<^verbatim>\<open>Close\<close> interleave.
\<close>

section \<open>The bus and its operations\<close>

record subscriber =
  sub_id :: nat
  sub_filter :: string
  sub_ch :: "data_point chan"

text \<open>\<open>b_next\<close> numbers the subscriber channels; Go compares the channel references.\<close>

record data_bus =
  b_ch :: "data_point chan"
  b_highPriCh :: "data_point chan"
  b_subscribers :: "subscriber list"
  b_closed :: bool
  b_subCount :: int
  b_dropped :: nat
  b_pushDropped :: nat
  b_highPriPushDropped :: nat
  b_next :: nat

definition highPriSize :: "int \<Rightarrow> int" where
  "highPriSize bufferSize =
     (let h = bufferSize div 4;
          h = (if h > 1024 then 1024 else h)
      in if h < 64 then 64 else h)"

definition NewDataBus :: "int \<Rightarrow> data_bus" where
  "NewDataBus sz =
     (let bufferSize = (if sz \<le> 0 then 4096 else sz)
      in \<lparr>b_ch = make_chan (nat bufferSize), b_highPriCh = make_chan (nat (highPriSize bufferSize)),
          b_subscribers = [], b_closed = False, b_subCount = 0, b_dropped = 0,
          b_pushDropped = 0, b_highPriPushDropped = 0, b_next = 0\<rparr>)"

text \<open>
  The body shared by \<^verbatim>\<open>Push\<close> and \<^verbatim>\<open>PushHighPriority\<close>: try to send; if the buffer is full
  remove the oldest element and try once more. The number counts the elements lost.
  A receive from a closed channel succeeds even when the buffer is empty.
\<close>

datatype 'a push_outcome = Pushed "'a chan" nat | PushPanic "'a chan" nat

definition evict_oldest :: "'a chan \<Rightarrow> 'a chan \<times> nat" where
  "evict_oldest c =
     (case ch_try_recv c of
        Some (_, c') \<Rightarrow> (c', 1)
      | None \<Rightarrow> (c, if ch_closed c then 1 else 0))"

definition send_drop_oldest :: "'a \<Rightarrow> 'a chan \<Rightarrow> 'a push_outcome" where
  "send_drop_oldest x c =
     (case ch_try_send x c of
        Sent c' \<Rightarrow> Pushed c' 0
      | SendPanic \<Rightarrow> PushPanic c 0
      | SendFull \<Rightarrow>
          (let (c1, n) = evict_oldest c
           in case ch_try_send x c1 of
                Sent c2 \<Rightarrow> Pushed c2 n
              | SendFull \<Rightarrow> Pushed c1 (n + 1)
              | SendPanic \<Rightarrow> PushPanic c1 n))"

definition Push :: "data_point \<Rightarrow> data_bus \<Rightarrow> data_bus option" where
  "Push p b =
     (if b_closed b then Some b
      else case send_drop_oldest p (b_ch b) of
             Pushed c n \<Rightarrow> Some (b\<lparr>b_ch := c, b_pushDropped := b_pushDropped b + n\<rparr>)
           | PushPanic c n \<Rightarrow>
               (if b_closed b then Some (b\<lparr>b_ch := c, b_pushDropped := b_pushDropped b + n\<rparr>)
                else None))"

definition PushHighPriority :: "data_point \<Rightarrow> data_bus \<Rightarrow> data_bus option" where
  "PushHighPriority p b =
     (if b_closed b then Some b
      else case send_drop_oldest p (b_highPriCh b) of
             Pushed c n \<Rightarrow>
               Some (b\<lparr>b_highPriCh := c, b_highPriPushDropped := b_highPriPushDropped b + n\<rparr>)
           | PushPanic c n \<Rightarrow>
               (if b_closed b
                then Some (b\<lparr>b_highPriCh := c, b_highPriPushDropped := b_highPriPushDropped b + n\<rparr>)
                else None))"

definition DefaultSubscriberBuffer :: int where
  "DefaultSubscriberBuffer = 256"

text \<open>Returns the identity of the new channel; \<open>unsub\<close> is the closure the method returns.\<close>

definition SubscribeWithBuffer :: "string \<Rightarrow> int \<Rightarrow> data_bus \<Rightarrow> nat \<times> data_bus" where
  "SubscribeWithBuffer flt sz b =
     (let n = (if sz \<le> 0 then DefaultSubscriberBuffer else sz);
          sub = \<lparr>sub_id = b_next b, sub_filter = flt, sub_ch = make_chan (nat n)\<rparr>
      in (b_next b,
          b\<lparr>b_subscribers := b_subscribers b @ [sub], b_subCount := b_subCount b + 1,
             b_next := b_next b + 1\<rparr>))"

definition Subscribe :: "string \<Rightarrow> data_bus \<Rightarrow> nat \<times> data_bus" where
  "Subscribe flt b = SubscribeWithBuffer flt DefaultSubscriberBuffer b"

fun remove_sub :: "nat \<Rightarrow> subscriber list \<Rightarrow> (subscriber \<times> subscriber list) option" where
  "remove_sub i [] = None"
| "remove_sub i (s # ss) =
     (if sub_id s = i then Some (s, ss) else map_option (apsnd ((#) s)) (remove_sub i ss))"

text \<open>
  The closure returned by \<^verbatim>\<open>SubscribeWithBuffer\<close>. The second result is the removed channel
  as its reader sees it afterwards: closed, unless the whole bus was closed before.
\<close>

definition unsub :: "nat \<Rightarrow> data_bus \<Rightarrow> data_bus \<times> data_point chan option" where
  "unsub i b =
     (case remove_sub i (b_subscribers b) of
        None \<Rightarrow> (b, None)
      | Some (s, ss) \<Rightarrow>
          (b\<lparr>b_subscribers := ss, b_subCount := b_subCount b - 1\<rparr>,
           Some (if b_closed b then sub_ch s else ch_close (sub_ch s))))"

text \<open>One subscriber of the \<^verbatim>\<open>Broadcast\<close> loop: the subscriber afterwards and the losses.\<close>

definition deliver :: "data_point \<Rightarrow> subscriber \<Rightarrow> (subscriber \<times> nat) option" where
  "deliver p s =
     (if sub_filter s \<noteq> [] \<and> dp_driver p \<noteq> sub_filter s then Some (s, 0)
      else case ch_try_send p (sub_ch s) of
             Sent c \<Rightarrow> Some (s\<lparr>sub_ch := c\<rparr>, 0)
           | SendFull \<Rightarrow> Some (s, 1)
           | SendPanic \<Rightarrow> None)"

fun deliver_all :: "data_point \<Rightarrow> subscriber list \<Rightarrow> (subscriber list \<times> nat) option" where
  "deliver_all p [] = Some ([], 0)"
| "deliver_all p (s # ss) =
     (case deliver p s of
        None \<Rightarrow> None
      | Some (s', n) \<Rightarrow>
          (case deliver_all p ss of
             None \<Rightarrow> None
           | Some (ss', m) \<Rightarrow> Some (s' # ss', n + m)))"

definition Broadcast :: "data_point \<Rightarrow> data_bus \<Rightarrow> data_bus option" where
  "Broadcast p b =
     (if b_subCount b = 0 then Some b
      else case deliver_all p (b_subscribers b) of
             None \<Rightarrow> None
           | Some (ss, n) \<Rightarrow> Some (b\<lparr>b_subscribers := ss, b_dropped := b_dropped b + n\<rparr>))"

definition Close :: "data_bus \<Rightarrow> data_bus" where
  "Close b =
     (if b_closed b then b
      else b\<lparr>b_ch := ch_close (b_ch b), b_highPriCh := ch_close (b_highPriCh b),
             b_subscribers := [], b_subCount := 0, b_closed := True\<rparr>)"

text \<open>The consumers: \<^verbatim>\<open>point, ok := <-bus.Channel()\<close> when something is queued.\<close>

definition take_main :: "data_bus \<Rightarrow> (data_point \<times> data_bus) option" where
  "take_main b = map_option (\<lambda>(p, c). (p, b\<lparr>b_ch := c\<rparr>)) (ch_try_recv (b_ch b))"

definition take_high :: "data_bus \<Rightarrow> (data_point \<times> data_bus) option" where
  "take_high b = map_option (\<lambda>(p, c). (p, b\<lparr>b_highPriCh := c\<rparr>)) (ch_try_recv (b_highPriCh b))"

section \<open>Invariant of the bus\<close>

definition bus_inv :: "data_bus \<Rightarrow> bool" where
  "bus_inv b \<longleftrightarrow>
     chan_wf (b_ch b) \<and> chan_wf (b_highPriCh b)
   \<and> 0 < ch_cap (b_ch b) \<and> 0 < ch_cap (b_highPriCh b)
   \<and> ch_closed (b_ch b) = b_closed b \<and> ch_closed (b_highPriCh b) = b_closed b
   \<and> b_subCount b = int (length (b_subscribers b))
   \<and> (\<forall>s \<in> set (b_subscribers b). chan_wf (sub_ch s) \<and> \<not> ch_closed (sub_ch s) \<and> sub_id s < b_next b)
   \<and> distinct (map sub_id (b_subscribers b))"

lemma highPriSize_bounds: "64 \<le> highPriSize n \<and> highPriSize n \<le> 1024"
  by (simp add: highPriSize_def Let_def)

lemma bus_inv_new [simp]: "bus_inv (NewDataBus n)"
  using highPriSize_bounds [of n] highPriSize_bounds [of 4096]
  by (auto simp: bus_inv_def NewDataBus_def Let_def make_chan_def chan_wf_def)

lemma evict_oldest_open:
  "\<not> ch_closed c \<Longrightarrow> chan_wf c \<Longrightarrow> 0 < ch_cap c \<Longrightarrow> length (ch_buf c) = ch_cap c \<Longrightarrow>
   evict_oldest c = (c\<lparr>ch_buf := tl (ch_buf c)\<rparr>, 1)"
  by (cases "ch_buf c") (auto simp: evict_oldest_def ch_try_recv_def)

text \<open>On an open channel the two attempts always succeed and keep the newest elements.\<close>

lemma send_drop_oldest_open:
  assumes "\<not> ch_closed c" and "chan_wf c" and "0 < ch_cap c"
  shows "send_drop_oldest x c =
    Pushed (c\<lparr>ch_buf := keep_last (ch_cap c) (ch_buf c @ [x])\<rparr>)
           (if length (ch_buf c) < ch_cap c then 0 else 1)"
proof (cases "length (ch_buf c) < ch_cap c")
  case True
  then show ?thesis using assms by (simp add: send_drop_oldest_def ch_try_send_def)
next
  case False
  with assms have full: "length (ch_buf c) = ch_cap c" by (simp add: chan_wf_def)
  from full assms(3) have "length (tl (ch_buf c)) < ch_cap c" by simp
  with assms full show ?thesis
    by (simp add: send_drop_oldest_def ch_try_send_def evict_oldest_open keep_last_snoc_full)
qed

lemma Push_open:
  assumes "bus_inv b" and "\<not> b_closed b"
  shows "Push p b = Some (b\<lparr>
           b_ch := (b_ch b)\<lparr>ch_buf := keep_last (ch_cap (b_ch b)) (ch_buf (b_ch b) @ [p])\<rparr>,
           b_pushDropped := b_pushDropped b
             + (if length (ch_buf (b_ch b)) < ch_cap (b_ch b) then 0 else 1)\<rparr>)"
  using assms by (simp add: Push_def bus_inv_def send_drop_oldest_open)

lemma PushHighPriority_open:
  assumes "bus_inv b" and "\<not> b_closed b"
  shows "PushHighPriority p b = Some (b\<lparr>
           b_highPriCh := (b_highPriCh b)\<lparr>ch_buf :=
               keep_last (ch_cap (b_highPriCh b)) (ch_buf (b_highPriCh b) @ [p])\<rparr>,
           b_highPriPushDropped := b_highPriPushDropped b
             + (if length (ch_buf (b_highPriCh b)) < ch_cap (b_highPriCh b) then 0 else 1)\<rparr>)"
  using assms by (simp add: PushHighPriority_def bus_inv_def send_drop_oldest_open)

lemma Push_closed [simp]: "b_closed b \<Longrightarrow> Push p b = Some b"
  by (simp add: Push_def)

lemma PushHighPriority_closed [simp]: "b_closed b \<Longrightarrow> PushHighPriority p b = Some b"
  by (simp add: PushHighPriority_def)

lemma Push_inv: "bus_inv b \<Longrightarrow> \<exists>b'. Push p b = Some b' \<and> bus_inv b' \<and> b_closed b' = b_closed b"
  by (cases "b_closed b") (simp_all add: Push_open, simp add: bus_inv_def chan_wf_def)

lemma PushHighPriority_inv:
  "bus_inv b \<Longrightarrow> \<exists>b'. PushHighPriority p b = Some b' \<and> bus_inv b' \<and> b_closed b' = b_closed b"
  by (cases "b_closed b") (simp_all add: PushHighPriority_open, simp add: bus_inv_def chan_wf_def)

lemma SubscribeWithBuffer_inv: "bus_inv b \<Longrightarrow> bus_inv (snd (SubscribeWithBuffer f n b))"
  by (auto simp: bus_inv_def SubscribeWithBuffer_def Let_def make_chan_def chan_wf_def)

lemma remove_sub_Some:
  "remove_sub i ss = Some (s, ss') \<Longrightarrow>
   length ss = Suc (length ss') \<and> set ss' \<subseteq> set ss \<and> s \<in> set ss \<and> sub_id s = i
   \<and> (distinct (map sub_id ss) \<longrightarrow> distinct (map sub_id ss') \<and> i \<notin> sub_id ` set ss')"
proof (induction ss arbitrary: ss')
  case Nil
  then show ?case by simp
next
  case (Cons s ss)
  then show ?case by (cases "sub_id s = i") (auto, (metis image_eqI subsetD)+)
qed

lemma unsub_inv: "bus_inv b \<Longrightarrow> bus_inv (fst (unsub i b))"
  by (auto simp: bus_inv_def unsub_def dest!: remove_sub_Some split: option.splits)

lemma deliver_open:
  "\<not> ch_closed (sub_ch s) \<Longrightarrow> chan_wf (sub_ch s) \<Longrightarrow>
   \<exists>s' n. deliver p s = Some (s', n) \<and> sub_id s' = sub_id s \<and> sub_filter s' = sub_filter s
     \<and> \<not> ch_closed (sub_ch s') \<and> chan_wf (sub_ch s')"
  by (auto simp: deliver_def ch_try_send_def chan_wf_def)

lemma deliver_all_open:
  assumes "\<forall>s \<in> set ss. \<not> ch_closed (sub_ch s) \<and> chan_wf (sub_ch s)"
  shows "\<exists>ss' n. deliver_all p ss = Some (ss', n) \<and> map sub_id ss' = map sub_id ss
     \<and> (\<forall>s \<in> set ss'. \<not> ch_closed (sub_ch s) \<and> chan_wf (sub_ch s))"
  using assms
proof (induction ss)
  case Nil
  then show ?case by simp
next
  case (Cons s ss)
  from Cons.prems have "\<not> ch_closed (sub_ch s)" and "chan_wf (sub_ch s)" by auto
  then obtain s' n where s': "deliver p s = Some (s', n)" "sub_id s' = sub_id s"
      "\<not> ch_closed (sub_ch s')" "chan_wf (sub_ch s')"
    using deliver_open [of s p] by blast
  from Cons obtain ss' m where ss': "deliver_all p ss = Some (ss', m)"
      "map sub_id ss' = map sub_id ss"
      "\<forall>s \<in> set ss'. \<not> ch_closed (sub_ch s) \<and> chan_wf (sub_ch s)" by auto
  from s' ss' show ?case by simp
qed

lemma Broadcast_inv: "bus_inv b \<Longrightarrow> \<exists>b'. Broadcast p b = Some b' \<and> bus_inv b'"
proof -
  assume inv: "bus_inv b"
  then have "\<forall>s \<in> set (b_subscribers b). \<not> ch_closed (sub_ch s) \<and> chan_wf (sub_ch s)"
    by (simp add: bus_inv_def)
  then obtain ss n where ss: "deliver_all p (b_subscribers b) = Some (ss, n)"
      "map sub_id ss = map sub_id (b_subscribers b)"
      "\<forall>s \<in> set ss. \<not> ch_closed (sub_ch s) \<and> chan_wf (sub_ch s)"
    using deliver_all_open by blast
  from ss(2) have "sub_id ` set ss = sub_id ` set (b_subscribers b)" and "length ss = length (b_subscribers b)"
    by (metis set_map, metis length_map)
  with ss inv show ?thesis
    by (auto simp: Broadcast_def bus_inv_def image_iff set_eq_iff)
       (metis (no_types, opaque_lifting) image_eqI)+
qed

lemma Close_inv: "bus_inv b \<Longrightarrow> bus_inv (Close b)"
  by (auto simp: bus_inv_def Close_def ch_close_def chan_wf_def)

lemma take_main_inv: "bus_inv b \<Longrightarrow> take_main b = Some (p, b') \<Longrightarrow> bus_inv b'"
  by (auto simp: bus_inv_def take_main_def ch_try_recv_def chan_wf_def split: list.splits)

lemma take_high_inv: "bus_inv b \<Longrightarrow> take_high b = Some (p, b') \<Longrightarrow> bus_inv b'"
  by (auto simp: bus_inv_def take_high_def ch_try_recv_def chan_wf_def split: list.splits)

section \<open>Sequential behaviour\<close>

text \<open>The two push paths are drop-oldest buffers while the bus is open.\<close>

definition bus_open :: "data_bus \<Rightarrow> bool" where
  "bus_open b \<longleftrightarrow> bus_inv b \<and> \<not> b_closed b"

definition push_main :: "data_point \<Rightarrow> data_bus \<Rightarrow> data_bus" where
  "push_main p b = (case Push p b of Some b' \<Rightarrow> b' | None \<Rightarrow> b)"

definition push_high :: "data_point \<Rightarrow> data_bus \<Rightarrow> data_bus" where
  "push_high p b = (case PushHighPriority p b of Some b' \<Rightarrow> b' | None \<Rightarrow> b)"

interpretation main_bus: drop_oldest push_main "\<lambda>b. ch_buf (b_ch b)" "\<lambda>b. ch_cap (b_ch b)" bus_open
proof unfold_locales
  fix q x assume ok: "bus_open q"
  then show "ch_buf (b_ch (push_main x q)) = keep_last (ch_cap (b_ch q)) (ch_buf (b_ch q) @ [x])"
    and "ch_cap (b_ch (push_main x q)) = ch_cap (b_ch q)"
    by (simp_all add: push_main_def bus_open_def Push_open)
  show "bus_open (push_main x q)"
    using ok Push_inv [of q x] by (auto simp: push_main_def bus_open_def)
  show "length (ch_buf (b_ch q)) \<le> ch_cap (b_ch q)"
    using ok by (simp add: bus_open_def bus_inv_def chan_wf_def)
qed

interpretation high_bus: drop_oldest push_high "\<lambda>b. ch_buf (b_highPriCh b)"
    "\<lambda>b. ch_cap (b_highPriCh b)" bus_open
proof unfold_locales
  fix q x assume ok: "bus_open q"
  then show "ch_buf (b_highPriCh (push_high x q)) =
      keep_last (ch_cap (b_highPriCh q)) (ch_buf (b_highPriCh q) @ [x])"
    and "ch_cap (b_highPriCh (push_high x q)) = ch_cap (b_highPriCh q)"
    by (simp_all add: push_high_def bus_open_def PushHighPriority_open)
  show "bus_open (push_high x q)"
    using ok PushHighPriority_inv [of q x] by (auto simp: push_high_def bus_open_def)
  show "length (ch_buf (b_highPriCh q)) \<le> ch_cap (b_highPriCh q)"
    using ok by (simp add: bus_open_def bus_inv_def chan_wf_def)
qed

lemma push_main_counts:
  assumes "bus_open b"
  shows "b_pushDropped (push_main p b) + length (ch_buf (b_ch (push_main p b)))
       = b_pushDropped b + length (ch_buf (b_ch b)) + 1"
  using assms by (auto simp: push_main_def bus_open_def Push_open bus_inv_def chan_wf_def)

lemma push_main_fold_counts:
  assumes "bus_open b"
  shows "b_pushDropped (fold push_main ps b) + length (ch_buf (b_ch (fold push_main ps b)))
       = b_pushDropped b + length (ch_buf (b_ch b)) + length ps"
  using assms
proof (induction ps arbitrary: b)
  case Nil
  then show ?case by simp
next
  case (Cons p ps)
  from Cons.prems have "bus_open (push_main p b)" by (rule main_bus.ok_push)
  then show ?case using Cons push_main_counts [of b p] by simp
qed

text \<open>
  Back-pressure keeps the newest data and never blocks or panics: after any burst of
  \<^verbatim>\<open>Push\<close> calls on an open bus the main channel holds exactly the newest points that fit, in
  arrival order, and \<^verbatim>\<open>pushDropped\<close> has grown by exactly the number of points that were lost.
\<close>

theorem push_burst_keeps_newest:
  assumes "bus_inv b" and "\<not> b_closed b"
  shows "ch_buf (b_ch (fold push_main ps b)) = keep_last (ch_cap (b_ch b)) (ch_buf (b_ch b) @ ps)
    \<and> b_pushDropped (fold push_main ps b)
        = b_pushDropped b + (length (ch_buf (b_ch b)) + length ps - ch_cap (b_ch b))
    \<and> bus_inv (fold push_main ps b)"
proof -
  have ok: "bus_open b" using assms by (simp add: bus_open_def)
  have buf: "ch_buf (b_ch (fold push_main ps b)) = keep_last (ch_cap (b_ch b)) (ch_buf (b_ch b) @ ps)"
    using ok by (rule main_bus.items_fold)
  moreover have "length (ch_buf (b_ch b)) \<le> ch_cap (b_ch b)"
    using ok by (rule main_bus.ok_bounded)
  ultimately show ?thesis
    using push_main_fold_counts [OF ok, of ps] main_bus.ok_fold [OF ok, of ps]
    by (auto simp: bus_open_def)
qed

definition sample_point :: "string \<Rightarrow> string \<Rightarrow> data_point" where
  "sample_point d t = \<lparr>dp_driver = d, dp_device = [], dp_group = [], dp_tag = t, dp_value = VNil,
     dp_type = TypeBool, dp_quality = QualityGood, dp_timestamp = 0, dp_metadata = [],
     dp_is_stale = False\<rparr>"

lemma b_new_1: "b_ch (NewDataBus 1) = \<lparr>ch_cap = 1, ch_buf = [], ch_closed = False\<rparr>"
  by (simp add: NewDataBus_def Let_def make_chan_def)

theorem push_burst_keeps_newest_witness:
  "bus_inv (NewDataBus 1) \<and> \<not> b_closed (NewDataBus 1)
   \<and> ch_buf (b_ch (fold push_main [sample_point ''a'' ''x'', sample_point ''a'' ''y''] (NewDataBus 1)))
       = [sample_point ''a'' ''y'']"
proof -
  have o: "\<not> b_closed (NewDataBus 1)" by (simp add: NewDataBus_def Let_def)
  show ?thesis
    using push_burst_keeps_newest [OF bus_inv_new o,
        of "[sample_point ''a'' ''x'', sample_point ''a'' ''y'']"] o bus_inv_new [of 1]
    by (simp add: b_new_1 keep_last_def)
qed

text \<open>What one broadcast does to one subscriber.\<close>

definition wants :: "data_point \<Rightarrow> subscriber \<Rightarrow> bool" where
  "wants p s \<longleftrightarrow> sub_filter s = [] \<or> sub_filter s = dp_driver p"

definition has_room :: "subscriber \<Rightarrow> bool" where
  "has_room s \<longleftrightarrow> length (ch_buf (sub_ch s)) < ch_cap (sub_ch s)"

definition after_broadcast :: "data_point \<Rightarrow> subscriber \<Rightarrow> subscriber" where
  "after_broadcast p s =
     (if wants p s \<and> has_room s
      then s\<lparr>sub_ch := (sub_ch s)\<lparr>ch_buf := ch_buf (sub_ch s) @ [p]\<rparr>\<rparr> else s)"

lemma deliver_all_spec:
  assumes "\<forall>s \<in> set ss. \<not> ch_closed (sub_ch s)"
  shows "deliver_all p ss = Some (map (after_broadcast p) ss,
           length (filter (\<lambda>s. wants p s \<and> \<not> has_room s) ss))"
  using assms
  by (induction ss)
     (auto simp: deliver_def ch_try_send_def after_broadcast_def wants_def has_room_def)

text \<open>
  \<^verbatim>\<open>Broadcast\<close> reaches each subscriber whose filter is empty or equal to the point's
  driver: it appends the point once to every such channel with room, leaves all others
  alone, counts one drop for every such channel that is full, and never panics.
\<close>

theorem broadcast_delivery:
  assumes "bus_inv b"
  shows "\<exists>b'. Broadcast p b = Some b' \<and> bus_inv b'
    \<and> b_subscribers b' = map (after_broadcast p) (b_subscribers b)
    \<and> b_dropped b' = b_dropped b
        + length (filter (\<lambda>s. wants p s \<and> \<not> has_room s) (b_subscribers b))
    \<and> b_ch b' = b_ch b \<and> b_highPriCh b' = b_highPriCh b"
proof -
  have "\<forall>s \<in> set (b_subscribers b). \<not> ch_closed (sub_ch s)"
    using assms by (simp add: bus_inv_def)
  then have d: "deliver_all p (b_subscribers b) = Some (map (after_broadcast p) (b_subscribers b),
      length (filter (\<lambda>s. wants p s \<and> \<not> has_room s) (b_subscribers b)))"
    by (rule deliver_all_spec)
  from Broadcast_inv [OF assms, of p] obtain b' where b': "Broadcast p b = Some b'" "bus_inv b'" by blast
  have "b_subCount b = 0 \<Longrightarrow> b_subscribers b = []" using assms by (simp add: bus_inv_def)
  with b' d show ?thesis
    by (cases "b_subCount b = 0") (auto simp: Broadcast_def)
qed

theorem broadcast_delivery_witness:
  "\<exists>b'. Broadcast (sample_point ''a'' ''x'') (snd (Subscribe ''a'' (NewDataBus 1))) = Some b'
    \<and> map (\<lambda>s. ch_buf (sub_ch s)) (b_subscribers b') = [[sample_point ''a'' ''x'']]"
proof -
  have "bus_inv (snd (Subscribe ''a'' (NewDataBus 1)))"
    by (simp add: Subscribe_def SubscribeWithBuffer_inv)
  from broadcast_delivery [OF this, of "sample_point ''a'' ''x''"]
  show ?thesis
    by (auto simp: Subscribe_def SubscribeWithBuffer_def NewDataBus_def Let_def make_chan_def
        after_broadcast_def wants_def has_room_def sample_point_def DefaultSubscriberBuffer_def)
qed

section \<open>Interleaved pushes, consumers and Close\<close>

text \<open>
  \<^verbatim>\<open>Push\<close> is called from many goroutines. Its atomic actions are the closed check (under
  the read lock), the first send attempt, the receive that evicts, and the second send attempt;
  between any two of them other pushers, the consumers and \<^verbatim>\<open>Close\<close> may run. A thread is at
  one of the program points below. The lists \<open>ps_accepted\<close>, \<open>ps_removed\<close> (with \<open>True\<close> for
  an element taken by a consumer and \<open>False\<close> for an evicted one) and \<open>ps_rejected\<close> record
  the history; the code does not have them.
\<close>

datatype push_pc = AtCheck | AtSend | AtEvict | AtRetry | Finished

record push_sys =
  ps_ch :: "data_point chan"
  ps_closed :: bool
  ps_dropped :: nat
  ps_thread :: "nat \<Rightarrow> push_pc \<times> data_point"
  ps_accepted :: "data_point list"
  ps_removed :: "(bool \<times> data_point) list"
  ps_rejected :: "data_point list"

definition at :: "push_sys \<Rightarrow> nat \<Rightarrow> push_pc \<Rightarrow> data_point \<Rightarrow> bool" where
  "at s i pc p \<longleftrightarrow> ps_thread s i = (pc, p)"

definition goto :: "nat \<Rightarrow> push_pc \<Rightarrow> data_point \<Rightarrow> push_sys \<Rightarrow> push_sys" where
  "goto i pc p s = s\<lparr>ps_thread := (ps_thread s)(i := (pc, p))\<rparr>"

inductive push_step :: "push_sys \<Rightarrow> push_sys \<Rightarrow> bool" where
  call: "at s i Finished q \<Longrightarrow> push_step s (goto i AtCheck p s)"
| check_open: "at s i AtCheck p \<Longrightarrow> \<not> ps_closed s \<Longrightarrow> push_step s (goto i AtSend p s)"
| check_closed: "at s i AtCheck p \<Longrightarrow> ps_closed s \<Longrightarrow> push_step s (goto i Finished p s)"
| send: "at s i AtSend p \<Longrightarrow> ch_try_send p (ps_ch s) = Sent c \<Longrightarrow>
    push_step s (goto i Finished p (s\<lparr>ps_ch := c, ps_accepted := ps_accepted s @ [p]\<rparr>))"
| send_full: "at s i AtSend p \<Longrightarrow> ch_try_send p (ps_ch s) = SendFull \<Longrightarrow>
    push_step s (goto i AtEvict p s)"
| send_panic: "at s i AtSend p \<Longrightarrow> ch_try_send p (ps_ch s) = SendPanic \<Longrightarrow> ps_closed s \<Longrightarrow>
    push_step s (goto i Finished p s)"
| evict: "at s i AtEvict p \<Longrightarrow> ch_try_recv (ps_ch s) = Some (x, c) \<Longrightarrow>
    push_step s (goto i AtRetry p (s\<lparr>ps_ch := c, ps_dropped := ps_dropped s + 1,
                                     ps_removed := ps_removed s @ [(False, x)]\<rparr>))"
| evict_empty: "at s i AtEvict p \<Longrightarrow> ch_try_recv (ps_ch s) = None \<Longrightarrow>
    push_step s (goto i AtRetry p
      (s\<lparr>ps_dropped := ps_dropped s + (if ch_closed (ps_ch s) then 1 else 0)\<rparr>))"
| retry: "at s i AtRetry p \<Longrightarrow> ch_try_send p (ps_ch s) = Sent c \<Longrightarrow>
    push_step s (goto i Finished p (s\<lparr>ps_ch := c, ps_accepted := ps_accepted s @ [p]\<rparr>))"
| retry_full: "at s i AtRetry p \<Longrightarrow> ch_try_send p (ps_ch s) = SendFull \<Longrightarrow>
    push_step s (goto i Finished p (s\<lparr>ps_dropped := ps_dropped s + 1,
                                      ps_rejected := ps_rejected s @ [p]\<rparr>))"
| retry_panic: "at s i AtRetry p \<Longrightarrow> ch_try_send p (ps_ch s) = SendPanic \<Longrightarrow> ps_closed s \<Longrightarrow>
    push_step s (goto i Finished p s)"
| consume: "ch_try_recv (ps_ch s) = Some (x, c) \<Longrightarrow>
    push_step s (s\<lparr>ps_ch := c, ps_removed := ps_removed s @ [(True, x)]\<rparr>)"
| close: "push_step s (s\<lparr>ps_ch := ch_close (ps_ch s), ps_closed := True\<rparr>)"

definition push_init :: "nat \<Rightarrow> push_sys" where
  "push_init n = \<lparr>ps_ch = make_chan n, ps_closed = False, ps_dropped = 0,
     ps_thread = (\<lambda>_. (Finished, sample_point [] [])), ps_accepted = [], ps_removed = [], ps_rejected = []\<rparr>"

inductive push_reach :: "nat \<Rightarrow> push_sys \<Rightarrow> bool" for n where
  init: "push_reach n (push_init n)"
| step: "push_reach n s \<Longrightarrow> push_step s t \<Longrightarrow> push_reach n t"

definition evicted :: "push_sys \<Rightarrow> data_point list" where
  "evicted s = map snd (filter (\<lambda>e. \<not> fst e) (ps_removed s))"

definition consumed :: "push_sys \<Rightarrow> data_point list" where
  "consumed s = map snd (filter fst (ps_removed s))"

definition push_inv :: "nat \<Rightarrow> push_sys \<Rightarrow> bool" where
  "push_inv n s \<longleftrightarrow>
     ch_cap (ps_ch s) = n \<and> chan_wf (ps_ch s) \<and> ch_closed (ps_ch s) = ps_closed s
   \<and> ps_accepted s = map snd (ps_removed s) @ ch_buf (ps_ch s)
   \<and> length (evicted s) + length (ps_rejected s) \<le> ps_dropped s
   \<and> (\<not> ps_closed s \<longrightarrow> length (evicted s) + length (ps_rejected s) = ps_dropped s)"

lemmas push_defs = push_inv_def goto_def evicted_def ch_try_send_def ch_try_recv_def ch_close_def
  chan_wf_def

lemma push_step_inv: "push_step s t \<Longrightarrow> push_inv n s \<Longrightarrow> push_inv n t"
  by (induction rule: push_step.induct) (auto simp: push_defs split: if_splits list.splits)

lemma push_reach_inv: "push_reach n s \<Longrightarrow> push_inv n s"
proof (induction rule: push_reach.induct)
  case init
  show ?case by (simp add: push_inv_def push_init_def make_chan_def chan_wf_def evicted_def)
next
  case (step s t)
  then show ?case by (blast intro: push_step_inv)
qed



end
