(* ===== verification/Latest_Cache.thy ===== *)
theory Latest_Cache
  imports Core_Types
begin

unbundle bit_operations_syntax

text \<open>
  The latest-value cache, \<^verbatim>\<open>engine/cache.go\<close>: 64 shards selected by the FNV-1a hash of
  the driver name; per driver a value map and an atomic snapshot that \<^verbatim>\<open>GetByDriver\<close> reuses
  while it is not dirty. The interface the rest of the engine relies on is the locale
  \<open>latest_store\<close>; the sharded cache is an instance of it.
\<close>

section \<open>Interface: a store of latest values\<close>

locale latest_store =
  fixes upd :: "data_point \<Rightarrow> 'c \<Rightarrow> 'c"
    and look :: "string \<Rightarrow> string \<Rightarrow> 'c \<Rightarrow> data_point option"
    and del_tag :: "string \<Rightarrow> string \<Rightarrow> 'c \<Rightarrow> 'c"
    and del_driver :: "string \<Rightarrow> 'c \<Rightarrow> 'c"
    and ok :: "'c \<Rightarrow> bool"
  assumes look_upd: "ok c \<Longrightarrow> look d t (upd p c) =
      (if d = dp_driver p \<and> t = dp_tag p then Some p else look d t c)"
    and look_del_tag: "ok c \<Longrightarrow> look d t (del_tag d' t' c) =
      (if d = d' \<and> t = t' then None else look d t c)"
    and look_del_driver: "ok c \<Longrightarrow> look d t (del_driver d' c) = (if d = d' then None else look d t c)"
    and ok_upd: "ok c \<Longrightarrow> ok (upd p c)"
    and ok_del_tag: "ok c \<Longrightarrow> ok (del_tag d t c)"
    and ok_del_driver: "ok c \<Longrightarrow> ok (del_driver d c)"
begin

lemma ok_fold: "ok c \<Longrightarrow> ok (fold upd ps c)"
  by (induction ps arbitrary: c) (auto intro: ok_upd)

text \<open>The newest point for a key in a run of updates, if there is one.\<close>

lemma look_fold:
  assumes "ok c"
  shows "look d t (fold upd ps c) =
    (case find (\<lambda>p. dp_driver p = d \<and> dp_tag p = t) (rev ps) of
       Some p \<Rightarrow> Some p | None \<Rightarrow> look d t c)"
  using assms
proof (induction ps rule: rev_induct)
  case Nil
  then show ?case by simp
next
  case (snoc p ps)
  then show ?case
    by (simp add: look_upd ok_fold)
qed

lemma deleted_stays_absent:
  assumes "ok c" and "\<forall>p \<in> set ps. dp_driver p \<noteq> d"
  shows "look d t (fold upd ps (del_driver d c)) = None"
proof -
  have "find (\<lambda>p. dp_driver p = d \<and> dp_tag p = t) (rev ps) = None"
    using assms(2) by (auto simp: find_None_iff)
  with assms show ?thesis by (simp add: look_fold ok_del_driver look_del_driver)
qed

end

section \<open>The sharded cache\<close>

definition numCacheShards :: nat where
  "numCacheShards = 64"

record driver_cache =
  dc_values :: "string \<rightharpoonup> data_point"
  dc_snapshot :: "(string \<rightharpoonup> data_point) option"
  dc_dirty :: bool

type_synonym cache_shard = "string \<rightharpoonup> driver_cache"
type_synonym latest_cache = "cache_shard list"

definition NewLatestCache :: latest_cache where
  "NewLatestCache = replicate numCacheShards Map.empty"

text \<open>\<^verbatim>\<open>fnv.New32a\<close>: exclusive-or with the byte, then multiply by the FNV prime.\<close>

definition fnv32a :: "string \<Rightarrow> u32" where
  "fnv32a s = foldl (\<lambda>h c. (h XOR of_char c) * 16777619) 2166136261 s"

definition cacheShardIdx :: "string \<Rightarrow> nat" where
  "cacheShardIdx driver = unat (fnv32a driver) mod numCacheShards"

definition new_driver_cache :: driver_cache where
  "new_driver_cache = \<lparr>dc_values = Map.empty, dc_snapshot = None, dc_dirty = False\<rparr>"

definition cache_driver :: "latest_cache \<Rightarrow> string \<Rightarrow> driver_cache option" where
  "cache_driver c driver = (c ! cacheShardIdx driver) driver"

definition set_driver :: "string \<Rightarrow> driver_cache option \<Rightarrow> latest_cache \<Rightarrow> latest_cache" where
  "set_driver driver dc c =
     c[cacheShardIdx driver := (c ! cacheShardIdx driver)(driver := dc)]"

definition Update :: "data_point \<Rightarrow> latest_cache \<Rightarrow> latest_cache" where
  "Update point c =
     (let dc = (case cache_driver c (dp_driver point) of Some dc \<Rightarrow> dc | None \<Rightarrow> new_driver_cache)
      in set_driver (dp_driver point)
           (Some (dc\<lparr>dc_values := (dc_values dc)(dp_tag point \<mapsto> point), dc_dirty := True\<rparr>)) c)"

definition Get :: "string \<Rightarrow> string \<Rightarrow> latest_cache \<Rightarrow> data_point option" where
  "Get driver tag c =
     (case cache_driver c driver of None \<Rightarrow> None | Some dc \<Rightarrow> dc_values dc tag)"

definition GetByDriver ::
  "string \<Rightarrow> latest_cache \<Rightarrow> (string \<rightharpoonup> data_point) option \<times> latest_cache" where
  "GetByDriver driver c =
     (case cache_driver c driver of
        None \<Rightarrow> (None, c)
      | Some dc \<Rightarrow>
          (case (dc_dirty dc, dc_snapshot dc) of
             (False, Some snap) \<Rightarrow> (Some snap, c)
           | _ \<Rightarrow>
             (let snap = dc_values dc
              in (Some snap, set_driver driver (Some (dc\<lparr>dc_snapshot := Some snap, dc_dirty := False\<rparr>)) c))))"

text \<open>
  \<^verbatim>\<open>GetAll\<close> walks the shards in order and the drivers of a shard in Go's unspecified map
  order; \<open>ord i\<close> is the order in which the drivers of shard \<open>i\<close> are visited.
\<close>

definition merge_shard :: "cache_shard \<Rightarrow> string list \<Rightarrow> (string \<rightharpoonup> data_point) \<Rightarrow> (string \<rightharpoonup> data_point)" where
  "merge_shard sh ds all =
     foldl (\<lambda>m d. case sh d of None \<Rightarrow> m | Some dc \<Rightarrow> m ++ dc_values dc) all ds"

definition GetAll :: "(nat \<Rightarrow> string list) \<Rightarrow> latest_cache \<Rightarrow> (string \<rightharpoonup> data_point)" where
  "GetAll ord c = foldl (\<lambda>all i. merge_shard (c ! i) (ord i) all) Map.empty [0..<numCacheShards]"

definition DeleteDriver :: "string \<Rightarrow> latest_cache \<Rightarrow> latest_cache" where
  "DeleteDriver driver c = set_driver driver None c"

definition DeleteTag :: "string \<Rightarrow> string \<Rightarrow> latest_cache \<Rightarrow> latest_cache" where
  "DeleteTag driver tag c =
     (case cache_driver c driver of
        None \<Rightarrow> c
      | Some dc \<Rightarrow>
          set_driver driver (Some (dc\<lparr>dc_values := (dc_values dc)(tag := None), dc_dirty := True\<rparr>)) c)"

definition Clear :: "latest_cache \<Rightarrow> latest_cache" where
  "Clear c = map (\<lambda>_. Map.empty) c"

section \<open>Invariant and refinement\<close>

text \<open>
  All shards are present, a driver lives only in the shard its hash selects, and a snapshot
  that is not dirty is up to date.
\<close>

definition snap_ok :: "driver_cache \<Rightarrow> bool" where
  "snap_ok dc \<longleftrightarrow> (\<not> dc_dirty dc \<longrightarrow> (\<forall>snap. dc_snapshot dc = Some snap \<longrightarrow> snap = dc_values dc))"

definition cache_inv :: "latest_cache \<Rightarrow> bool" where
  "cache_inv c \<longleftrightarrow> length c = numCacheShards
     \<and> (\<forall>i < numCacheShards. \<forall>d dc. (c ! i) d = Some dc \<longrightarrow> i = cacheShardIdx d \<and> snap_ok dc)"

lemma cacheShardIdx_less [simp]: "cacheShardIdx d < numCacheShards"
  by (simp add: cacheShardIdx_def numCacheShards_def)

lemma cache_driver_set_driver:
  "length c = numCacheShards \<Longrightarrow>
   cache_driver (set_driver d dc c) d' = (if d' = d then dc else cache_driver c d')"
  by (auto simp: cache_driver_def set_driver_def nth_list_update)

lemma snap_ok_dirty [simp]: "snap_ok (dc\<lparr>dc_values := m, dc_dirty := True\<rparr>)"
  by (simp add: snap_ok_def)

lemma snap_ok_rebuilt [simp]: "snap_ok (dc\<lparr>dc_snapshot := Some (dc_values dc), dc_dirty := False\<rparr>)"
  by (simp add: snap_ok_def)

lemma cache_inv_set_driver:
  assumes "cache_inv c" and "pred_option snap_ok dc"
  shows "cache_inv (set_driver d dc c)"
proof -
  have "i = cacheShardIdx d' \<and> snap_ok dc'"
    if "i < numCacheShards" "(set_driver d dc c ! i) d' = Some dc'" for i d' dc'
  proof (cases "i = cacheShardIdx d \<and> d' = d")
    case True
    with that assms show ?thesis
      by (simp add: set_driver_def cache_inv_def)
  next
    case False
    with that assms have "(c ! i) d' = Some dc'"
      by (auto simp: set_driver_def cache_inv_def nth_list_update split: if_splits)
    with that assms show ?thesis by (simp add: cache_inv_def)
  qed
  moreover have "length (set_driver d dc c) = numCacheShards"
    using assms by (simp add: set_driver_def cache_inv_def)
  ultimately show ?thesis by (simp add: cache_inv_def)
qed

lemma cache_inv_length: "cache_inv c \<Longrightarrow> length c = numCacheShards"
  by (simp add: cache_inv_def)

lemma cache_inv_snapshot:
  "cache_inv c \<Longrightarrow> cache_driver c d = Some dc \<Longrightarrow> \<not> dc_dirty dc \<Longrightarrow> dc_snapshot dc = Some snap \<Longrightarrow>
   snap = dc_values dc"
  unfolding cache_inv_def cache_driver_def snap_ok_def by (metis cacheShardIdx_less)

lemma cache_inv_new [simp]: "cache_inv NewLatestCache"
  by (simp add: cache_inv_def NewLatestCache_def)

lemma cache_inv_Clear: "cache_inv c \<Longrightarrow> cache_inv (Clear c)"
  by (simp add: cache_inv_def Clear_def)

lemma cache_inv_Update: "cache_inv c \<Longrightarrow> cache_inv (Update p c)"
  by (simp add: Update_def Let_def cache_inv_set_driver)

lemma cache_inv_DeleteDriver: "cache_inv c \<Longrightarrow> cache_inv (DeleteDriver d c)"
  by (simp add: DeleteDriver_def cache_inv_set_driver)

lemma cache_inv_DeleteTag: "cache_inv c \<Longrightarrow> cache_inv (DeleteTag d t c)"
  by (auto simp: DeleteTag_def cache_inv_set_driver split: option.splits)

lemma cache_inv_GetByDriver: "cache_inv c \<Longrightarrow> cache_inv (snd (GetByDriver d c))"
  by (auto simp: GetByDriver_def Let_def cache_inv_set_driver split: option.splits bool.splits)

lemma Get_Update:
  "cache_inv c \<Longrightarrow> Get d t (Update p c) =
     (if d = dp_driver p \<and> t = dp_tag p then Some p else Get d t c)"
  by (auto simp: Get_def Update_def Let_def cache_driver_set_driver cache_inv_length new_driver_cache_def
      split: option.splits)

lemma Get_DeleteDriver:
  "cache_inv c \<Longrightarrow> Get d t (DeleteDriver d' c) = (if d = d' then None else Get d t c)"
  by (simp add: Get_def DeleteDriver_def cache_driver_set_driver cache_inv_length)

lemma Get_DeleteTag:
  "cache_inv c \<Longrightarrow> Get d t (DeleteTag d' t' c) = (if d = d' \<and> t = t' then None else Get d t c)"
  by (auto simp: Get_def DeleteTag_def cache_driver_set_driver cache_inv_length split: option.splits)

interpretation lc: latest_store Update Get DeleteTag DeleteDriver cache_inv
  by unfold_locales
     (simp_all add: Get_Update Get_DeleteTag Get_DeleteDriver cache_inv_Update cache_inv_DeleteTag
       cache_inv_DeleteDriver)

text \<open>\<open>GetByDriver\<close> is a pure read: its answer is the driver's map, its effect is invisible.\<close>

lemma GetByDriver_value:
  "cache_inv c \<Longrightarrow> fst (GetByDriver d c) = map_option dc_values (cache_driver c d)"
  by (auto simp: GetByDriver_def Let_def dest: cache_inv_snapshot split: option.splits bool.splits)

lemma Get_GetByDriver: "cache_inv c \<Longrightarrow> Get d t (snd (GetByDriver d' c)) = Get d t c"
  by (auto simp: Get_def GetByDriver_def Let_def cache_driver_set_driver cache_inv_length
      split: option.splits bool.splits)

text \<open>
  C30. The sharded cache with its lazily rebuilt snapshots implements the plain map of latest
  values: after any sequence of updates, a lookup returns the last point written for that driver
  and tag (or what was there before), and the per-driver map served by \<^verbatim>\<open>GetByDriver\<close>, from the
  snapshot or rebuilt, agrees with \<^verbatim>\<open>Get\<close> on every tag.
\<close>

theorem cache_serves_latest:
  assumes "cache_inv c"
  shows "Get d t (fold Update ps c) =
      (case find (\<lambda>p. dp_driver p = d \<and> dp_tag p = t) (rev ps) of Some p \<Rightarrow> Some p | None \<Rightarrow> Get d t c)
    \<and> (\<forall>m. fst (GetByDriver d (fold Update ps c)) = Some m \<longrightarrow> m t = Get d t (fold Update ps c))
    \<and> (fst (GetByDriver d (fold Update ps c)) = None \<longrightarrow> Get d t (fold Update ps c) = None)"
proof -
  have inv: "cache_inv (fold Update ps c)" using assms by (rule lc.ok_fold)
  then show ?thesis
    using lc.look_fold [OF assms, of d t ps] GetByDriver_value [OF inv, of d]
    by (auto simp: Get_def split: option.splits)
qed

definition cache_point :: "string \<Rightarrow> string \<Rightarrow> go_value \<Rightarrow> data_point" where
  "cache_point d t v = \<lparr>dp_driver = d, dp_device = [], dp_group = [], dp_tag = t, dp_value = v,
     dp_type = TypeBool, dp_quality = QualityGood, dp_timestamp = 0, dp_metadata = [],
     dp_is_stale = False\<rparr>"

theorem cache_serves_latest_witness:
  "Get ''plc'' ''t'' (fold Update
      [cache_point ''plc'' ''t'' (VBool False), cache_point ''plc'' ''t'' (VBool True)] NewLatestCache)
   = Some (cache_point ''plc'' ''t'' (VBool True))"
  using cache_serves_latest [OF cache_inv_new, of "''plc''" "''t''"
      "[cache_point ''plc'' ''t'' (VBool False), cache_point ''plc'' ''t'' (VBool True)]"]
  by (simp add: cache_point_def)

lemma cache_driver_Update:
  "cache_inv c \<Longrightarrow> dp_driver p \<noteq> d \<Longrightarrow> cache_driver (Update p c) d = cache_driver c d"
  by (simp add: Update_def Let_def cache_driver_set_driver cache_inv_length)

lemma deleted_driver_absent:
  assumes "cache_inv c" and "\<forall>p \<in> set ps. dp_driver p \<noteq> d"
  shows "cache_driver (fold Update ps (DeleteDriver d c)) d = None"
  using assms
proof (induction ps rule: rev_induct)
  case Nil
  then show ?case by (simp add: DeleteDriver_def cache_driver_set_driver cache_inv_length)
next
  case (snoc p ps)
  then show ?case by (simp add: cache_driver_Update lc.ok_fold cache_inv_DeleteDriver)
qed

text \<open>
  Evicting a removed driver is complete: none of its tags is visible any more, through
  \<^verbatim>\<open>Get\<close>, through the snapshot path, and after any later updates of other drivers; the other
  drivers' values are untouched.
\<close>

theorem delete_driver_evicts:
  assumes "cache_inv c" and "\<forall>p \<in> set ps. dp_driver p \<noteq> d"
  shows "Get d t (fold Update ps (DeleteDriver d c)) = None
    \<and> fst (GetByDriver d (fold Update ps (DeleteDriver d c))) = None
    \<and> (d' \<noteq> d \<longrightarrow> Get d' t (DeleteDriver d c) = Get d' t c)"
  using lc.deleted_stays_absent [OF assms, of t] deleted_driver_absent [OF assms]
    Get_DeleteDriver [OF assms(1)]
  by (simp add: GetByDriver_def)

theorem delete_driver_evicts_witness:
  "Get ''plc'' ''t'' (fold Update [] (DeleteDriver ''plc''
      (Update (cache_point ''plc'' ''t'' VNil) NewLatestCache))) = None"
proof -
  have "cache_inv (Update (cache_point ''plc'' ''t'' VNil) NewLatestCache)"
    by (simp add: cache_inv_Update)
  from delete_driver_evicts [OF this, of "[]" "''plc''" "''t''" "''x''"] show ?thesis by simp
qed

section \<open>All drivers at once\<close>

lemma merge_shard_from:
  "merge_shard sh ds all t = Some p \<Longrightarrow>
   all t = Some p \<or> (\<exists>d \<in> set ds. \<exists>dc. sh d = Some dc \<and> dc_values dc t = Some p)"
proof (induction ds rule: rev_induct)
  case Nil
  then show ?case by (simp add: merge_shard_def)
next
  case (snoc d ds)
  then show ?case
    by (auto simp: merge_shard_def map_add_def split: option.splits)
qed

lemma merge_shard_keeps: "all t \<noteq> None \<Longrightarrow> merge_shard sh ds all t \<noteq> None"
  by (induction ds rule: rev_induct) (auto simp: merge_shard_def map_add_def split: option.splits)

lemma merge_shard_covers:
  "d \<in> set ds \<Longrightarrow> sh d = Some dc \<Longrightarrow> dc_values dc t \<noteq> None \<Longrightarrow> merge_shard sh ds all t \<noteq> None"
proof (induction ds rule: rev_induct)
  case Nil
  then show ?case by simp
next
  case (snoc d' ds)
  then show ?case
    by (cases "d = d'") (auto simp: merge_shard_def map_add_def split: option.splits)
qed

definition merge_shards :: "(nat \<Rightarrow> string list) \<Rightarrow> latest_cache \<Rightarrow> nat list \<Rightarrow> (string \<rightharpoonup> data_point)" where
  "merge_shards ord c is = foldl (\<lambda>all i. merge_shard (c ! i) (ord i) all) Map.empty is"

lemma merge_shards_from:
  "merge_shards ord c is t = Some p \<Longrightarrow>
   \<exists>i \<in> set is. \<exists>d \<in> set (ord i). \<exists>dc. (c ! i) d = Some dc \<and> dc_values dc t = Some p"
  by (induction "is" rule: rev_induct) (auto simp: merge_shards_def dest!: merge_shard_from)

lemma merge_shards_covers:
  "i \<in> set is \<Longrightarrow> d \<in> set (ord i) \<Longrightarrow> (c ! i) d = Some dc \<Longrightarrow> dc_values dc t \<noteq> None \<Longrightarrow>
   merge_shards ord c is t \<noteq> None"
proof (induction "is" rule: rev_induct)
  case Nil
  then show ?case by simp
next
  case (snoc j js)
  have eq: "merge_shards ord c (js @ [j]) = merge_shard (c ! j) (ord j) (merge_shards ord c js)"
    by (simp add: merge_shards_def)
  show ?case
  proof (cases "i = j")
    case True
    with snoc.prems show ?thesis unfolding eq by (metis merge_shard_covers)
  next
    case False
    with snoc.prems(1) have "i \<in> set js" by auto
    with snoc have "merge_shards ord c js t \<noteq> None" by blast
    then show ?thesis unfolding eq by (rule merge_shard_keeps)
  qed
qed

lemma GetAll_shards: "GetAll ord c = merge_shards ord c [0..<numCacheShards]"
  by (simp add: GetAll_def merge_shards_def)

text \<open>
  \<^verbatim>\<open>GetAll\<close> is sound and complete whatever the map iteration order is: every point it
  returns for a tag is the cached latest value of that tag on some driver, and a tag cached for
  any driver is present.
\<close>

theorem get_all_sound_complete:
  assumes "cache_inv c"
    and "\<forall>i < numCacheShards. set (ord i) = dom (c ! i)"
  shows "(GetAll ord c t = Some p \<longrightarrow> (\<exists>d. Get d t c = Some p))
    \<and> (Get d t c \<noteq> None \<longrightarrow> GetAll ord c t \<noteq> None)"
proof (intro conjI impI)
  assume "GetAll ord c t = Some p"
  then obtain i d dc where i: "i < numCacheShards" "(c ! i) d = Some dc" "dc_values dc t = Some p"
    unfolding GetAll_shards by (auto dest!: merge_shards_from)
  with assms(1) have "i = cacheShardIdx d" by (simp add: cache_inv_def)
  with i have "Get d t c = Some p" by (simp add: Get_def cache_driver_def)
  then show "\<exists>d. Get d t c = Some p" ..
next
  assume "Get d t c \<noteq> None"
  then obtain dc where dc: "(c ! cacheShardIdx d) d = Some dc" "dc_values dc t \<noteq> None"
    by (auto simp: Get_def cache_driver_def split: option.splits)
  from dc(1) assms(2) have "d \<in> set (ord (cacheShardIdx d))"
    using cacheShardIdx_less [of d] by blast
  with dc show "GetAll ord c t \<noteq> None"
    unfolding GetAll_shards
    by (intro merge_shards_covers [of "cacheShardIdx d"]) auto
qed

lemma NewLatestCache_nth: "i < numCacheShards \<Longrightarrow> NewLatestCache ! i = Map.empty"
  by (simp add: NewLatestCache_def)

theorem get_all_sound_complete_witness:
  "GetAll (\<lambda>i. if i = cacheShardIdx ''plc'' then [''plc''] else [])
     (Update (cache_point ''plc'' ''t'' VNil) NewLatestCache) ''t'' \<noteq> None"
proof -
  let ?c = "Update (cache_point ''plc'' ''t'' VNil) NewLatestCache"
  let ?ord = "\<lambda>i. if i = cacheShardIdx ''plc'' then [''plc''] else []"
  have inv: "cache_inv ?c" by (simp add: cache_inv_Update)
  have "\<forall>i < numCacheShards. set (?ord i) = dom (?c ! i)"
    by (auto simp: Update_def Let_def set_driver_def cache_driver_def NewLatestCache_nth cache_point_def
        cache_inv_length [OF cache_inv_new] nth_list_update split: if_splits)
  from get_all_sound_complete [OF inv this, of "''t''" _ "''plc''"]
  show ?thesis by (simp add: Get_Update cache_point_def)
qed

section \<open>Concurrent readers and writers of one driver\<close>

text \<open>
  \<^verbatim>\<open>Update\<close> writes the value under the lock and sets the dirty flag after releasing it;
  \<^verbatim>\<open>GetByDriver\<close> first loads the flag and then the snapshot pointer, without the lock, and
  rebuilds under the lock otherwise. To say which values a reader may see, every write (an update
  or a tag deletion) gets the next version number; \<open>vs_values\<close> and \<open>vs_snapshot\<close> hold the
  version of each tag in the value map and in the snapshot, and \<open>vs_done\<close> the newest version
  whose writer has returned. A reader remembers in \<open>R1\<close> the \<open>vs_done\<close> of the moment it started.
\<close>

datatype reader = RIdle | R1 "string \<Rightarrow> nat" | RDone "string \<Rightarrow> nat" "string \<Rightarrow> nat"
datatype writer = WIdle | WWritten string nat

record version_sys =
  vs_next :: nat
  vs_values :: "string \<Rightarrow> nat"
  vs_snapshot :: "(string \<Rightarrow> nat) option"
  vs_dirty :: bool
  vs_done :: "string \<Rightarrow> nat"
  vs_reader :: "nat \<Rightarrow> reader"
  vs_writer :: "nat \<Rightarrow> writer"

inductive version_step :: "version_sys \<Rightarrow> version_sys \<Rightarrow> bool" where
  put_value: "vs_writer s j = WIdle \<Longrightarrow>
    version_step s (s\<lparr>vs_values := (vs_values s)(t := vs_next s), vs_next := Suc (vs_next s),
                      vs_writer := (vs_writer s)(j := WWritten t (vs_next s))\<rparr>)"
| mark_dirty: "vs_writer s j = WWritten t v \<Longrightarrow>
    version_step s (s\<lparr>vs_dirty := True, vs_done := (vs_done s)(t := max v (vs_done s t)),
                      vs_writer := (vs_writer s)(j := WIdle)\<rparr>)"
| fast_check: "vs_reader s i = RIdle \<Longrightarrow> \<not> vs_dirty s \<Longrightarrow>
    version_step s (s\<lparr>vs_reader := (vs_reader s)(i := R1 (vs_done s))\<rparr>)"
| fast_load: "vs_reader s i = R1 f \<Longrightarrow> vs_snapshot s = Some m \<Longrightarrow>
    version_step s (s\<lparr>vs_reader := (vs_reader s)(i := RDone f m)\<rparr>)"
| rebuild: "vs_reader s i = RIdle \<and> f = vs_done s \<or> vs_reader s i = R1 f \<Longrightarrow>
    version_step s (s\<lparr>vs_snapshot := Some (vs_values s), vs_dirty := False,
                      vs_reader := (vs_reader s)(i := RDone f (vs_values s))\<rparr>)"
| leave: "vs_reader s i = RDone f m \<Longrightarrow>
    version_step s (s\<lparr>vs_reader := (vs_reader s)(i := RIdle)\<rparr>)"

definition version_init :: version_sys where
  "version_init = \<lparr>vs_next = 1, vs_values = (\<lambda>_. 0), vs_snapshot = None, vs_dirty = False,
     vs_done = (\<lambda>_. 0), vs_reader = (\<lambda>_. RIdle), vs_writer = (\<lambda>_. WIdle)\<rparr>"

inductive version_reach :: "version_sys \<Rightarrow> bool" where
  vinit: "version_reach version_init"
| vstep: "version_reach s \<Longrightarrow> version_step s s' \<Longrightarrow> version_reach s'"

definition version_inv :: "version_sys \<Rightarrow> bool" where
  "version_inv s \<longleftrightarrow>
     (\<forall>t. vs_done s t \<le> vs_values s t) \<and> (\<forall>t. vs_values s t < vs_next s)
   \<and> (\<forall>j t v. vs_writer s j = WWritten t v \<longrightarrow> v \<le> vs_values s t)
   \<and> (\<forall>m t. vs_snapshot s = Some m \<longrightarrow> m t \<le> vs_values s t)
   \<and> (\<forall>m t. vs_snapshot s = Some m \<longrightarrow> \<not> vs_dirty s \<longrightarrow> vs_done s t \<le> m t)
   \<and> (\<forall>i f m t. vs_reader s i = R1 f \<longrightarrow> vs_snapshot s = Some m \<longrightarrow> f t \<le> m t)
   \<and> (\<forall>i f t. vs_reader s i = R1 f \<longrightarrow> f t \<le> vs_done s t)
   \<and> (\<forall>i f m t. vs_reader s i = RDone f m \<longrightarrow> f t \<le> m t)"

lemma version_step_inv:
  assumes "version_step s s'" and "version_inv s"
  shows "version_inv s'"
  using assms
proof (induction rule: version_step.induct)
  case (put_value s j t)
  then show ?case
    by (auto simp: version_inv_def less_Suc_eq_le) (meson le_trans less_imp_le nat_less_le | fastforce)+
next
  case (mark_dirty s j t v)
  then show ?case by (auto simp: version_inv_def le_max_iff_disj)
next
  case (fast_check s i)
  then show ?case by (auto simp: version_inv_def)
next
  case (fast_load s i f m)
  then show ?case by (auto simp: version_inv_def)
next
  case (rebuild s i f)
  have "f t \<le> vs_values s t" for t
    using rebuild by (auto simp: version_inv_def) (meson le_trans)+
  with rebuild show ?case by (auto simp: version_inv_def) (meson le_trans)+
next
  case (leave s i f m)
  then show ?case by (auto simp: version_inv_def)
qed

lemma version_reach_inv: "version_reach s \<Longrightarrow> version_inv s"
proof (induction rule: version_reach.induct)
  case vinit
  show ?case by (simp add: version_inv_def version_init_def)
next
  case (vstep s s')
  then show ?case by (blast intro: version_step_inv)
qed



end
