(* ===== verification/Regex.thy ===== *)
theory Regex
  imports Prelude
begin

text \<open>
  The part of Go's package \<^verbatim>\<open>regexp\<close> that CoreC uses: patterns of character classes,
  sequence, alternation, greedy repetition, optional parts, capture groups and the end anchor.
  Matching is leftmost-first: \<open>rx_match\<close> lists all ways to match a prefix of the input in
  the order of preference, and the first one is the match. Positions are byte offsets.
\<close>

datatype rx =
    REmpty
  | RClass "char \<Rightarrow> bool"
  | RSeq rx rx
  | RAlt rx rx
  | RStar rx
  | RGroup nat rx
  | REnd

definition RPlus :: "rx \<Rightarrow> rx" where "RPlus r = RSeq r (RStar r)"

definition ROpt :: "rx \<Rightarrow> rx" where "ROpt r = RAlt r REmpty"

definition RChar :: "char \<Rightarrow> rx" where "RChar c = RClass (\<lambda>d. d = c)"

definition RSeqs :: "rx list \<Rightarrow> rx" where "RSeqs rs = foldr RSeq rs REmpty"

definition RLit :: "string \<Rightarrow> rx" where "RLit s = RSeqs (map RChar s)"

definition RLitFold :: "string \<Rightarrow> rx" where
  "RLitFold s = RSeqs (map (\<lambda>c. RClass (\<lambda>d. to_lower_char d = to_lower_char c)) s)"

text \<open>The classes \<^verbatim>\<open>\s\<close>, \<^verbatim>\<open>\d\<close> and \<^verbatim>\<open>\w\<close>.\<close>

definition rx_space :: "char \<Rightarrow> bool" where
  "rx_space c \<longleftrightarrow> c \<in> {CHR '' '', CHR 0x09, CHR 0x0A, CHR 0x0C, CHR 0x0D}"

definition rx_word :: "char \<Rightarrow> bool" where
  "rx_word c \<longleftrightarrow> (let n = of_char c :: nat in
     48 \<le> n \<and> n \<le> 57 \<or> 65 \<le> n \<and> n \<le> 90 \<or> 97 \<le> n \<and> n \<le> 122 \<or> n = 95)"

text \<open>A capture records start and end offset; the newest entry of a group wins.\<close>

type_synonym captures = "(nat \<times> nat \<times> nat) list"
type_synonym rx_result = "string \<times> nat \<times> captures"

primrec star_match ::
  "nat \<Rightarrow> (string \<Rightarrow> nat \<Rightarrow> captures \<Rightarrow> rx_result list) \<Rightarrow> string \<Rightarrow> nat \<Rightarrow> captures \<Rightarrow> rx_result list" where
  "star_match 0 f s i c = [(s, i, c)]"
| "star_match (Suc n) f s i c =
     concat (map (\<lambda>(s', i', c'). if length s' < length s then star_match n f s' i' c' else []) (f s i c))
     @ [(s, i, c)]"

primrec rx_match :: "rx \<Rightarrow> string \<Rightarrow> nat \<Rightarrow> captures \<Rightarrow> rx_result list" where
  "rx_match REmpty s i c = [(s, i, c)]"
| "rx_match (RClass P) s i c = (case s of [] \<Rightarrow> [] | x # xs \<Rightarrow> if P x then [(xs, i + 1, c)] else [])"
| "rx_match (RSeq a b) s i c = concat (map (\<lambda>(s', i', c'). rx_match b s' i' c') (rx_match a s i c))"
| "rx_match (RAlt a b) s i c = rx_match a s i c @ rx_match b s i c"
| "rx_match (RStar r) s i c = star_match (length s) (rx_match r) s i c"
| "rx_match (RGroup g r) s i c = map (\<lambda>(s', i', c'). (s', i', (g, i, i') # c')) (rx_match r s i c)"
| "rx_match REnd s i c = (if s = [] then [(s, i, c)] else [])"

text \<open>A successful match: start, end, captures.\<close>

type_synonym rx_found = "nat \<times> nat \<times> captures"

definition match_here :: "rx \<Rightarrow> string \<Rightarrow> nat \<Rightarrow> rx_found option" where
  "match_here r s i = (case rx_match r s i [] of [] \<Rightarrow> None | (_, j, c) # _ \<Rightarrow> Some (i, j, c))"

text \<open>The leftmost match at or after offset \<open>i\<close>; the string is what is left from there.\<close>

fun find_from :: "rx \<Rightarrow> string \<Rightarrow> nat \<Rightarrow> rx_found option" where
  "find_from r [] i = match_here r [] i"
| "find_from r (x # s) i =
     (case match_here r (x # s) i of Some m \<Rightarrow> Some m | None \<Rightarrow> find_from r s (i + 1))"

text \<open>\<^verbatim>\<open>FindStringSubmatch\<close> of a pattern anchored at the beginning (\<^verbatim>\<open>^\<close>), and unanchored.\<close>

definition find_anchored :: "rx \<Rightarrow> string \<Rightarrow> rx_found option" where
  "find_anchored r s = match_here r s 0"

definition find_first :: "rx \<Rightarrow> string \<Rightarrow> rx_found option" where
  "find_first r s = find_from r s 0"

text \<open>
  \<^verbatim>\<open>FindAllStringSubmatchIndex(s, -1)\<close> for patterns that never match the empty string
  (all of CoreC's); \<open>n\<close> bounds the number of matches, one per character is enough.
\<close>

primrec find_all_fuel :: "nat \<Rightarrow> rx \<Rightarrow> string \<Rightarrow> nat \<Rightarrow> rx_found list" where
  "find_all_fuel 0 r s i = []"
| "find_all_fuel (Suc n) r s i =
     (case find_from r s i of
        None \<Rightarrow> []
      | Some (a, b, c) \<Rightarrow> (a, b, c) # (if a < b then find_all_fuel n r (drop (b - i) s) b else []))"

definition find_all :: "rx \<Rightarrow> string \<Rightarrow> rx_found list" where
  "find_all r s = find_all_fuel (length s) r s 0"

definition slice :: "string \<Rightarrow> nat \<Rightarrow> nat \<Rightarrow> string" where
  "slice s a b = take (b - a) (drop a s)"

text \<open>The text of group \<open>g\<close>, empty when the group did not take part.\<close>

definition group_text :: "string \<Rightarrow> captures \<Rightarrow> nat \<Rightarrow> string" where
  "group_text s c g = (case map_of c g of None \<Rightarrow> [] | Some (a, b) \<Rightarrow> slice s a b)"

text \<open>\<^verbatim>\<open>ReplaceAllString\<close> with a template given as a function of the captures.\<close>

fun replace_spans :: "string \<Rightarrow> (captures \<Rightarrow> string) \<Rightarrow> nat \<Rightarrow> rx_found list \<Rightarrow> string" where
  "replace_spans s f i [] = drop i s"
| "replace_spans s f i ((a, b, c) # ms) = slice s i a @ f c @ replace_spans s f b ms"

definition replace_all :: "rx \<Rightarrow> (string \<Rightarrow> captures \<Rightarrow> string) \<Rightarrow> string \<Rightarrow> string" where
  "replace_all r f s = replace_spans s (f s) 0 (find_all r s)"

section \<open>Basic facts\<close>

text \<open>A result is a suffix of the input and its offset counts the consumed characters.\<close>

definition suffix_ok :: "string \<Rightarrow> nat \<Rightarrow> rx_result \<Rightarrow> bool" where
  "suffix_ok s i = (\<lambda>(s', i', _). i \<le> i' \<and> i' - i \<le> length s \<and> s' = drop (i' - i) s)"

lemma suffix_ok_refl [simp]: "suffix_ok s i (s, i, c)"
  by (simp add: suffix_ok_def)

lemma suffix_ok_trans:
  "suffix_ok s i (s1, i1, c1) \<Longrightarrow> suffix_ok s1 i1 (s2, i2, c2) \<Longrightarrow> suffix_ok s i (s2, i2, c3)"
  by (auto simp: suffix_ok_def)

lemma star_match_suffix:
  assumes "\<And>s i c res. res \<in> set (f s i c) \<Longrightarrow> suffix_ok s i res"
  shows "res \<in> set (star_match n f s i c) \<Longrightarrow> suffix_ok s i res"
proof (induction n arbitrary: s i c)
  case 0
  then show ?case by simp
next
  case (Suc n)
  then consider "res = (s, i, c)"
    | s' i' c' where "(s', i', c') \<in> set (f s i c)" "res \<in> set (star_match n f s' i' c')"
    by (auto split: if_splits)
  then show ?case
  proof cases
    case 1
    then show ?thesis by simp
  next
    case 2
    from 2(1) have "suffix_ok s i (s', i', c')" by (rule assms)
    moreover from 2(2) have "suffix_ok s' i' res" by (rule Suc.IH)
    ultimately show ?thesis by (cases res) (auto intro: suffix_ok_trans)
  qed
qed

lemma rx_match_suffix: "res \<in> set (rx_match r s i c) \<Longrightarrow> suffix_ok s i res"
proof (induction r arbitrary: s i c res)
  case (RSeq a b)
  then obtain s' i' c' where 1: "(s', i', c') \<in> set (rx_match a s i c)"
    and 2: "res \<in> set (rx_match b s' i' c')" by auto
  from RSeq.IH(1) [OF 1] RSeq.IH(2) [OF 2] show ?case
    by (cases res) (auto intro: suffix_ok_trans)
next
  case (RStar r)
  from RStar.prems have "res \<in> set (star_match (length s) (rx_match r) s i c)" by simp
  then show ?case by (rule star_match_suffix [rotated]) (rule RStar.IH)
next
  case (RClass P)
  then show ?case by (auto simp: suffix_ok_def split: list.splits if_splits)
next
  case (RGroup g r)
  then obtain s' i' c' where "(s', i', c') \<in> set (rx_match r s i c)" "res = (s', i', (g, i, i') # c')"
    by auto
  with RGroup.IH show ?case by (fastforce simp: suffix_ok_def)
qed (auto split: if_splits)

lemma match_here_bounds:
  "match_here r s i = Some (a, b, c) \<Longrightarrow> a = i \<and> i \<le> b \<and> b \<le> i + length s"
  using rx_match_suffix [of _ r s i "[]"]
  by (fastforce simp: match_here_def suffix_ok_def split: list.splits)

lemma find_from_bounds:
  "find_from r s i = Some (a, b, c) \<Longrightarrow> i \<le> a \<and> a \<le> b \<and> b \<le> i + length s"
  by (induction r s i rule: find_from.induct)
     (auto dest: match_here_bounds split: option.splits)

text \<open>A literal matches exactly its own text.\<close>

lemma rx_match_RChar:
  "rx_match (RChar x) s i c = (case s of y # ys \<Rightarrow> if y = x then [(ys, i + 1, c)] else [] | [] \<Rightarrow> [])"
  by (auto simp: RChar_def split: list.splits)

lemma RSeqs_simps [simp]: "RSeqs [] = REmpty" "RSeqs (r # rs) = RSeq r (RSeqs rs)"
  by (simp_all add: RSeqs_def)

lemma rx_match_RLit:
  "rx_match (RLit t) s i c = (if has_prefix s t then [(drop (length t) s, i + length t, c)] else [])"
proof (induction t arbitrary: s i)
  case Nil
  then show ?case by (simp add: RLit_def has_prefix_def)
next
  case (Cons x t)
  have "rx_match (RLit (x # t)) s i c =
      concat (map (\<lambda>(s', i', c'). rx_match (RLit t) s' i' c') (rx_match (RChar x) s i c))"
    by (simp add: RLit_def)
  then show ?case
    by (auto simp: rx_match_RChar Cons.IH has_prefix_def split: list.splits)
qed

end
