(* ===== verification/Rule_Expr.thy ===== *)
theory Rule_Expr
  imports Core_Types Regex
begin

text \<open>
  Match and transform expressions, \<^verbatim>\<open>rule/expr.go\<close> and \<^verbatim>\<open>rule/arith.go\<close>: the translation
  of the CoreC match language to the syntax of the library expr-lang/expr, the compiled node with
  its error counters, the preview entry point, and the arithmetic evaluator with its program cache.
  The library itself is not part of the repository; it is the argument \<open>L\<close>, whose fields are
  the three entry points the code calls. A compiled program is represented by its source text,
  since compilation is a function of the text and of fixed options.
\<close>

type_synonym env = "(string \<times> go_value) list"

record expr_lang =
  xl_compile :: "string \<Rightarrow> string option"
  xl_run :: "string \<Rightarrow> env \<Rightarrow> (string, go_value) result"
  xl_compile_arith :: "string \<Rightarrow> string option"

text \<open>\<open>xl_compile\<close> and \<open>xl_compile_arith\<close> return the compile error, if there is one.\<close>

section \<open>Evaluation\<close>

record expr_node =
  en_program :: string
  en_errCount :: nat
  en_errAt :: time
  en_warned :: bool

datatype matcher = ExprLangNode expr_node | AllNode

datatype expr_error =
    EmptyExpression
  | CompileFailed string string
  | EvalFailed string
  | NonBoolean go_value

definition pointEnv :: "data_point \<Rightarrow> env" where
  "pointEnv p =
     [(''driver'', VString (dp_driver p)),
      (''device'', VString (dp_device p)),
      (''group'', VString (dp_group p)),
      (''tag'', VString (dp_tag p)),
      (''quality'', VString (quality_String (dp_quality p))),
      (''type'', VString (data_type_String (dp_type p))),
      (''value'', dp_value p),
      (''timestamp'', VInt64 (word_of_int (dp_timestamp p div 1000000)))]"

definition recordError :: "time \<Rightarrow> expr_node \<Rightarrow> expr_node" where
  "recordError now n = n\<lparr>en_errCount := en_errCount n + 1, en_errAt := now, en_warned := True\<rparr>"

definition eval :: "expr_lang \<Rightarrow> time \<Rightarrow> expr_node \<Rightarrow> data_point \<Rightarrow> bool \<times> expr_node" where
  "eval L now n p =
     (case xl_run L (en_program n) (pointEnv p) of
        Inl err \<Rightarrow> (False, recordError now n)
      | Inr (VBool b) \<Rightarrow> (b, n)
      | Inr _ \<Rightarrow> (False, n))"

definition evalErr ::
  "expr_lang \<Rightarrow> time \<Rightarrow> expr_node \<Rightarrow> data_point \<Rightarrow> (expr_error, bool) result \<times> expr_node" where
  "evalErr L now n p =
     (case xl_run L (en_program n) (pointEnv p) of
        Inl err \<Rightarrow> (Inl (EvalFailed err), recordError now n)
      | Inr (VBool b) \<Rightarrow> (Inr b, n)
      | Inr v \<Rightarrow> (Inl (NonBoolean v), n))"

definition evalErrors :: "expr_node \<Rightarrow> nat \<times> time" where
  "evalErrors n = (en_errCount n, en_errAt n)"

text \<open>The interface \<^verbatim>\<open>exprNode\<close>: a compiled expression, or the node that matches everything.\<close>

fun matcher_eval :: "expr_lang \<Rightarrow> time \<Rightarrow> matcher \<Rightarrow> data_point \<Rightarrow> bool \<times> matcher" where
  "matcher_eval L now (ExprLangNode n) p = apsnd ExprLangNode (eval L now n p)"
| "matcher_eval L now AllNode p = (True, AllNode)"

fun matcher_evalErrors :: "matcher \<Rightarrow> nat \<times> time" where
  "matcher_evalErrors (ExprLangNode n) = evalErrors n"
| "matcher_evalErrors AllNode = (0, 0)"

section \<open>Translation of the match language\<close>

abbreviation quote :: char where "quote \<equiv> CHR 0x27"

definition rx_spaces :: rx where "rx_spaces = RStar (RClass rx_space)"
definition rx_spaces1 :: rx where "rx_spaces1 = RPlus (RClass rx_space)"
definition rx_ident :: rx where "rx_ident = RGroup 1 (RPlus (RClass rx_word))"

text \<open>\<^verbatim>\<open>'([^']*)'\<close> with the text between the quotes as group 2.\<close>

definition rx_quoted :: rx where
  "rx_quoted = RSeqs [RChar quote, RGroup 2 (RStar (RClass (\<lambda>c. c \<noteq> quote))), RChar quote]"

definition reRegexMatch :: rx where
  "reRegexMatch = RSeqs [rx_ident, rx_spaces, RLit ''=~'', rx_spaces, rx_quoted]"

definition reRegexNonMatch :: rx where
  "reRegexNonMatch = RSeqs [rx_ident, rx_spaces, RLit ''!~'', rx_spaces, rx_quoted]"

definition reContains :: rx where
  "reContains = RSeqs [rx_ident, rx_spaces1, RLit ''contains'', rx_spaces1, rx_quoted]"

definition reSuffix :: rx where
  "reSuffix = RSeqs [rx_ident, rx_spaces1, RLit ''suffix'', rx_spaces1, rx_quoted]"

definition rePrefix :: rx where
  "rePrefix = RSeqs [rx_ident, rx_spaces1, RLit ''prefix'', rx_spaces1, rx_quoted]"

text \<open>\<^verbatim>\<open>(-?\d+(?:\.\d+)?)\<close> as group \<open>g\<close>.\<close>

definition rx_number :: "nat \<Rightarrow> rx" where
  "rx_number g = RGroup g (RSeqs [ROpt (RChar CHR ''-''), RPlus (RClass is_digit),
     ROpt (RSeqs [RChar CHR ''.'', RPlus (RClass is_digit)])])"

definition reRange :: rx where
  "reRange = RSeqs [rx_ident, rx_spaces1, RLit ''in'', rx_spaces1, rx_number 2, RLit ''..'', rx_number 3]"

definition reStringLit :: rx where
  "reStringLit = RSeqs [RChar quote, RStar (RClass (\<lambda>c. c \<noteq> quote)), RChar quote]"

text \<open>The replacement templates \<^verbatim>\<open>($1 op '$2')\<close> and \<^verbatim>\<open>not ($1 op '$2')\<close>.\<close>

definition infix_template :: "string \<Rightarrow> string \<Rightarrow> string \<Rightarrow> captures \<Rightarrow> string" where
  "infix_template pre op s c =
     pre @ ''('' @ group_text s c 1 @ '' '' @ op @ '' '' @ [quote] @ group_text s c 2 @ [quote] @ '')''"

definition inside_string :: "rx_found list \<Rightarrow> nat \<Rightarrow> nat \<Rightarrow> bool" where
  "inside_string ranges start end' \<longleftrightarrow> list_ex (\<lambda>(a, b, _). start \<ge> a \<and> end' \<le> b) ranges"

definition range_text :: "string \<Rightarrow> captures \<Rightarrow> string" where
  "range_text s c =
     (let field = group_text s c 1; lo = group_text s c 2; hi = group_text s c 3
      in ''('' @ field @ '' >= '' @ lo @ '' && '' @ field @ '' <= '' @ hi @ '')'')"

fun replace_ranges :: "string \<Rightarrow> rx_found list \<Rightarrow> nat \<Rightarrow> rx_found list \<Rightarrow> string" where
  "replace_ranges s lits lastEnd [] = drop lastEnd s"
| "replace_ranges s lits lastEnd ((start, end', c) # ms) =
     slice s lastEnd start
     @ (if inside_string lits start end' then slice s start end' else range_text s c)
     @ replace_ranges s lits end' ms"

definition replaceRangeOutsideStrings :: "string \<Rightarrow> string" where
  "replaceRangeOutsideStrings s =
     (let ms = find_all reRange s
      in if ms = [] then s else replace_ranges s (find_all reStringLit s) 0 ms)"

definition translateExpr :: "string \<Rightarrow> string" where
  "translateExpr s =
     (let s = replace_all reRegexMatch (infix_template [] ''matches'') s;
          s = replace_all reRegexNonMatch (infix_template ''not '' ''matches'') s;
          s = replace_all reContains (infix_template [] ''contains'') s;
          s = replace_all reSuffix (infix_template [] ''endsWith'') s;
          s = replace_all rePrefix (infix_template [] ''startsWith'') s
      in replaceRangeOutsideStrings s)"

section \<open>Compilation and preview\<close>

definition compileExpr :: "expr_lang \<Rightarrow> string \<Rightarrow> (expr_error, matcher) result" where
  "compileExpr L exprStr =
     (let translated = translateExpr exprStr
      in if trim_space translated = [] then Inl EmptyExpression
         else case xl_compile L translated of
                Some err \<Rightarrow> Inl (CompileFailed exprStr err)
              | None \<Rightarrow> Inr (ExprLangNode \<lparr>en_program = translated, en_errCount = 0,
                                        en_errAt = 0, en_warned = False\<rparr>))"

definition PreviewMatch ::
  "expr_lang \<Rightarrow> time \<Rightarrow> string \<Rightarrow> data_point \<Rightarrow> (expr_error, bool) result" where
  "PreviewMatch L now match p =
     (let trimmed = trim_space match
      in if trimmed = [] then Inl EmptyExpression
         else if equal_fold trimmed ''ALL'' then Inr True
         else case compileExpr L trimmed of
                Inl err \<Rightarrow> Inl err
              | Inr (ExprLangNode n) \<Rightarrow> fst (evalErr L now n p)
              | Inr AllNode \<Rightarrow> Inr (fst (matcher_eval L now AllNode p)))"

section \<open>Arithmetic\<close>

text \<open>\<^verbatim>\<open>math.IsNaN(f) || math.IsInf(f, 0)\<close>: the exponent field is all ones.\<close>

definition f64_not_finite :: "u64 \<Rightarrow> bool" where
  "f64_not_finite f \<longleftrightarrow> unat (drop_bit 52 f) mod 2048 = 2047"

datatype arith_error =
    ArithEmpty
  | ArithCompile string string
  | ArithEval string string
  | ArithNotFloat string go_value
  | ArithInvalid string u64

text \<open>\<open>cache\<close> is the set of expressions with a cached program (\<^verbatim>\<open>arithCache\<close>).\<close>

definition EvalArith ::
  "expr_lang \<Rightarrow> string \<Rightarrow> u64 \<Rightarrow> string set \<Rightarrow> (arith_error, u64) result \<times> string set" where
  "EvalArith L exprStr value cache =
     (if trim_space exprStr = [] then (Inl ArithEmpty, cache)
      else
        let compiled =
              (if exprStr \<in> cache then Inr cache
               else case xl_compile_arith L exprStr of
                      Some err \<Rightarrow> Inl (ArithCompile exprStr err)
                    | None \<Rightarrow> Inr (insert exprStr cache))
        in case compiled of
             Inl err \<Rightarrow> (Inl err, cache)
           | Inr cache' \<Rightarrow>
               (case xl_run L exprStr [(''value'', VFloat64 value)] of
                  Inl err \<Rightarrow> (Inl (ArithEval exprStr err), cache')
                | Inr (VFloat64 f) \<Rightarrow>
                    (if f64_not_finite f then (Inl (ArithInvalid exprStr f), cache')
                     else (Inr f, cache'))
                | Inr v \<Rightarrow> (Inl (ArithNotFloat exprStr v), cache')))"

section \<open>Properties\<close>

lemma eval_program [simp]: "en_program (snd (eval L now n p)) = en_program n"
  by (auto simp: eval_def recordError_def split: sum.splits go_value.splits)

lemma eval_evalErr:
  "fst (eval L now n p) = (fst (evalErr L now n p) = Inr True)
   \<and> snd (eval L now n p) = snd (evalErr L now n p)"
  by (simp add: eval_def evalErr_def split: sum.splits go_value.splits)

lemma eval_count:
  "en_errCount (snd (eval L now n p)) =
     en_errCount n + (case fst (evalErr L now n p) of Inl (EvalFailed _) \<Rightarrow> 1 | _ \<Rightarrow> 0)"
  by (simp add: eval_def evalErr_def recordError_def split: sum.splits go_value.splits)

text \<open>
  The preview of a match expression tells the truth about the rule: for an expression that
  is not the literal ALL and that compiles, the compiled rule matches the point exactly when the
  preview answers true, and the rule's evaluation-error counter grows exactly when the preview
  reports an evaluation error (so a type-mismatched rule is never a silent ``not matched'').
\<close>

theorem preview_agrees_with_rule:
  assumes "trim_space m = m" and "\<not> equal_fold m ''ALL''"
    and "compileExpr L m = Inr (ExprLangNode n)"
  shows "PreviewMatch L now m p = fst (evalErr L now n p)
    \<and> (fst (eval L now n p) \<longleftrightarrow> PreviewMatch L now m p = Inr True)
    \<and> (en_errCount (snd (eval L now n p)) = en_errCount n + 1
        \<longleftrightarrow> (\<exists>e. PreviewMatch L now m p = Inl (EvalFailed e)))"
proof -
  have "m \<noteq> []"
    using assms(3) by (auto simp: compileExpr_def Let_def translateExpr_def replace_all_def find_all_def
        replaceRangeOutsideStrings_def trim_space_def)
  with assms have "PreviewMatch L now m p = fst (evalErr L now n p)"
    by (simp add: PreviewMatch_def Let_def)
  then show ?thesis
    using eval_evalErr [of L now n p] eval_count [of L now n p]
    by (auto split: sum.splits expr_error.splits)
qed

text \<open>
  A transform result is always a finite float: whatever the expression library computes,
  \<^verbatim>\<open>EvalArith\<close> returns a value only if it is neither NaN nor infinite; and the program cache is
  transparent: as long as it holds only expressions that compile, a call gives the same result
  with any cache, and keeps the cache in that state.
\<close>

theorem eval_arith_finite_and_cached:
  assumes "\<forall>e \<in> cache. xl_compile_arith L e = None"
  shows "fst (EvalArith L e v cache) = fst (EvalArith L e v {})
    \<and> (\<forall>e' \<in> snd (EvalArith L e v cache). xl_compile_arith L e' = None)
    \<and> (\<forall>f. fst (EvalArith L e v cache) = Inr f \<longrightarrow> \<not> f64_not_finite f)"
  using assms
  by (auto simp: EvalArith_def Let_def split: option.splits sum.splits go_value.splits if_splits)

definition demo_lang :: expr_lang where
  "demo_lang = \<lparr>xl_compile = (\<lambda>_. None),
     xl_run = (\<lambda>prog env. case map_of env ''value'' of Some v \<Rightarrow> Inr v | None \<Rightarrow> Inl ''undefined''),
     xl_compile_arith = (\<lambda>_. None)\<rparr>"

definition demo_point :: "go_value \<Rightarrow> data_point" where
  "demo_point v = \<lparr>dp_driver = ''plc'', dp_device = [], dp_group = [], dp_tag = ''t'', dp_value = v,
     dp_type = TypeBool, dp_quality = QualityGood, dp_timestamp = 0, dp_metadata = [],
     dp_is_stale = False\<rparr>"

theorem preview_agrees_with_rule_witness:
  "trim_space ''value'' = ''value'' \<and> \<not> equal_fold ''value'' ''ALL''
   \<and> PreviewMatch demo_lang 5 ''value'' (demo_point (VBool True)) = Inr True"
proof -
  let ?n = "\<lparr>en_program = ''value'', en_errCount = 0, en_errAt = 0, en_warned = False\<rparr> :: expr_node"
  have 1: "trim_space ''value'' = ''value''" by code_simp
  have 2: "\<not> equal_fold ''value'' ''ALL''" by code_simp
  have "translateExpr ''value'' = ''value''" by code_simp
  then have 3: "compileExpr demo_lang ''value'' = Inr (ExprLangNode ?n)"
    using 1 by (simp add: compileExpr_def demo_lang_def)
  from preview_agrees_with_rule [OF 1 2 3, of 5 "demo_point (VBool True)"] 1 2 show ?thesis
    by (simp add: evalErr_def demo_lang_def demo_point_def pointEnv_def)
qed

theorem eval_arith_finite_and_cached_witness:
  "fst (EvalArith demo_lang ''value'' 0 {''value''}) = Inr 0
   \<and> fst (EvalArith demo_lang ''value'' 0x7FF0000000000000 {}) = Inl (ArithInvalid ''value'' 0x7FF0000000000000)"
proof -
  have c: "\<forall>e \<in> {''value''}. xl_compile_arith demo_lang e = None" by (simp add: demo_lang_def)
  have t: "trim_space ''value'' = ''value''" by code_simp
  have "fst (EvalArith demo_lang ''value'' 0 {}) = Inr 0"
    by (simp add: EvalArith_def t demo_lang_def f64_not_finite_def)
  moreover have "f64_not_finite 0x7FF0000000000000" by code_simp
  then have "fst (EvalArith demo_lang ''value'' 0x7FF0000000000000 {}) = Inl (ArithInvalid ''value'' 0x7FF0000000000000)"
    by (simp add: EvalArith_def t demo_lang_def)
  ultimately show ?thesis using eval_arith_finite_and_cached [OF c, of "''value''" 0] by simp
qed

subsection \<open>Ranges inside string literals\<close>

fun spans_ok :: "nat \<Rightarrow> nat \<Rightarrow> rx_found list \<Rightarrow> bool" where
  "spans_ok i n [] \<longleftrightarrow> i \<le> n"
| "spans_ok i n ((a, b, _) # ms) \<longleftrightarrow> i \<le> a \<and> a \<le> b \<and> b \<le> n \<and> spans_ok b n ms"

lemma find_all_fuel_spans: "spans_ok i (i + length s) (find_all_fuel k r s i)"
proof (induction k arbitrary: s i)
  case 0
  then show ?case by simp
next
  case (Suc k)
  show ?case
  proof (cases "find_from r s i")
    case None
    then show ?thesis by simp
  next
    case (Some m)
    obtain a b c where m: "m = (a, b, c)" by (cases m)
    with Some have "i \<le> a \<and> a \<le> b \<and> b \<le> i + length s" by (simp add: find_from_bounds)
    moreover have "spans_ok b (b + length (drop (b - i) s)) (find_all_fuel k r (drop (b - i) s) b)"
      by (rule Suc.IH)
    ultimately show ?thesis using Some m by (auto simp: add.commute)
  qed
qed

lemma find_all_spans: "spans_ok 0 (length s) (find_all r s)"
  using find_all_fuel_spans [of 0 s "length s" r] by (simp add: find_all_def)

lemma slice_append_drop: "i \<le> a \<Longrightarrow> slice s i a @ drop a s = drop i s"
  by (simp add: slice_def) (metis append_take_drop_id drop_drop le_add_diff_inverse2)

lemma replace_ranges_inside:
  assumes "spans_ok i (length s) ms"
    and "\<forall>(a, b, c) \<in> set ms. inside_string lits a b"
  shows "replace_ranges s lits i ms = drop i s"
  using assms
proof (induction s lits i ms rule: replace_ranges.induct)
  case (1 s lits lastEnd)
  then show ?case by simp
next
  case (2 s lits lastEnd start end' c ms)
  then have "replace_ranges s lits end' ms = drop end' s" by auto
  with 2 show ?case by (simp add: slice_append_drop)
qed

text \<open>
  The range operator never rewrites quoted text: if every place where \<^verbatim>\<open>x in a..b\<close>
  occurs in an expression lies within a single-quoted literal, the range translation returns the
  expression unchanged.
\<close>

theorem range_translation_respects_strings:
  assumes "\<forall>(a, b, c) \<in> set (find_all reRange s). inside_string (find_all reStringLit s) a b"
  shows "replaceRangeOutsideStrings s = s"
  using replace_ranges_inside [OF find_all_spans assms]
  by (simp add: replaceRangeOutsideStrings_def Let_def)

theorem range_translation_respects_strings_witness:
  "find_all reRange [quote, CHR ''a'', CHR '' '', CHR ''i'', CHR ''n'', CHR '' '', CHR ''1'', CHR ''.'',
      CHR ''.'', CHR ''2'', quote] \<noteq> []
   \<and> replaceRangeOutsideStrings [quote, CHR ''a'', CHR '' '', CHR ''i'', CHR ''n'', CHR '' '', CHR ''1'',
      CHR ''.'', CHR ''.'', CHR ''2'', quote]
     = [quote, CHR ''a'', CHR '' '', CHR ''i'', CHR ''n'', CHR '' '', CHR ''1'', CHR ''.'', CHR ''.'', CHR ''2'', quote]"
proof -
  let ?s = "[quote, CHR ''a'', CHR '' '', CHR ''i'', CHR ''n'', CHR '' '', CHR ''1'', CHR ''.'', CHR ''.'', CHR ''2'', quote]"
  have n: "find_all reRange ?s \<noteq> []" by code_simp
  have "list_all (\<lambda>(a, b, c). inside_string (find_all reStringLit ?s) a b) (find_all reRange ?s)"
    by code_simp
  then have "\<forall>(a, b, c) \<in> set (find_all reRange ?s). inside_string (find_all reStringLit ?s) a b"
    by (simp add: list_all_iff)
  from range_translation_respects_strings [OF this] n show ?thesis by simp
qed

text \<open>
  The other operators are translated by a plain textual replacement that does not look at string
  literals: an equality test with a literal that ends in \<^verbatim>\<open>=~\<close> swallows the closing quote, and
  the text of the literal changes.
\<close>

definition swallowed_expr :: string where
  "swallowed_expr = ''tag == '' @ [quote] @ ''a =~ '' @ [quote] @ '' && group == '' @ [quote] @ ''b'' @ [quote]"

lemma regex_translation_ignores_strings:
  "translateExpr swallowed_expr =
     ''tag == '' @ [quote] @ ''(a matches '' @ [quote] @ '' && group == '' @ [quote] @ '')b'' @ [quote]"
  by code_simp

end
