(* ===== verification/Rule_Engine.thy ===== *)
theory Rule_Engine
  imports Rule_Expr
begin

text \<open>
  The rule engine, \<^verbatim>\<open>rule/\<close>: building rules from configuration (\<^verbatim>\<open>rule_build.go\<close>), the
  statistics wrapper (\<^verbatim>\<open>wrapper.go\<close>), file providers (\<^verbatim>\<open>provider.go\<close>), and matching with the
  driver index (\<^verbatim>\<open>engine.go\<close>, \<^verbatim>\<open>rule_match.go\<close>).

  The wrapped rules of an engine are shared by \<^verbatim>\<open>rules\<close>, the driver index and the universal
  list, and their counters are mutated through any of them. The model keeps the wrappers once, in
  build order, and the three Go slices are lists of positions (a wrapper's position is its
  \<^verbatim>\<open>seq\<close>). Providers and sub-rule engines are shared by reference as well: the heap \<open>rule_world\<close>
  holds them, and rules and engines hold their addresses. All clock readings of one call are the
  argument \<open>now\<close>.
\<close>

section \<open>Configuration and rules\<close>

record transform_config =
  tf_expression :: string
  tf_tag_rename :: string

record rule_config =
  rc_name :: string
  rc_match :: string
  rc_action :: string
  rc_target :: string
  rc_targets :: "string list"
  rc_priority :: int
  rc_transform :: "transform_config option"
  rc_continue :: bool

text \<open>
  The three implementations of \<^verbatim>\<open>core.Rule\<close>: \<^verbatim>\<open>simpleRule\<close> with its compiled expression
  (absent for ALL) and driver filter, \<^verbatim>\<open>ruleSetRule\<close> with its provider, \<^verbatim>\<open>subRuleRef\<close> with its
  engine.
\<close>

datatype rule_kind =
    SimpleRule "matcher option" string
  | RuleSetRule nat string
  | SubRuleRef nat

record rule =
  r_name :: string
  r_matchExpr :: string
  r_action :: action
  r_target :: string
  r_targets :: "string list"
  r_priority :: int
  r_transform :: "transform_config option"
  r_continue :: bool
  r_kind :: rule_kind

datatype rule_error =
    UnknownAction string
  | ProviderNotFound string
  | SubRuleNotFound string
  | InvalidMatch string expr_error
  | CreateRule string rule_error
  | SubRuleGroup string rule_error
  | CircularSubRule "string list" string
  | RefNotFound string string
  | IndexOutOfRange int
  | RuleNotFound string

definition parseAction :: "string \<Rightarrow> (rule_error, action) result" where
  "parseAction s =
     (let l = to_lower s
      in if l = ''forward'' then Inr ActionForward
         else if l = ''drop'' then Inr ActionDrop
         else if l = ''alert'' then Inr ActionAlert
         else if l = ''transform'' then Inr ActionTransform
         else if l = ''mirror'' then Inr ActionMirror
         else Inl (UnknownAction s))"

fun actionToString :: "action \<Rightarrow> string" where
  "actionToString ActionForward = ''forward''"
| "actionToString ActionDrop = ''drop''"
| "actionToString ActionAlert = ''alert''"
| "actionToString ActionTransform = ''transform''"
| "actionToString ActionMirror = ''mirror''"

text \<open>\<^verbatim>\<open>(?i)^\s*driver\s*==\s*['"]([^'"]+)['"]\s*(?:&&|$)\<close>\<close>

definition is_quote :: "char \<Rightarrow> bool" where
  "is_quote c \<longleftrightarrow> c = quote \<or> c = CHR 0x22"

definition driverFilterRe :: rx where
  "driverFilterRe = RSeqs
     [rx_spaces, RLitFold ''driver'', rx_spaces, RLit ''=='', rx_spaces, RClass is_quote,
      RGroup 1 (RPlus (RClass (\<lambda>c. \<not> is_quote c))), RClass is_quote, rx_spaces,
      RAlt (RLit ''&&'') REnd]"

definition extractDriverFilter :: "string \<Rightarrow> string" where
  "extractDriverFilter m =
     (if equal_fold m ''ALL'' then []
      else case find_anchored driverFilterRe m of
             Some (_, _, c) \<Rightarrow> group_text m c 1
           | None \<Rightarrow> [])"

definition effective_targets :: "rule_config \<Rightarrow> string list" where
  "effective_targets cfg =
     (if rc_targets cfg = [] \<and> rc_target cfg \<noteq> [] then [rc_target cfg] else rc_targets cfg)"

definition newSimpleRule :: "expr_lang \<Rightarrow> rule_config \<Rightarrow> (rule_error, rule) result" where
  "newSimpleRule L cfg =
     (case parseAction (rc_action cfg) of
        Inl err \<Rightarrow> Inl err
      | Inr act \<Rightarrow>
          let mk = (\<lambda>m. \<lparr>r_name = rc_name cfg, r_matchExpr = rc_match cfg, r_action = act,
                     r_target = rc_target cfg, r_targets = effective_targets cfg,
                     r_priority = rc_priority cfg, r_transform = rc_transform cfg,
                     r_continue = rc_continue cfg,
                     r_kind = SimpleRule m (extractDriverFilter (rc_match cfg))\<rparr>)
          in if \<not> equal_fold (rc_match cfg) ''ALL''
             then case compileExpr L (rc_match cfg) of
                    Inl err \<Rightarrow> Inl (InvalidMatch (rc_match cfg) err)
                  | Inr node \<Rightarrow> Inr (mk (Some node))
             else Inr (mk None))"

definition newRuleSetRule :: "rule_config \<Rightarrow> nat \<Rightarrow> string \<Rightarrow> (rule_error, rule) result" where
  "newRuleSetRule cfg a provider_name =
     (case parseAction (rc_action cfg) of
        Inl err \<Rightarrow> Inl err
      | Inr act \<Rightarrow>
          Inr \<lparr>r_name = rc_name cfg, r_matchExpr = ''RULE-SET:'' @ provider_name, r_action = act,
               r_target = rc_target cfg, r_targets = effective_targets cfg,
               r_priority = rc_priority cfg, r_transform = None, r_continue = rc_continue cfg,
               r_kind = RuleSetRule a provider_name\<rparr>)"

definition newSubRuleRef :: "rule_config \<Rightarrow> nat \<Rightarrow> (rule_error, rule) result" where
  "newSubRuleRef cfg a =
     (case parseAction (rc_action cfg) of
        Inl err \<Rightarrow> Inl err
      | Inr act \<Rightarrow>
          Inr \<lparr>r_name = rc_name cfg, r_matchExpr = ''SUB-RULE:'' @ rc_name cfg, r_action = act,
               r_target = rc_target cfg, r_targets = effective_targets cfg,
               r_priority = rc_priority cfg, r_transform = None, r_continue = rc_continue cfg,
               r_kind = SubRuleRef a\<rparr>)"

text \<open>
  \<open>r_matchExpr\<close> of the last two is the text their \<^verbatim>\<open>Payload\<close> method returns. The tables map a
  name to the address of the provider (and its own name) or of the sub-rule engine.
\<close>

type_synonym provider_table = "(string \<times> nat) list"
type_synonym sub_table = "(string \<times> nat) list"

definition newRule ::
  "expr_lang \<Rightarrow> provider_table \<Rightarrow> sub_table \<Rightarrow> rule_config \<Rightarrow> (rule_error, rule) result" where
  "newRule L providers subEngines cfg =
     (let match = trim_space (rc_match cfg); upper = to_upper match
      in if has_prefix upper ''RULE-SET:'' then
           let name = drop (length ''RULE-SET:'') match
           in case map_of providers name of
                None \<Rightarrow> Inl (ProviderNotFound name)
              | Some p \<Rightarrow> newRuleSetRule cfg p name
         else if has_prefix upper ''SUB-RULE:'' then
           let name = drop (length ''SUB-RULE:'') match
           in case map_of subEngines name of
                None \<Rightarrow> Inl (SubRuleNotFound name)
              | Some sub \<Rightarrow> newSubRuleRef cfg sub
         else newSimpleRule L cfg)"

section \<open>Wrappers, providers, engines\<close>

record wrapper =
  w_rule :: rule
  w_seq :: nat
  w_disabled :: bool
  w_hitCount :: nat
  w_hitAt :: time
  w_missCount :: nat
  w_missAt :: time

definition newRuleWrapper :: "rule \<Rightarrow> wrapper" where
  "newRuleWrapper r = \<lparr>w_rule = r, w_seq = 0, w_disabled = False, w_hitCount = 0, w_hitAt = 0,
     w_missCount = 0, w_missAt = 0\<rparr>"

definition RecordMiss :: "time \<Rightarrow> wrapper \<Rightarrow> wrapper" where
  "RecordMiss now w =
     (if w_disabled w then w else w\<lparr>w_missCount := w_missCount w + 1, w_missAt := now\<rparr>)"

record file_provider =
  fp_name :: string
  fp_matchers :: "matcher list"
  fp_count :: nat
  fp_updated :: time
  fp_lastHash :: string

record engine =
  e_rules :: "wrapper list"
  e_driverIndex :: "(string \<times> nat list) list"
  e_universalRules :: "nat list"
  e_providers :: provider_table
  e_subEngines :: sub_table

record rule_world =
  rw_providers :: "file_provider list"
  rw_engines :: "engine list"

definition NewEngine :: engine where
  "NewEngine = \<lparr>e_rules = [], e_driverIndex = [], e_universalRules = [], e_providers = [],
     e_subEngines = []\<rparr>"

text \<open>
  \<^verbatim>\<open>FileProvider.load\<close>. The file is read by the operating system and parsed by the YAML
  library: \<open>content\<close> is the outcome of the read, \<open>yaml\<close> and \<open>sha\<close> are the library functions.
  A rule that does not compile is skipped; unchanged content leaves the provider alone.
\<close>

datatype load_error = ReadFailed | ParseFailed string

fun load_matchers :: "expr_lang \<Rightarrow> rule_config list \<Rightarrow> matcher list" where
  "load_matchers L [] = []"
| "load_matchers L (rc # rcs) =
     (let match = trim_space (rc_match rc)
      in if equal_fold match ''ALL'' then AllNode # load_matchers L rcs
         else case compileExpr L match of
                Inl _ \<Rightarrow> load_matchers L rcs
              | Inr node \<Rightarrow> node # load_matchers L rcs)"

definition load ::
  "expr_lang \<Rightarrow> (string \<Rightarrow> (string, rule_config list) result) \<Rightarrow> (string \<Rightarrow> string) \<Rightarrow> time \<Rightarrow>
   string option \<Rightarrow> file_provider \<Rightarrow> (load_error, file_provider) result" where
  "load L yaml sha now content p =
     (case content of
        None \<Rightarrow> Inl ReadFailed
      | Some data \<Rightarrow>
          if sha data = fp_lastHash p then Inr p
          else case yaml data of
                 Inl err \<Rightarrow> Inl (ParseFailed err)
               | Inr rules \<Rightarrow>
                   let ms = load_matchers L rules
                   in Inr (p\<lparr>fp_matchers := ms, fp_count := length ms, fp_updated := now,
                            fp_lastHash := sha data\<rparr>))"

text \<open>\<^verbatim>\<open>FileProvider.Match\<close>: the first matcher that accepts stops the loop.\<close>

fun any_match :: "expr_lang \<Rightarrow> time \<Rightarrow> data_point \<Rightarrow> matcher list \<Rightarrow> bool \<times> matcher list" where
  "any_match L now p [] = (False, [])"
| "any_match L now p (m # ms) =
     (let (ok, m') = matcher_eval L now m p
      in if ok then (True, m' # ms)
         else let (ok', ms') = any_match L now p ms in (ok', m' # ms'))"

definition provider_Match :: "expr_lang \<Rightarrow> time \<Rightarrow> data_point \<Rightarrow> file_provider \<Rightarrow> bool \<times> file_provider" where
  "provider_Match L now p fp =
     (let (ok, ms) = any_match L now p (fp_matchers fp) in (ok, fp\<lparr>fp_matchers := ms\<rparr>))"

section \<open>Matching\<close>

text \<open>
  \<^verbatim>\<open>Rule.Match\<close> is an interface method, so the engine is written over any implementation
  \<open>m\<close>: it takes the rule and a state and returns the verdict, the rule with its own counters
  updated, and the new state.
\<close>

type_synonym 's match_impl = "rule \<Rightarrow> data_point \<Rightarrow> 's \<Rightarrow> bool \<times> rule \<times> 's"

definition wrapper_Match ::
  "'s match_impl \<Rightarrow> time \<Rightarrow> data_point \<Rightarrow> wrapper \<Rightarrow> 's \<Rightarrow> bool \<times> wrapper \<times> 's" where
  "wrapper_Match m now p w s =
     (if w_disabled w then (False, w, s)
      else let (ok, r, s') = m (w_rule w) p s; w' = w\<lparr>w_rule := r\<rparr>
           in if ok then (True, w'\<lparr>w_hitCount := w_hitCount w + 1, w_hitAt := now\<rparr>, s')
              else (False, w'\<lparr>w_missCount := w_missCount w + 1, w_missAt := now\<rparr>, s'))"

record match_result =
  mr_ref :: nat
  mr_rule :: rule
  mr_targets :: "string list"
  mr_transform :: "transform_config option"

definition result_targets :: "rule \<Rightarrow> string list" where
  "result_targets r = (if r_targets r = [] \<and> r_target r \<noteq> [] then [r_target r] else r_targets r)"

definition mk_result :: "nat \<Rightarrow> rule \<Rightarrow> match_result" where
  "mk_result i r = \<lparr>mr_ref = i, mr_rule = r, mr_targets = result_targets r, mr_transform = r_transform r\<rparr>"

text \<open>\<^verbatim>\<open>tryMatch\<close> on the wrapper at position \<open>i\<close>.\<close>

definition tryMatch ::
  "'s match_impl \<Rightarrow> time \<Rightarrow> data_point \<Rightarrow> nat \<Rightarrow> wrapper list \<times> 's \<Rightarrow>
   match_result option \<times> wrapper list \<times> 's" where
  "tryMatch m now p i st =
     (let (ws, s) = st; (ok, w, s') = wrapper_Match m now p (ws ! i) s
      in (if ok then Some (mk_result i (w_rule w)) else None, ws[i := w], s'))"

fun matchInRules ::
  "'s match_impl \<Rightarrow> time \<Rightarrow> data_point \<Rightarrow> nat list \<Rightarrow> wrapper list \<times> 's \<Rightarrow>
   match_result list \<times> wrapper list \<times> 's" where
  "matchInRules m now p [] st = ([], st)"
| "matchInRules m now p (i # is) st =
     (case tryMatch m now p i st of
        (None, st') \<Rightarrow> matchInRules m now p is st'
      | (Some res, st') \<Rightarrow>
          if r_continue (mr_rule res)
          then (let (rest, st'') = matchInRules m now p is st' in (res # rest, st''))
          else ([res], st'))"

definition ref_priority :: "wrapper list \<Rightarrow> nat \<Rightarrow> int" where
  "ref_priority ws i = r_priority (w_rule (ws ! i))"

definition ref_seq :: "wrapper list \<Rightarrow> nat \<Rightarrow> nat" where
  "ref_seq ws i = w_seq (ws ! i)"

fun matchMerged ::
  "'s match_impl \<Rightarrow> time \<Rightarrow> data_point \<Rightarrow> nat list \<Rightarrow> nat list \<Rightarrow> wrapper list \<times> 's \<Rightarrow>
   match_result list \<times> wrapper list \<times> 's" where
  "matchMerged m now p (i # is) (j # js) st =
     (let pa = ref_priority (fst st) i; pb = ref_priority (fst st) j
      in if pa < pb \<or> pa = pb \<and> ref_seq (fst st) i \<le> ref_seq (fst st) j
         then (case tryMatch m now p i st of
                 (None, st') \<Rightarrow> matchMerged m now p is (j # js) st'
               | (Some res, st') \<Rightarrow>
                   if r_continue (mr_rule res)
                   then (let (rest, st'') = matchMerged m now p is (j # js) st' in (res # rest, st''))
                   else ([res], st'))
         else (case tryMatch m now p j st of
                 (None, st') \<Rightarrow> matchMerged m now p (i # is) js st'
               | (Some res, st') \<Rightarrow>
                   if r_continue (mr_rule res)
                   then (let (rest, st'') = matchMerged m now p (i # is) js st' in (res # rest, st''))
                   else ([res], st')))"
| "matchMerged m now p is [] st = matchInRules m now p is st"
| "matchMerged m now p [] js st = matchInRules m now p js st"

text \<open>The terminal match of a result list, if there is one.\<close>

definition terminal_ref :: "match_result list \<Rightarrow> nat option" where
  "terminal_ref res =
     (if res = [] then None
      else if r_continue (mr_rule (last res)) then None else Some (mr_ref (last res)))"

text \<open>The condition of the loop that records misses for rules scoped to other drivers.\<close>

definition reached_before :: "wrapper list \<Rightarrow> nat option \<Rightarrow> nat \<Rightarrow> bool" where
  "reached_before ws term i =
     (case term of
        None \<Rightarrow> True
      | Some t \<Rightarrow> \<not> (ref_priority ws i > ref_priority ws t)
               \<and> \<not> (ref_priority ws i = ref_priority ws t \<and> ref_seq ws i \<ge> ref_seq ws t))"

definition record_misses :: "time \<Rightarrow> nat list \<Rightarrow> wrapper list \<Rightarrow> wrapper list" where
  "record_misses now is ws = fold (\<lambda>i ws. ws[i := RecordMiss now (ws ! i)]) is ws"

definition other_driver_refs :: "(string \<times> nat list) list \<Rightarrow> string \<Rightarrow> nat list" where
  "other_driver_refs idx d = concat (map snd (filter (\<lambda>(d', _). d' \<noteq> d) idx))"

definition Match ::
  "'s match_impl \<Rightarrow> time \<Rightarrow> data_point \<Rightarrow> engine \<Rightarrow> 's \<Rightarrow> match_result list \<times> engine \<times> 's" where
  "Match m now p e s =
     (let driverRules = (case map_of (e_driverIndex e) (dp_driver p) of Some is \<Rightarrow> is | None \<Rightarrow> [])
      in if e_driverIndex e = []
         then (let (res, ws, s') = matchInRules m now p [0..<length (e_rules e)] (e_rules e, s)
               in (res, e\<lparr>e_rules := ws\<rparr>, s'))
         else (let (res, ws, s') = matchMerged m now p (e_universalRules e) driverRules (e_rules e, s);
                   missed = filter (reached_before ws (terminal_ref res))
                              (other_driver_refs (e_driverIndex e) (dp_driver p))
               in (res, e\<lparr>e_rules := record_misses now missed ws\<rparr>, s')))"

text \<open>
  The implementations of \<^verbatim>\<open>Rule.Match\<close>. \<open>leaf_Match\<close> is what a rule of a sub-rule engine
  can be (\<^verbatim>\<open>simpleRule\<close>, \<^verbatim>\<open>ruleSetRule\<close>); \<open>rule_Match\<close> adds \<^verbatim>\<open>subRuleRef\<close>, which runs the
  engine it points to. That no sub-rule engine contains a \<^verbatim>\<open>subRuleRef\<close> is proved below.
\<close>

fun leaf_Match :: "expr_lang \<Rightarrow> time \<Rightarrow> rule_world match_impl" where
  "leaf_Match L now r p wld =
     (case r_kind r of
        SimpleRule node flt \<Rightarrow>
          if equal_fold (r_matchExpr r) ''ALL'' then (True, r, wld)
          else (case node of
                  None \<Rightarrow> (False, r, wld)
                | Some n \<Rightarrow> let (ok, n') = matcher_eval L now n p
                           in (ok, r\<lparr>r_kind := SimpleRule (Some n') flt\<rparr>, wld))
      | RuleSetRule a _ \<Rightarrow>
          let (ok, fp) = provider_Match L now p (rw_providers wld ! a)
          in (ok, r, wld\<lparr>rw_providers := (rw_providers wld)[a := fp]\<rparr>)
      | SubRuleRef _ \<Rightarrow> (False, r, wld))"

definition rule_Match :: "expr_lang \<Rightarrow> time \<Rightarrow> rule_world match_impl" where
  "rule_Match L now r p wld =
     (case r_kind r of
        SubRuleRef a \<Rightarrow>
          let (res, e, wld') = Match (leaf_Match L now) now p (rw_engines wld ! a) wld
          in (res \<noteq> [], r, wld'\<lparr>rw_engines := (rw_engines wld')[a := e]\<rparr>)
      | _ \<Rightarrow> leaf_Match L now r p wld)"

section \<open>Management operations\<close>

fun new_rules ::
  "expr_lang \<Rightarrow> provider_table \<Rightarrow> sub_table \<Rightarrow> rule_config list \<Rightarrow> (rule_error, rule list) result" where
  "new_rules L ps subs [] = Inr []"
| "new_rules L ps subs (cfg # cfgs) =
     (case newRule L ps subs cfg of
        Inl err \<Rightarrow> Inl (CreateRule (rc_name cfg) err)
      | Inr r \<Rightarrow> (case new_rules L ps subs cfgs of Inl err \<Rightarrow> Inl err | Inr rs \<Rightarrow> Inr (r # rs)))"

definition wrap_rules :: "rule list \<Rightarrow> wrapper list" where
  "wrap_rules rs = map (\<lambda>(i, r). (newRuleWrapper r)\<lparr>w_seq := i\<rparr>) (enumerate 0 rs)"

definition DriverFilter :: "rule \<Rightarrow> string" where
  "DriverFilter r = (case r_kind r of SimpleRule _ f \<Rightarrow> f | _ \<Rightarrow> [])"

fun add_to_bucket :: "string \<Rightarrow> nat \<Rightarrow> (string \<times> nat list) list \<Rightarrow> (string \<times> nat list) list" where
  "add_to_bucket d i [] = [(d, [i])]"
| "add_to_bucket d i ((d', is) # idx) =
     (if d' = d then (d', is @ [i]) # idx else (d', is) # add_to_bucket d i idx)"

definition index_one ::
  "nat \<times> wrapper \<Rightarrow> (string \<times> nat list) list \<times> nat list \<Rightarrow> (string \<times> nat list) list \<times> nat list" where
  "index_one iw st =
     (case (iw, st) of ((i, w), (idx, uni)) \<Rightarrow>
        let df = DriverFilter (w_rule w)
        in if df \<noteq> [] then (add_to_bucket df i idx, uni) else (idx, uni @ [i]))"

definition SetRules :: "expr_lang \<Rightarrow> rule_config list \<Rightarrow> engine \<Rightarrow> (rule_error, engine) result" where
  "SetRules L configs e =
     (case new_rules L (e_providers e) (e_subEngines e) configs of
        Inl err \<Rightarrow> Inl err
      | Inr rules \<Rightarrow>
          let wrapped = wrap_rules (sort_key r_priority rules);
              (idx, uni) = fold index_one (enumerate 0 wrapped) ([], [])
          in Inr (e\<lparr>e_rules := wrapped, e_driverIndex := idx, e_universalRules := uni\<rparr>))"

definition SetRuleDisabled :: "int \<Rightarrow> bool \<Rightarrow> engine \<Rightarrow> (rule_error, engine) result" where
  "SetRuleDisabled index disabled e =
     (if index < 0 \<or> index \<ge> int (length (e_rules e)) then Inl (IndexOutOfRange index)
      else Inr (e\<lparr>e_rules := (e_rules e)[nat index := (e_rules e ! nat index)\<lparr>w_disabled := disabled\<rparr>]\<rparr>))"

fun disable_named :: "string \<Rightarrow> bool \<Rightarrow> wrapper list \<Rightarrow> wrapper list option" where
  "disable_named n v [] = None"
| "disable_named n v (w # ws) =
     (if r_name (w_rule w) = n then Some (w\<lparr>w_disabled := v\<rparr> # ws)
      else map_option ((#) w) (disable_named n v ws))"

definition SetRuleDisabledByName :: "string \<Rightarrow> bool \<Rightarrow> engine \<Rightarrow> (rule_error, engine) result" where
  "SetRuleDisabledByName n v e =
     (case disable_named n v (e_rules e) of
        None \<Rightarrow> Inl (RuleNotFound n)
      | Some ws \<Rightarrow> Inr (e\<lparr>e_rules := ws\<rparr>))"

definition AddProvider :: "file_provider \<Rightarrow> engine \<Rightarrow> rule_world \<Rightarrow> engine \<times> rule_world" where
  "AddProvider fp e wld =
     (e\<lparr>e_providers := (fp_name fp, length (rw_providers wld)) # filter (\<lambda>(n, _). n \<noteq> fp_name fp) (e_providers e)\<rparr>,
      wld\<lparr>rw_providers := rw_providers wld @ [fp]\<rparr>)"

definition CloseProviders :: "engine \<Rightarrow> engine" where
  "CloseProviders e = e\<lparr>e_providers := []\<rparr>"

definition ProviderCount :: "engine \<Rightarrow> nat" where
  "ProviderCount e = length (e_providers e)"

record rule_stat =
  rs_index :: nat
  rs_name :: string
  rs_type :: string
  rs_match :: string
  rs_action :: string
  rs_target :: string
  rs_targets :: "string list"
  rs_priority :: int
  rs_continue :: bool
  rs_disabled :: bool
  rs_hitCount :: nat
  rs_hitAt :: time
  rs_missCount :: nat
  rs_missAt :: time
  rs_evalErrors :: nat
  rs_evalAt :: time

definition RuleType :: "rule \<Rightarrow> string" where
  "RuleType r = (case r_kind r of SimpleRule _ _ \<Rightarrow> ''simple'' | RuleSetRule _ _ \<Rightarrow> ''rule-set''
     | SubRuleRef _ \<Rightarrow> ''sub-rule'')"

definition EvalErrors :: "rule \<Rightarrow> nat \<times> time" where
  "EvalErrors r =
     (case r_kind r of SimpleRule (Some n) _ \<Rightarrow> matcher_evalErrors n | _ \<Rightarrow> (0, 0))"

definition rule_stat_of :: "nat \<times> wrapper \<Rightarrow> rule_stat" where
  "rule_stat_of iw =
     (case iw of (i, w) \<Rightarrow>
        let inner = w_rule w
        in \<lparr>rs_index = i, rs_name = r_name inner, rs_type = RuleType inner, rs_match = r_matchExpr inner,
            rs_action = actionToString (r_action inner), rs_target = r_target inner,
            rs_targets = r_targets inner, rs_priority = r_priority inner, rs_continue = r_continue inner,
            rs_disabled = w_disabled w, rs_hitCount = w_hitCount w, rs_hitAt = w_hitAt w,
            rs_missCount = w_missCount w, rs_missAt = w_missAt w,
            rs_evalErrors = fst (EvalErrors inner), rs_evalAt = snd (EvalErrors inner)\<rparr>)"

definition RuleStats :: "engine \<Rightarrow> rule_stat list" where
  "RuleStats e = map rule_stat_of (enumerate 0 (e_rules e))"

section \<open>Sub-rule groups\<close>

type_synonym rule_groups = "(string \<times> rule_config list) list"

definition extractSubRuleRef :: "string \<Rightarrow> string" where
  "extractSubRuleRef match =
     (let m = trim_space match
      in if has_prefix (to_upper m) ''SUB-RULE:'' then drop (length ''SUB-RULE:'') m else [])"

definition group_rules :: "rule_groups \<Rightarrow> string \<Rightarrow> rule_config list" where
  "group_rules groups name = (case map_of groups name of Some rcs \<Rightarrow> rcs | None \<Rightarrow> [])"

definition open_names :: "rule_groups \<Rightarrow> string list \<Rightarrow> nat" where
  "open_names groups chain = card (fst ` set groups - set chain)"

lemma open_names_step:
  "name \<notin> set chain \<Longrightarrow> group_rules groups name \<noteq> [] \<Longrightarrow>
   open_names groups (chain @ [name]) < open_names groups chain"
proof -
  assume "name \<notin> set chain" and "group_rules groups name \<noteq> []"
  then have "name \<in> fst ` set groups - set chain"
    by (force simp: group_rules_def split: option.splits dest: map_of_SomeD)
  then have "fst ` set groups - set (chain @ [name]) \<subset> fst ` set groups - set chain" by auto
  then show ?thesis unfolding open_names_def by (rule psubset_card_mono [rotated]) simp
qed

lemma open_names_mono: "open_names groups (chain @ [name]) \<le> open_names groups chain"
  unfolding open_names_def by (rule card_mono) auto

function (sequential) checkCircular :: "rule_groups \<Rightarrow> string \<Rightarrow> string list \<Rightarrow> rule_error option"
  and checkRefs :: "rule_groups \<Rightarrow> rule_config list \<Rightarrow> string list \<Rightarrow> rule_error option" where
  "checkCircular groups name chain =
     (if name \<in> set chain then Some (CircularSubRule chain name)
      else checkRefs groups (group_rules groups name) (chain @ [name]))"
| "checkRefs groups [] chain = None"
| "checkRefs groups (rc # rcs) chain =
     (let ref = extractSubRuleRef (rc_match rc)
      in if ref = [] then checkRefs groups rcs chain
         else if map_of groups ref = None then Some (RefNotFound ref (rc_name rc))
         else case checkCircular groups ref chain of
                Some err \<Rightarrow> Some err
              | None \<Rightarrow> checkRefs groups rcs chain)"
  by pat_completeness auto

termination
proof (relation "measures
    [\<lambda>x. case x of Inl (g, n, c) \<Rightarrow> open_names g c | Inr (g, rcs, c) \<Rightarrow> open_names g c,
     \<lambda>x. case x of Inl (g, n, c) \<Rightarrow> 1 | Inr (g, rcs, c) \<Rightarrow> 2 * length rcs]", goal_cases)
  case (2 groups name chain)
  show ?case
  proof (cases "group_rules groups name = []")
    case True
    then show ?thesis using open_names_mono [of groups chain name] by (simp add: le_less)
  next
    case False
    then show ?thesis using open_names_step [OF 2] by simp
  qed
qed auto

declare checkCircular.simps [simp del]

fun first_error :: "('a \<Rightarrow> 'e option) \<Rightarrow> 'a list \<Rightarrow> 'e option" where
  "first_error f [] = None"
| "first_error f (x # xs) = (case f x of Some e \<Rightarrow> Some e | None \<Rightarrow> first_error f xs)"

definition detectCircularSubRules :: "rule_groups \<Rightarrow> rule_error option" where
  "detectCircularSubRules groups =
     first_error (\<lambda>name. checkCircular groups name []) (map fst groups)"

text \<open>
  \<open>build_subs\<close> is the loop of \<^verbatim>\<open>SetSubRules\<close>: a fresh engine per group, with the parent's
  providers and no sub-rule engines of its own; \<open>heap\<close> is where the engines are allocated.
\<close>

fun build_subs ::
  "expr_lang \<Rightarrow> provider_table \<Rightarrow> rule_groups \<Rightarrow> engine list \<Rightarrow> (rule_error, sub_table \<times> engine list) result" where
  "build_subs L ps [] heap = Inr ([], heap)"
| "build_subs L ps ((name, configs) # groups) heap =
     (case SetRules L configs (NewEngine\<lparr>e_providers := ps\<rparr>) of
        Inl err \<Rightarrow> Inl (SubRuleGroup name err)
      | Inr sub \<Rightarrow>
          (case build_subs L ps groups (heap @ [sub]) of
             Inl err \<Rightarrow> Inl err
           | Inr (tbl, heap') \<Rightarrow> Inr ((name, length heap) # tbl, heap')))"

definition SetSubRules ::
  "expr_lang \<Rightarrow> rule_groups \<Rightarrow> engine \<Rightarrow> rule_world \<Rightarrow> (rule_error, engine \<times> rule_world) result" where
  "SetSubRules L groups e wld =
     (case build_subs L (e_providers e) groups (rw_engines wld) of
        Inl err \<Rightarrow> Inl err
      | Inr (tbl, heap) \<Rightarrow>
          (case detectCircularSubRules groups of
             Some err \<Rightarrow> Inl err
           | None \<Rightarrow> Inr (e\<lparr>e_subEngines := tbl\<rparr>, wld\<lparr>rw_engines := heap\<rparr>)))"

end
