(* ===== verification/Rule_Match.thy ===== *)
theory Rule_Match
  imports Rule_Engine
begin

text \<open>
  Correctness of matching. The interface between the engine and the implementations of
  \<^verbatim>\<open>core.Rule\<close> is the locale \<open>rule_interface\<close>: evaluating a rule may update its counters and the
  shared state but not its configuration. Inside it the driver-index matcher of \<^verbatim>\<open>Match\<close> is proved
  equal, in results and in statistics, to the linear scan it optimises.
\<close>

section \<open>The interface\<close>

text \<open>The configuration of a rule: everything but its own counters.\<close>

definition same_config :: "rule \<Rightarrow> rule \<Rightarrow> bool" where
  "same_config r r' \<longleftrightarrow>
     r_name r = r_name r' \<and> r_matchExpr r = r_matchExpr r' \<and> r_action r = r_action r'
   \<and> r_target r = r_target r' \<and> r_targets r = r_targets r' \<and> r_priority r = r_priority r'
   \<and> r_transform r = r_transform r' \<and> r_continue r = r_continue r' \<and> DriverFilter r = DriverFilter r'"

lemma same_config_refl [simp]: "same_config r r"
  by (simp add: same_config_def)

definition same_wrapper :: "wrapper \<Rightarrow> wrapper \<Rightarrow> bool" where
  "same_wrapper w w' \<longleftrightarrow>
     same_config (w_rule w) (w_rule w') \<and> w_seq w = w_seq w' \<and> w_disabled w = w_disabled w'"

definition same_wrappers :: "wrapper list \<Rightarrow> wrapper list \<Rightarrow> bool" where
  "same_wrappers ws ws' \<longleftrightarrow> list_all2 same_wrapper ws ws'"

lemma same_wrapper_refl [simp]: "same_wrapper w w"
  by (simp add: same_wrapper_def)

lemma same_wrapper_trans: "same_wrapper a b \<Longrightarrow> same_wrapper b c \<Longrightarrow> same_wrapper a c"
  by (auto simp: same_wrapper_def same_config_def)

lemma same_wrappers_refl [simp]: "same_wrappers ws ws"
  by (simp add: same_wrappers_def list_all2_refl)

lemma same_wrappers_trans: "same_wrappers a b \<Longrightarrow> same_wrappers b c \<Longrightarrow> same_wrappers a c"
  unfolding same_wrappers_def by (rule list_all2_trans) (rule same_wrapper_trans)

lemma same_wrappers_length: "same_wrappers ws ws' \<Longrightarrow> length ws' = length ws"
  by (simp add: same_wrappers_def list_all2_lengthD)

lemma same_wrappers_update:
  "i < length ws \<Longrightarrow> same_wrapper (ws ! i) w \<Longrightarrow> same_wrappers ws (ws[i := w])"
  by (auto simp: same_wrappers_def list_all2_conv_all_nth nth_list_update)

lemma same_wrappers_nth: "same_wrappers ws ws' \<Longrightarrow> i < length ws \<Longrightarrow> same_wrapper (ws ! i) (ws' ! i)"
  by (simp add: same_wrappers_def list_all2_nthD)

lemma same_wrapper_RecordMiss [simp]: "same_wrapper w (RecordMiss now w)"
  by (simp add: RecordMiss_def same_wrapper_def)

lemma ref_key_same:
  "same_wrappers ws ws' \<Longrightarrow> i < length ws \<Longrightarrow>
   ref_priority ws' i = ref_priority ws i \<and> ref_seq ws' i = ref_seq ws i"
  using same_wrappers_nth [of ws ws' i]
  by (simp add: ref_priority_def ref_seq_def same_wrapper_def same_config_def)

text \<open>
  The wrappers of an engine are in evaluation order: sorted by priority, and \<^verbatim>\<open>seq\<close> is the
  position.
\<close>

definition ordered :: "wrapper list \<Rightarrow> bool" where
  "ordered ws \<longleftrightarrow> sorted (map (\<lambda>w. r_priority (w_rule w)) ws) \<and> (\<forall>i < length ws. w_seq (ws ! i) = i)"

lemma ordered_same: "same_wrappers ws ws' \<Longrightarrow> ordered ws \<Longrightarrow> ordered ws'"
proof -
  assume s: "same_wrappers ws ws'" and o: "ordered ws"
  have "map (\<lambda>w. r_priority (w_rule w)) ws' = map (\<lambda>w. r_priority (w_rule w)) ws"
    using s same_wrappers_nth [OF s]
    by (auto intro!: nth_equalityI simp: same_wrappers_length same_wrapper_def same_config_def)
  moreover have "w_seq (ws' ! i) = i" if "i < length ws'" for i
    using s o that by (auto simp: ordered_def same_wrapper_def same_wrappers_length dest: same_wrappers_nth)
  ultimately show ?thesis using o by (simp add: ordered_def)
qed

text \<open>On ordered wrappers the comparison of the merge is the comparison of positions.\<close>

lemma ordered_key_less:
  assumes "ordered ws" and "i < length ws" and "j < length ws"
  shows "(ref_priority ws i < ref_priority ws j
          \<or> ref_priority ws i = ref_priority ws j \<and> ref_seq ws i \<le> ref_seq ws j) \<longleftrightarrow> i \<le> j"
proof -
  have "ref_priority ws a \<le> ref_priority ws b" if "a \<le> b" "b < length ws" for a b
    using assms(1) that by (simp add: ordered_def ref_priority_def sorted_iff_nth_mono)
  moreover have "ref_seq ws i = i" "ref_seq ws j = j"
    using assms by (auto simp: ordered_def ref_seq_def)
  ultimately show ?thesis using assms(2,3) by (metis linorder_not_le nle_le order_less_imp_le)
qed

text \<open>The merge of two position lists, and the misses recorded for a list of positions.\<close>

fun merge_refs :: "nat list \<Rightarrow> nat list \<Rightarrow> nat list" where
  "merge_refs (i # is) (j # js) =
     (if i \<le> j then i # merge_refs is (j # js) else j # merge_refs (i # is) js)"
| "merge_refs is [] = is"
| "merge_refs [] js = js"

lemma merge_refs_Nil [simp]: "merge_refs [] js = js"
  by (cases js) simp_all

lemma merge_refs_filter:
  assumes "sorted xs" and "distinct xs" and "\<forall>x \<in> set xs. \<not> (A x \<and> B x)"
  shows "merge_refs (filter A xs) (filter B xs) = filter (\<lambda>x. A x \<or> B x) xs"
  using assms
proof (induction xs)
  case Nil
  then show ?case by simp
next
  case (Cons x xs)
  then have IH: "merge_refs (filter A xs) (filter B xs) = filter (\<lambda>x. A x \<or> B x) xs"
    and le: "\<forall>y \<in> set xs. x < y" by (auto simp: order.strict_iff_order)
  have lB: "\<forall>y \<in> set (filter B xs). x < y" and lA: "\<forall>y \<in> set (filter A xs). x < y"
    using le by auto
  consider "A x" "\<not> B x" | "\<not> A x" "B x" | "\<not> A x" "\<not> B x" using Cons.prems(3) by auto
  then show ?case
  proof cases
    case 1
    then show ?thesis using IH lB by (cases "filter B xs") auto
  next
    case 2
    then show ?thesis using IH lA by (cases "filter A xs") auto
  next
    case 3
    then show ?thesis using IH by simp
  qed
qed

definition miss_at :: "time \<Rightarrow> nat \<Rightarrow> wrapper list \<Rightarrow> wrapper list" where
  "miss_at now i ws = ws[i := RecordMiss now (ws ! i)]"

lemma record_misses_Nil [simp]: "record_misses now [] ws = ws"
  by (simp add: record_misses_def)

lemma record_misses_Cons: "record_misses now (i # is) ws = record_misses now is (miss_at now i ws)"
  by (simp add: record_misses_def miss_at_def)

lemma length_record_misses [simp]: "length (record_misses now is ws) = length ws"
  by (induction "is" arbitrary: ws) (simp_all add: record_misses_Cons miss_at_def)

lemma record_misses_nth:
  "distinct is \<Longrightarrow> k < length ws \<Longrightarrow>
   record_misses now is ws ! k = (if k \<in> set is then RecordMiss now (ws ! k) else ws ! k)"
  by (induction "is" arbitrary: ws)
    (simp_all add: record_misses_Cons miss_at_def nth_list_update, metis nth_list_update_neq)

lemma record_misses_cong:
  "distinct is \<Longrightarrow> distinct js \<Longrightarrow> set is = set js \<Longrightarrow> record_misses now is ws = record_misses now js ws"
  by (auto intro!: nth_equalityI simp: record_misses_nth)

definition up_to_terminal :: "match_result list \<Rightarrow> nat list \<Rightarrow> nat list" where
  "up_to_terminal res is = (case terminal_ref res of None \<Rightarrow> is | Some t \<Rightarrow> takeWhile (\<lambda>i. i \<noteq> t) is)"

lemma up_to_terminal_Cons:
  "terminal_ref res \<noteq> Some i \<Longrightarrow> up_to_terminal res (i # is) = i # up_to_terminal res is"
  by (auto simp: up_to_terminal_def split: option.splits)

text \<open>
  The index of an engine: the universal list and the buckets partition the positions by driver
  filter, each in position order.
\<close>

definition filter_at :: "wrapper list \<Rightarrow> nat \<Rightarrow> string" where
  "filter_at ws i = DriverFilter (w_rule (ws ! i))"

definition bucket :: "wrapper list \<Rightarrow> nat \<Rightarrow> string \<Rightarrow> nat list" where
  "bucket ws n d = filter (\<lambda>i. filter_at ws i = d) [0..<n]"

definition indexed :: "wrapper list \<Rightarrow> nat \<Rightarrow> (string \<times> nat list) list \<times> nat list \<Rightarrow> bool" where
  "indexed ws n st \<longleftrightarrow> distinct (map fst (fst st)) \<and> snd st = bucket ws n []
     \<and> fst ` set (fst st) = {filter_at ws i | i. i < n \<and> filter_at ws i \<noteq> []}
     \<and> (\<forall>(d, is) \<in> set (fst st). is = bucket ws n d)"

lemma add_to_bucket_fst: "fst ` set (add_to_bucket d i idx) = insert d (fst ` set idx)"
  by (induction d i idx rule: add_to_bucket.induct) auto

lemma add_to_bucket_distinct:
  "distinct (map fst idx) \<Longrightarrow> distinct (map fst (add_to_bucket d i idx))"
proof (induction d i idx rule: add_to_bucket.induct)
  case (2 d i d' "is" idx)
  then show ?case using add_to_bucket_fst [of d i idx] by auto
qed simp

lemma add_to_bucket_set:
  "distinct (map fst idx) \<Longrightarrow> (d', js) \<in> set (add_to_bucket d i idx) \<Longrightarrow>
   if d' = d then js = (case map_of idx d of Some is \<Rightarrow> is | None \<Rightarrow> []) @ [i] else (d', js) \<in> set idx"
proof (induction d i idx rule: add_to_bucket.induct)
  case (2 d i d'' "is" idx)
  then show ?case
    by (cases "d'' = d"; cases "d' = d") (auto split: if_splits simp: image_iff dest: bspec)
qed (simp split: if_splits)

lemma bucket_Suc: "bucket ws (Suc n) d = bucket ws n d @ (if filter_at ws n = d then [n] else [])"
  by (simp add: bucket_def)

lemma bucket_empty: "d \<notin> filter_at ws ` {..<n} \<Longrightarrow> bucket ws n d = []"
  by (auto simp: bucket_def filter_empty_conv)

lemma indexed_lookup:
  assumes "indexed ws n (idx, uni)" and "d \<noteq> []"
  shows "(case map_of idx d of Some is \<Rightarrow> is | None \<Rightarrow> []) = bucket ws n d"
proof (cases "map_of idx d")
  case None
  then have "d \<notin> fst ` set idx" by (simp add: map_of_eq_None_iff)
  with assms have "bucket ws n d = []" by (intro bucket_empty) (auto simp: indexed_def)
  with None show ?thesis by simp
next
  case (Some "is")
  with assms show ?thesis by (auto simp: indexed_def dest: map_of_SomeD)
qed

lemma indexed_step:
  assumes "indexed ws n st"
  shows "indexed ws (Suc n) (index_one (n, ws ! n) st)"
proof (cases st)
  case (Pair idx uni)
  note i = assms [unfolded Pair]
  show ?thesis
  proof (cases "filter_at ws n = []")
    case True
    have "js = bucket ws (Suc n) d" if "(d, js) \<in> set idx" for d js
    proof -
      have "d \<in> fst ` set idx" using that by (force simp: image_iff)
      with that i True show ?thesis by (auto simp: indexed_def bucket_Suc)
    qed
    with True i Pair show ?thesis
      by (auto simp: indexed_def index_one_def filter_at_def [symmetric] bucket_Suc less_Suc_eq)
  next
    case False
    have "js = bucket ws (Suc n) d'" if "(d', js) \<in> set (add_to_bucket (filter_at ws n) n idx)" for d' js
      using add_to_bucket_set [OF _ that] i indexed_lookup [OF i False]
      by (auto simp: indexed_def bucket_Suc split: if_splits)
    with False i Pair show ?thesis
      by (auto simp: indexed_def index_one_def filter_at_def [symmetric] bucket_Suc less_Suc_eq
          add_to_bucket_fst add_to_bucket_distinct)
  qed
qed

lemma indexed_fold:
  "n \<le> length ws \<Longrightarrow> indexed ws n (fold index_one (enumerate 0 (take n ws)) ([], []))"
proof (induction n)
  case 0
  then show ?case by (simp add: indexed_def bucket_def)
next
  case (Suc n)
  then show ?case by (simp add: take_Suc_conv_app_nth enumerate_append_eq indexed_step)
qed

definition engine_inv :: "engine \<Rightarrow> bool" where
  "engine_inv e \<longleftrightarrow> ordered (e_rules e)
     \<and> indexed (e_rules e) (length (e_rules e)) (e_driverIndex e, e_universalRules e)"

lemma length_wrap_rules [simp]: "length (wrap_rules rs) = length rs"
  by (simp add: wrap_rules_def)

lemma wrap_rules_nth: "i < length rs \<Longrightarrow> wrap_rules rs ! i = (newRuleWrapper (rs ! i))\<lparr>w_seq := i\<rparr>"
  by (simp add: wrap_rules_def nth_enumerate_eq)

lemma ordered_wrap_rules: "sorted (map r_priority rs) \<Longrightarrow> ordered (wrap_rules rs)"
  by (simp add: ordered_def sorted_iff_nth_mono wrap_rules_nth newRuleWrapper_def)

lemma SetRules_rules:
  "SetRules L configs e = Inr e' \<Longrightarrow>
   \<exists>rules. new_rules L (e_providers e) (e_subEngines e) configs = Inr rules
     \<and> e_rules e' = wrap_rules (sort_key r_priority rules)
     \<and> e_providers e' = e_providers e \<and> e_subEngines e' = e_subEngines e"
  by (auto simp: SetRules_def Let_def split: sum.splits prod.splits)

lemma SetRules_inv:
  assumes "SetRules L configs e = Inr e'"
  shows "engine_inv e'"
proof -
  obtain rules idx uni where e': "e' = e\<lparr>e_rules := wrap_rules (sort_key r_priority rules),
      e_driverIndex := idx, e_universalRules := uni\<rparr>"
    and f: "fold index_one (enumerate 0 (wrap_rules (sort_key r_priority rules))) ([], []) = (idx, uni)"
    using assms by (auto simp: SetRules_def Let_def split: sum.splits prod.splits)
  have "ordered (wrap_rules (sort_key r_priority rules))" by (rule ordered_wrap_rules) simp
  with e' f indexed_fold [of "length rules" "wrap_rules (sort_key r_priority rules)"] show ?thesis
    by (simp add: engine_inv_def)
qed

lemma indexed_same:
  assumes "same_wrappers ws ws'" and "n \<le> length ws" and "indexed ws n st"
  shows "indexed ws' n st"
proof -
  have f: "filter_at ws' i = filter_at ws i" if "i < n" for i
    using same_wrappers_nth [OF assms(1), of i] that assms(2)
    by (auto simp: filter_at_def same_wrapper_def same_config_def)
  then have "bucket ws' n d = bucket ws n d" for d by (auto simp: bucket_def intro: filter_cong)
  moreover have "{filter_at ws' i | i. i < n \<and> filter_at ws' i \<noteq> []} = {filter_at ws i | i. i < n \<and> filter_at ws i \<noteq> []}"
    using f by metis
  ultimately show ?thesis using assms(3) by (simp add: indexed_def)
qed

lemma other_refs_distinct:
  assumes "indexed ws n (idx, uni)" shows "distinct (other_driver_refs idx d)"
proof -
  have "distinct (concat (map snd xs))"
    if "distinct (map fst xs)" "\<forall>(d, is) \<in> set xs. is = bucket ws n d" for xs :: "(string \<times> nat list) list"
    using that by (induction xs) (force simp: bucket_def)+
  moreover have "distinct (map fst (filter P idx))" for P
    using assms by (simp add: indexed_def distinct_map_filter)
  ultimately show ?thesis using assms by (auto simp: other_driver_refs_def indexed_def)
qed

lemma other_refs_set:
  assumes "indexed ws n (idx, uni)"
  shows "set (other_driver_refs idx d) = {i. i < n \<and> filter_at ws i \<noteq> [] \<and> filter_at ws i \<noteq> d}"
proof -
  have b: "\<forall>x \<in> set idx. snd x = bucket ws n (fst x)"
    and f: "fst ` set idx = {filter_at ws i | i. i < n \<and> filter_at ws i \<noteq> []}"
    using assms by (auto simp: indexed_def)
  have "i \<in> set (other_driver_refs idx d) \<longleftrightarrow> (\<exists>x \<in> set idx. fst x \<noteq> d \<and> i \<in> set (snd x))" for i
    unfolding other_driver_refs_def by (simp add: case_prod_unfold Bex_def split_paired_Ex)
  also have "\<dots> i \<longleftrightarrow> (\<exists>d' \<in> fst ` set idx. d' \<noteq> d \<and> i \<in> set (bucket ws n d'))" for i
    using b by simp
  finally show ?thesis unfolding f by (auto simp: bucket_def)
qed

lemma terminal_ref_in: "terminal_ref res = Some t \<Longrightarrow> t \<in> mr_ref ` set res"
  by (auto simp: terminal_ref_def split: if_splits)

text \<open>The rule at position \<open>k\<close> comes before the terminal match, if there is one.\<close>

definition reached :: "match_result list \<Rightarrow> nat \<Rightarrow> bool" where
  "reached res k \<longleftrightarrow> (case terminal_ref res of None \<Rightarrow> True | Some t \<Rightarrow> k < t)"

lemma takeWhile_filter_neq:
  "P t \<Longrightarrow> takeWhile (\<lambda>i. i \<noteq> t) (filter P xs) = filter P (takeWhile (\<lambda>i. i \<noteq> t) xs)"
  by (induction xs) auto

lemma takeWhile_upt_neq: "t < n \<Longrightarrow> takeWhile (\<lambda>i. i \<noteq> t) [0..<n] = [0..<t]"
  by (induction n) (auto simp: takeWhile_append less_Suc_eq)

lemma up_to_terminal_upt:
  assumes "mr_ref ` set res \<subseteq> {i. i < n \<and> P i}"
  shows "set (up_to_terminal res [0..<n]) = {k. k < n \<and> reached res k}"
proof (cases "terminal_ref res")
  case None
  then show ?thesis by (auto simp: up_to_terminal_def reached_def)
next
  case (Some t)
  with assms have "t < n" using terminal_ref_in by fastforce
  with Some show ?thesis by (auto simp: up_to_terminal_def reached_def takeWhile_upt_neq)
qed

lemma up_to_terminal_filter:
  assumes "mr_ref ` set res \<subseteq> {i. i < n \<and> P i}"
  shows "up_to_terminal res (filter P xs) = filter P (up_to_terminal res xs)"
proof (cases "terminal_ref res")
  case None
  then show ?thesis by (simp add: up_to_terminal_def)
next
  case (Some t)
  with assms have "P t" using terminal_ref_in by fastforce
  with Some show ?thesis by (simp add: up_to_terminal_def takeWhile_filter_neq)
qed

text \<open>The rules the index evaluates for a point: unscoped ones and those of the point's driver.\<close>

definition relevant :: "data_point \<Rightarrow> wrapper list \<Rightarrow> nat \<Rightarrow> bool" where
  "relevant p ws i \<longleftrightarrow> filter_at ws i = [] \<or> filter_at ws i = dp_driver p"

locale rule_interface =
  fixes m :: "'s match_impl"
  assumes keeps_config: "m r p s = (ok, r', s') \<Longrightarrow> same_config r r'"
begin

lemma wrapper_Match_same: "wrapper_Match m now p w s = (ok, w', s') \<Longrightarrow> same_wrapper w w'"
  using keeps_config
  by (fastforce simp: wrapper_Match_def Let_def same_wrapper_def split: if_splits prod.splits)

lemma tryMatch_same:
  "tryMatch m now p i (ws, s) = (r, ws', s') \<Longrightarrow> i < length ws \<Longrightarrow> same_wrappers ws ws'"
  using wrapper_Match_same
  by (fastforce simp: tryMatch_def intro!: same_wrappers_update split: prod.splits)

lemma tryMatch_other:
  "tryMatch m now p i (ws, s) = (r, ws', s') \<Longrightarrow> j \<noteq> i \<Longrightarrow> ws' ! j = ws ! j"
  by (auto simp: tryMatch_def split: prod.splits)

lemma matchInRules_same:
  "matchInRules m now p is (ws, s) = (res, ws', s') \<Longrightarrow> \<forall>i \<in> set is. i < length ws \<Longrightarrow>
   same_wrappers ws ws'"
proof (induction "is" arbitrary: ws s res ws' s')
  case Nil
  then show ?case by simp
next
  case (Cons i "is")
  obtain r ws1 s1 where t: "tryMatch m now p i (ws, s) = (r, ws1, s1)" by (metis prod_cases3)
  have 1: "same_wrappers ws ws1" using tryMatch_same [OF t] Cons.prems(2) by simp
  then have l: "\<forall>j \<in> set is. j < length ws1" using Cons.prems(2) by (simp add: same_wrappers_length)
  show ?case
  proof (cases "r = None \<or> r_continue (mr_rule (the r))")
    case True
    obtain rest ws2 s2 where m: "matchInRules m now p is (ws1, s1) = (rest, ws2, s2)"
      by (metis prod_cases3)
    with True t Cons.prems(1) have "ws' = ws2" by (auto split: option.splits)
    with Cons.IH [OF m l] 1 show ?thesis by (auto intro: same_wrappers_trans)
  next
    case False
    with t Cons.prems(1) have "ws' = ws1" by auto
    with 1 show ?thesis by simp
  qed
qed

text \<open>The two-pointer merge evaluates the rules in the order of their positions.\<close>

lemma matchMerged_eq:
  assumes "ordered ws" and "\<forall>i \<in> set is \<union> set js. i < length ws"
  shows "matchMerged m now p is js (ws, s) = matchInRules m now p (merge_refs is js) (ws, s)"
  using assms
proof (induction "is" js arbitrary: ws s rule: merge_refs.induct)
  case (1 i "is" j js)
  have ij: "i < length ws" "j < length ws" using "1.prems" by auto
  note key = ordered_key_less [OF "1.prems"(1) ij]
  define k where "k = (if i \<le> j then i else j)"
  obtain r ws1 s1 where t: "tryMatch m now p k (ws, s) = (r, ws1, s1)" by (metis prod_cases3)
  have same: "same_wrappers ws ws1" using tryMatch_same [OF t] ij by (simp add: k_def)
  then have o: "ordered ws1" and l: "length ws1 = length ws"
    using "1.prems"(1) by (auto intro: ordered_same simp: same_wrappers_length)
  show ?case
  proof (cases "i \<le> j")
    case True
    have "matchMerged m now p is (j # js) (ws1, s1) = matchInRules m now p (merge_refs is (j # js)) (ws1, s1)"
      using "1.IH"(1) [OF True o] "1.prems"(2) l by simp
    with True key t show ?thesis by (simp add: Let_def k_def split: option.splits)
  next
    case False
    have "matchMerged m now p (i # is) js (ws1, s1) = matchInRules m now p (merge_refs (i # is) js) (ws1, s1)"
      using "1.IH"(2) [OF False o] "1.prems"(2) l by simp
    with False t show ?thesis
      by (simp only: matchMerged.simps merge_refs.simps matchInRules.simps Let_def fst_conv key k_def
          if_False prod.case split: option.splits)
  qed
qed (simp_all split: list.splits)

text \<open>Recording a miss commutes with evaluating other rules.\<close>

lemma tryMatch_miss:
  assumes "i \<noteq> j" and "tryMatch m now p j (ws, s) = (r, ws', s')"
  shows "tryMatch m now p j (miss_at now i ws, s) = (r, miss_at now i ws', s')"
  using assms by (auto simp: tryMatch_def miss_at_def list_update_swap split: prod.splits)

lemma matchInRules_miss:
  assumes "i \<notin> set is" and "matchInRules m now p is (ws, s) = (res, ws', s')"
  shows "matchInRules m now p is (miss_at now i ws, s) = (res, miss_at now i ws', s')"
  using assms
proof (induction "is" arbitrary: ws s res ws' s')
  case Nil
  then show ?case by simp
next
  case (Cons j "is")
  obtain r ws1 s1 where t: "tryMatch m now p j (ws, s) = (r, ws1, s1)" by (metis prod_cases3)
  obtain rest ws2 s2 where u: "matchInRules m now p is (ws1, s1) = (rest, ws2, s2)" by (metis prod_cases3)
  from Cons.prems(1) have "i \<noteq> j" "i \<notin> set is" by auto
  with t u have "tryMatch m now p j (miss_at now i ws, s) = (r, miss_at now i ws1, s1)"
    and "matchInRules m now p is (miss_at now i ws1, s1) = (rest, miss_at now i ws2, s2)"
    by (auto intro: tryMatch_miss Cons.IH)
  with t u Cons.prems(2) show ?case by (auto split: option.splits if_splits)
qed

text \<open>A quiet rule: it does not match the point, and evaluating it changes nothing.\<close>

definition quiet :: "data_point \<Rightarrow> wrapper \<Rightarrow> bool" where
  "quiet p w \<longleftrightarrow> (\<forall>s. m (w_rule w) p s = (False, w_rule w, s))"

lemma tryMatch_quiet: "quiet p (ws ! i) \<Longrightarrow> tryMatch m now p i (ws, s) = (None, miss_at now i ws, s)"
  by (simp add: tryMatch_def wrapper_Match_def quiet_def RecordMiss_def miss_at_def)

lemma matchInRules_refs:
  "matchInRules m now p is st = (res, st') \<Longrightarrow> mr_ref ` set res \<subseteq> set is"
proof (induction "is" arbitrary: st res st')
  case Nil
  then show ?case by simp
next
  case (Cons i "is")
  obtain r st1 where t: "tryMatch m now p i st = (r, st1)" by (metis surj_pair)
  obtain rest st2 where u: "matchInRules m now p is st1 = (rest, st2)" by (metis surj_pair)
  have "mr_ref (the r) = i" if "r \<noteq> None"
    using t that by (auto simp: tryMatch_def mk_result_def split: prod.splits if_splits)
  with t u Cons.prems Cons.IH [OF u] show ?case
    by (fastforce split: option.splits if_splits)
qed

lemma linear_scan_filtered:
  assumes "distinct is" and "\<forall>i \<in> set is. i < length ws"
    and "\<forall>i \<in> set is. \<not> rel i \<longrightarrow> quiet p (ws ! i)"
    and "matchInRules m now p (filter rel is) (ws, s) = (res, ws', s')"
  shows "matchInRules m now p is (ws, s) =
    (res, record_misses now (filter (\<lambda>i. \<not> rel i) (up_to_terminal res is)) ws', s')"
  using assms
proof (induction "is" arbitrary: ws s res ws' s')
  case Nil
  then show ?case by (auto simp: record_misses_def up_to_terminal_def terminal_ref_def)
next
  case (Cons i "is")
  have t_ne: "terminal_ref r \<noteq> Some i" if "mr_ref ` set r \<subseteq> set is" for r
    using that Cons.prems(1) by (auto simp: terminal_ref_def) (metis last_in_set image_subset_iff)
  show ?case
  proof (cases "rel i")
    case False
    have q: "quiet p (ws ! i)" using Cons.prems(3) False by simp
    have m: "matchInRules m now p (filter rel is) (ws, s) = (res, ws', s')"
      using Cons.prems(4) False by simp
    have i: "i \<notin> set is" "distinct is" using Cons.prems(1) by auto
    then have "matchInRules m now p (filter rel is) (miss_at now i ws, s) = (res, miss_at now i ws', s')"
      using m by (intro matchInRules_miss) auto
    moreover have "\<forall>j \<in> set is. \<not> rel j \<longrightarrow> quiet p (miss_at now i ws ! j)"
      using Cons.prems(3) i by (simp add: miss_at_def) (metis nth_list_update_neq)
    ultimately have "matchInRules m now p is (miss_at now i ws, s) =
        (res, record_misses now (filter (\<lambda>j. \<not> rel j) (up_to_terminal res is)) (miss_at now i ws'), s')"
      using Cons.prems(2) i by (intro Cons.IH) (auto simp: miss_at_def)
    moreover have "terminal_ref res \<noteq> Some i"
      using matchInRules_refs [OF m] by (intro t_ne) auto
    ultimately show ?thesis
      using False by (simp add: tryMatch_quiet [OF q] up_to_terminal_Cons record_misses_Cons)
  next
    case True
    obtain r ws1 s1 where t: "tryMatch m now p i (ws, s) = (r, ws1, s1)" by (metis prod_cases3)
    obtain rest ws2 s2 where u: "matchInRules m now p (filter rel is) (ws1, s1) = (rest, ws2, s2)"
      by (metis prod_cases3)
    have l: "length ws1 = length ws" using tryMatch_same [OF t] Cons.prems(2) by (simp add: same_wrappers_length)
    have "\<forall>j \<in> set is. \<not> rel j \<longrightarrow> quiet p (ws1 ! j)"
      using Cons.prems(1,3) tryMatch_other [OF t] by (metis distinct.simps(2) list.set_intros(2))
    then have IH: "matchInRules m now p is (ws1, s1) =
        (rest, record_misses now (filter (\<lambda>j. \<not> rel j) (up_to_terminal rest is)) ws2, s2)"
      using Cons.prems(1,2) l u by (intro Cons.IH) auto
    have ne: "terminal_ref rest \<noteq> Some i"
      using matchInRules_refs [OF u] by (intro t_ne) auto
    show ?thesis
    proof (cases r)
      case None
      with True t u Cons.prems(4) IH ne show ?thesis
        by (auto simp: up_to_terminal_Cons)
    next
      case (Some x)
      have x: "mr_ref x = i" using t Some by (auto simp: tryMatch_def mk_result_def split: prod.splits if_splits)
      show ?thesis
      proof (cases "r_continue (mr_rule x)")
        case False
        with True t Some Cons.prems(4) have "res = [x] \<and> ws' = ws1 \<and> s' = s1" by simp
        moreover from x False have "up_to_terminal [x] (i # is) = []"
          by (simp add: up_to_terminal_def terminal_ref_def)
        ultimately show ?thesis using False t Some by simp
      next
        case c: True
        then have "terminal_ref (x # rest) = terminal_ref rest" by (simp add: terminal_ref_def)
        then have up: "up_to_terminal (x # rest) (i # is) = i # up_to_terminal rest is"
          using up_to_terminal_Cons [OF ne] by (simp add: up_to_terminal_def)
        from True t Some c u Cons.prems(4) have "res = x # rest \<and> ws' = ws2 \<and> s' = s2" by simp
        with up show ?thesis using True t Some c IH by simp
      qed
    qed
  qed
qed

text \<open>
  The point's driver selects the relevant rules. When the rules scoped to other drivers are quiet,
  the indexed match returns what the scan of all rules returns and leaves the same counters.
\<close>

lemma reached_before_ordered:
  assumes "ordered ws" and "t < length ws" and "i < length ws"
  shows "reached_before ws (Some t) i \<longleftrightarrow> i < t"
proof -
  have "reached_before ws (Some t) i \<longleftrightarrow> \<not> (ref_priority ws t < ref_priority ws i
      \<or> ref_priority ws t = ref_priority ws i \<and> ref_seq ws t \<le> ref_seq ws i)"
    by (simp add: reached_before_def eq_commute)
  then show ?thesis by (simp only: ordered_key_less [OF assms] not_le)
qed

lemma missed_refs:
  assumes ix: "indexed ws n (idx, uni)" and o: "ordered ws"
    and r: "matchInRules m now p (filter (relevant p ws) [0..<n]) (ws, s) = (res, ws1, s1)"
    and n: "n = length ws" and d: "d = dp_driver p"
  shows "record_misses now (filter (reached_before ws1 (terminal_ref res)) (other_driver_refs idx d)) ws1
    = record_misses now (filter (\<lambda>i. \<not> relevant p ws i) (up_to_terminal res [0..<n])) ws1"
proof (rule record_misses_cong)
  note rel = relevant_def [of p ws, folded d]
  have same: "same_wrappers ws ws1" using matchInRules_same [OF r] by (simp add: n)
  show "set (filter (reached_before ws1 (terminal_ref res)) (other_driver_refs idx d))
      = set (filter (\<lambda>i. \<not> relevant p ws i) (up_to_terminal res [0..<n]))"
  proof (cases "terminal_ref res")
    case None
    then show ?thesis
      using other_refs_set [OF ix, of d] by (auto simp: reached_before_def up_to_terminal_def rel)
  next
    case (Some t)
    then have t: "t < n" using matchInRules_refs [OF r] terminal_ref_in [OF Some] by auto
    have "takeWhile (\<lambda>i. i \<noteq> t) [0..<n] = [0..<t]" using t by (rule takeWhile_upt_neq)
    moreover have "reached_before ws1 (Some t) i \<longleftrightarrow> i < t" if "i < n" for i
      using that t same ordered_same [OF same o]
      by (intro reached_before_ordered) (auto simp: n same_wrappers_length)
    ultimately show ?thesis
      using Some t other_refs_set [OF ix, of d] by (auto simp: up_to_terminal_def rel)
  qed
qed (use other_refs_distinct [OF ix] in \<open>auto simp: up_to_terminal_def split: option.splits\<close>)

lemma Match_char:
  assumes inv: "engine_inv e"
    and r: "matchInRules m now p (filter (relevant p (e_rules e)) [0..<length (e_rules e)]) (e_rules e, s)
      = (res, ws1, s1)"
  shows "Match m now p e s =
    (res, e\<lparr>e_rules := record_misses now
       (filter (\<lambda>i. \<not> relevant p (e_rules e) i) (up_to_terminal res [0..<length (e_rules e)])) ws1\<rparr>, s1)"
proof -
  define ws where "ws = e_rules e"
  define n where "n = length ws"
  define d where "d = dp_driver p"
  define dr where "dr = (case map_of (e_driverIndex e) d of Some is \<Rightarrow> is | None \<Rightarrow> [])"
  note rel = relevant_def [of p ws, folded d_def]
  have ix: "indexed ws n (e_driverIndex e, e_universalRules e)" and o: "ordered ws"
    using inv by (auto simp: engine_inv_def ws_def n_def)
  have r: "matchInRules m now p (filter (relevant p ws) [0..<n]) (ws, s) = (res, ws1, s1)"
    using r by (simp add: n_def ws_def)
  have goal: "Match m now p e s =
      (res, e\<lparr>e_rules := record_misses now (filter (\<lambda>i. \<not> relevant p ws i) (up_to_terminal res [0..<n])) ws1\<rparr>, s1)"
  proof (cases "e_driverIndex e = []")
    case True
    with ix have all: "\<forall>i < n. filter_at ws i = []" by (auto simp: indexed_def)
    have "filter (relevant p ws) [0..<n] = [0..<n]" using all by (simp add: rel filter_id_conv)
    moreover have "filter (\<lambda>i. \<not> relevant p ws i) (up_to_terminal res [0..<n]) = []"
      using all by (auto simp: rel filter_empty_conv up_to_terminal_def split: option.splits
          dest!: set_takeWhileD)
    ultimately show ?thesis using True r by (simp add: Match_def Let_def n_def ws_def)
  next
    case False
    have uni: "e_universalRules e = bucket ws n []" using ix by (simp add: indexed_def)
    have "[] \<notin> fst ` set (e_driverIndex e)" using ix by (auto simp: indexed_def)
    then have dr': "dr = (if d = [] then [] else bucket ws n d)"
      using indexed_lookup [OF ix, of d] by (auto simp: dr_def map_of_eq_None_iff [THEN iffD2])
    have merged: "merge_refs (e_universalRules e) dr = filter (relevant p ws) [0..<n]"
      using merge_refs_filter [of "[0..<n]" "\<lambda>i. filter_at ws i = []" "\<lambda>i. filter_at ws i = d"]
      by (auto simp: dr' uni bucket_def rel cong: filter_cong)
    have rng: "\<forall>i \<in> set (e_universalRules e) \<union> set dr. i < length ws"
      by (auto simp: dr' uni bucket_def n_def)
    have mm: "matchMerged m now p (e_universalRules e) dr (ws, s) = (res, ws1, s1)"
      by (simp only: matchMerged_eq [OF o rng] merged r)
    have "record_misses now (filter (reached_before ws1 (terminal_ref res)) (other_driver_refs (e_driverIndex e) d)) ws1
        = record_misses now (filter (\<lambda>i. \<not> relevant p ws i) (up_to_terminal res [0..<n])) ws1"
      using missed_refs [OF ix o r n_def d_def] .
    with False mm show ?thesis by (simp add: Match_def Let_def ws_def dr_def d_def)
  qed
  then show ?thesis by (simp add: n_def ws_def)
qed

text \<open>
  The shape of a result list: the references are positions of relevant, enabled rules in order,
  and only the last one may be terminal.
\<close>

lemma matchInRules_shape:
  assumes "sorted_wrt (<) is" and "\<forall>i \<in> set is. i < length ws"
    and "matchInRules m now p is (ws, s) = (res, ws', s')"
  shows "sorted_wrt (<) (map mr_ref res) \<and> (\<forall>x \<in> set (butlast res). r_continue (mr_rule x))
    \<and> (\<forall>x \<in> set res. \<not> w_disabled (ws ! mr_ref x) \<and> same_config (w_rule (ws ! mr_ref x)) (mr_rule x))"
  using assms
proof (induction "is" arbitrary: ws s res ws' s')
  case Nil
  then show ?case by simp
next
  case (Cons i "is")
  obtain r ws1 s1 where t: "tryMatch m now p i (ws, s) = (r, ws1, s1)" by (metis prod_cases3)
  obtain rest ws2 s2 where u: "matchInRules m now p is (ws1, s1) = (rest, ws2, s2)" by (metis prod_cases3)
  have same: "same_wrappers ws ws1" using tryMatch_same [OF t] Cons.prems(2) by simp
  then have IH: "sorted_wrt (<) (map mr_ref rest)" "\<forall>x \<in> set (butlast rest). r_continue (mr_rule x)"
    "\<forall>x \<in> set rest. \<not> w_disabled (ws1 ! mr_ref x) \<and> same_config (w_rule (ws1 ! mr_ref x)) (mr_rule x)"
    using Cons.IH [OF _ _ u] Cons.prems(1,2) by (auto simp: same_wrappers_length)
  have refs: "\<forall>x \<in> set rest. i < mr_ref x \<and> ws1 ! mr_ref x = ws ! mr_ref x"
    using matchInRules_refs [OF u] Cons.prems(1) tryMatch_other [OF t] by fastforce
  have head: "mr_ref x = i \<and> \<not> w_disabled (ws ! i) \<and> same_config (w_rule (ws ! i)) (mr_rule x)" if "r = Some x" for x
    using t that keeps_config
    by (fastforce simp: tryMatch_def mk_result_def wrapper_Match_def Let_def split: prod.splits if_splits)
  from Cons.prems(3) t u consider "r = None" "res = rest"
    | x where "r = Some x" "res = [x]"
    | x where "r = Some x" "r_continue (mr_rule x)" "res = x # rest"
    by (auto split: option.splits if_splits)
  then show ?case
  proof cases
    case 1
    with IH refs show ?thesis by auto
  next
    case 2
    with head show ?thesis by auto
  next
    case (3 x)
    with IH refs head [OF 3(1)] show ?thesis by auto
  qed
qed

text \<open>Every rule that is evaluated counts one hit or one miss; nothing else changes a counter.\<close>

lemma tryMatch_counts:
  assumes "tryMatch m now p i (ws, s) = (r, ws', s')" and "i < length ws"
  shows "w_hitCount (ws' ! i) = w_hitCount (ws ! i) + (if r = None then 0 else 1)"
    and "w_missCount (ws' ! i) = w_missCount (ws ! i) + (if r = None \<and> \<not> w_disabled (ws ! i) then 1 else 0)"
    and "w_disabled (ws' ! i) = w_disabled (ws ! i)"
  using assms by (auto simp: tryMatch_def wrapper_Match_def Let_def split: prod.splits if_splits)

lemma matchInRules_counts:
  assumes "distinct is" and "\<forall>i \<in> set is. i < length ws"
    and "matchInRules m now p is (ws, s) = (res, ws', s')" and "k < length ws"
  shows "w_hitCount (ws' ! k) = w_hitCount (ws ! k) + (if k \<in> mr_ref ` set res then 1 else 0)
    \<and> w_missCount (ws' ! k) = w_missCount (ws ! k) +
        (if k \<in> set (up_to_terminal res is) \<and> k \<notin> mr_ref ` set res \<and> \<not> w_disabled (ws ! k) then 1 else 0)"
  using assms
proof (induction "is" arbitrary: ws s res ws' s')
  case Nil
  then show ?case by (auto simp: up_to_terminal_def terminal_ref_def)
next
  case (Cons i "is")
  obtain r ws1 s1 where t: "tryMatch m now p i (ws, s) = (r, ws1, s1)" by (metis prod_cases3)
  obtain rest ws2 s2 where u: "matchInRules m now p is (ws1, s1) = (rest, ws2, s2)" by (metis prod_cases3)
  have i: "i < length ws" "i \<notin> set is" "distinct is" and l: "length ws1 = length ws"
    using Cons.prems(1,2) tryMatch_same [OF t] by (auto simp: same_wrappers_length)
  note c = tryMatch_counts [OF t i(1)]
  have other: "ws1 ! k = ws ! k" if "k \<noteq> i" using tryMatch_other [OF t that] .
  have IH: "w_hitCount (ws2 ! k) = w_hitCount (ws1 ! k) + (if k \<in> mr_ref ` set rest then 1 else 0)
    \<and> w_missCount (ws2 ! k) = w_missCount (ws1 ! k) +
        (if k \<in> set (up_to_terminal rest is) \<and> k \<notin> mr_ref ` set rest \<and> \<not> w_disabled (ws1 ! k) then 1 else 0)"
    using Cons.IH [OF i(3) _ u] Cons.prems(2,4) l by simp
  have refs: "i \<notin> mr_ref ` set rest" using matchInRules_refs [OF u] i(2) by auto
  then have ne: "terminal_ref rest \<noteq> Some i" by (auto simp: terminal_ref_def)
  have up: "i \<notin> set (up_to_terminal rest is)"
    using i(2) by (auto simp: up_to_terminal_def split: option.splits dest: set_takeWhileD)
  have head: "mr_ref x = i" if "r = Some x" for x
    using t that by (auto simp: tryMatch_def mk_result_def split: prod.splits if_splits)
  from Cons.prems(3) t u consider "r = None" "res = rest" "ws' = ws2"
    | x where "r = Some x" "\<not> r_continue (mr_rule x)" "res = [x]" "ws' = ws1"
    | x where "r = Some x" "r_continue (mr_rule x)" "res = x # rest" "ws' = ws2"
    by (auto split: option.splits if_splits)
  then show ?case
  proof cases
    case 1
    then show ?thesis
      using IH refs up c other by (cases "k = i") (simp_all add: up_to_terminal_Cons [OF ne])
  next
    case (2 x)
    then show ?thesis
      using head [OF 2(1)] c other
      by (cases "k = i") (simp_all add: up_to_terminal_def terminal_ref_def)
  next
    case (3 x)
    then have "terminal_ref (x # rest) = terminal_ref rest" by (simp add: terminal_ref_def)
    then have "up_to_terminal (x # rest) (i # is) = i # up_to_terminal rest is"
      using up_to_terminal_Cons [OF ne, of "is"] by (simp add: up_to_terminal_def)
    then show ?thesis
      using 3 IH refs up head [OF 3(1)] c other by (cases "k = i") auto
  qed
qed

lemma Match_counts:
  assumes inv: "engine_inv e" and match: "Match m now p e s = (res, e', s')"
    and k: "k < length (e_rules e)"
  shows "w_hitCount (e_rules e' ! k) = w_hitCount (e_rules e ! k) + (if k \<in> mr_ref ` set res then 1 else 0)
    \<and> w_missCount (e_rules e' ! k) = w_missCount (e_rules e ! k) +
        (if reached res k \<and> k \<notin> mr_ref ` set res \<and> \<not> w_disabled (e_rules e ! k) then 1 else 0)"
proof -
  define ws where "ws = e_rules e"
  define rel where "rel = relevant p ws"
  obtain ws1 s1 res1 where r: "matchInRules m now p (filter rel [0..<length ws]) (ws, s) = (res1, ws1, s1)"
    by (metis prod_cases3)
  note ch = Match_char [OF inv r [unfolded rel_def ws_def]]
  have [simp]: "res1 = res" using ch match by simp
  have e': "e_rules e' = record_misses now (filter (\<lambda>i. \<not> rel i) (up_to_terminal res [0..<length ws])) ws1"
    using ch match by (auto simp: ws_def rel_def)
  have same: "same_wrappers ws ws1" using matchInRules_same [OF r] by simp
  have refs: "mr_ref ` set res \<subseteq> {i. i < length ws \<and> rel i}" using matchInRules_refs [OF r] by auto
  have up: "k \<in> set (up_to_terminal res [0..<length ws]) \<longleftrightarrow> reached res k"
    and upf: "k \<in> set (up_to_terminal res (filter rel [0..<length ws])) \<longleftrightarrow> rel k \<and> reached res k"
    using k up_to_terminal_upt [OF refs] up_to_terminal_filter [OF refs] by (auto simp: ws_def)
  have d: "w_disabled (ws1 ! k) = w_disabled (ws ! k)"
    using same_wrappers_nth [OF same, of k] k by (simp add: same_wrapper_def ws_def)
  have n: "e_rules e' ! k = (if \<not> rel k \<and> reached res k then RecordMiss now (ws1 ! k) else ws1 ! k)"
    using k up same
    by (auto simp: e' record_misses_nth up_to_terminal_def ws_def same_wrappers_length split: option.splits)
  have "w_hitCount (ws1 ! k) = w_hitCount (ws ! k) + (if k \<in> mr_ref ` set res then 1 else 0)
    \<and> w_missCount (ws1 ! k) = w_missCount (ws ! k) +
        (if rel k \<and> reached res k \<and> k \<notin> mr_ref ` set res \<and> \<not> w_disabled (ws ! k) then 1 else 0)"
    using matchInRules_counts [OF _ _ r, of k] k upf by (simp add: ws_def)
  moreover have "\<not> rel k \<longrightarrow> k \<notin> mr_ref ` set res" using refs by auto
  ultimately show ?thesis
    using n d by (cases "rel k") (simp_all add: RecordMiss_def ws_def)
qed

lemma Match_linear:
  assumes "engine_inv e"
    and "\<forall>i < length (e_rules e). \<not> relevant p (e_rules e) i \<longrightarrow> quiet p (e_rules e ! i)"
  shows "Match m now p e s =
    (case matchInRules m now p [0..<length (e_rules e)] (e_rules e, s) of
       (res, ws, s') \<Rightarrow> (res, e\<lparr>e_rules := ws\<rparr>, s'))"
proof -
  obtain res ws1 s1 where
    r: "matchInRules m now p (filter (relevant p (e_rules e)) [0..<length (e_rules e)]) (e_rules e, s)
      = (res, ws1, s1)" by (metis prod_cases3)
  show ?thesis
    using assms(2) by (simp add: Match_char [OF assms(1) r] linear_scan_filtered [OF _ _ _ r])
qed

end

end
