(* ===== verification/Rule_Props.thy ===== *)
theory Rule_Props
  imports Rule_Match "HOL-Library.Multiset"
begin

text \<open>
  The rule engine on its own rules: \<open>leaf_Match\<close> and \<open>rule_Match\<close> satisfy the rule interface, and
  the properties of building and matching follow.
\<close>

section \<open>The implementations of the rule interface\<close>

lemma leaf_Match_same: "leaf_Match L now r p wld = (ok, r', wld') \<Longrightarrow> same_config r r'"
  by (auto simp: same_config_def DriverFilter_def Let_def split: rule_kind.splits if_splits option.splits prod.splits)

lemma rule_Match_same: "rule_Match L now r p wld = (ok, r', wld') \<Longrightarrow> same_config r r'"
  by (cases "r_kind r") (auto simp: rule_Match_def Let_def simp del: leaf_Match.simps
      split: prod.splits dest: leaf_Match_same)

interpretation leaf: rule_interface "leaf_Match L now" for L now
  by unfold_locales (rule leaf_Match_same)

interpretation full: rule_interface "rule_Match L now" for L now
  by unfold_locales (rule rule_Match_same)

section \<open>Building rules\<close>

text \<open>A rule with a driver filter is a compiled expression.\<close>

definition rule_ok :: "rule \<Rightarrow> bool" where
  "rule_ok r \<longleftrightarrow> (DriverFilter r \<noteq> [] \<longrightarrow>
     \<not> equal_fold (r_matchExpr r) ''ALL'' \<and> (\<exists>n. r_kind r = SimpleRule (Some n) (DriverFilter r)))"

lemma newSimpleRule_ok: "newSimpleRule L cfg = Inr r \<Longrightarrow> rule_ok r \<and> (\<forall>a. r_kind r \<noteq> SubRuleRef a)"
  by (auto simp: newSimpleRule_def rule_ok_def DriverFilter_def extractDriverFilter_def Let_def
      split: sum.splits if_splits)

lemma newRule_ok:
  "newRule L ps subs cfg = Inr r \<Longrightarrow> rule_ok r \<and> (subs = [] \<longrightarrow> (\<forall>a. r_kind r \<noteq> SubRuleRef a))"
  by (auto simp: newRule_def Let_def newRuleSetRule_def newSubRuleRef_def rule_ok_def DriverFilter_def
      split: if_splits option.splits sum.splits dest: newSimpleRule_ok [unfolded rule_ok_def DriverFilter_def])

lemma newRule_priority: "newRule L ps subs cfg = Inr r \<Longrightarrow> r_priority r = rc_priority cfg"
  by (auto simp: newRule_def Let_def newRuleSetRule_def newSubRuleRef_def newSimpleRule_def
      split: if_splits option.splits sum.splits)

lemma new_rules_all2:
  "new_rules L ps subs cfgs = Inr rs \<Longrightarrow> list_all2 (\<lambda>cfg r. newRule L ps subs cfg = Inr r) cfgs rs"
  by (induction cfgs arbitrary: rs) (auto split: sum.splits)

lemma new_rules_ok:
  "new_rules L ps subs cfgs = Inr rs \<Longrightarrow> r \<in> set rs \<Longrightarrow>
   rule_ok r \<and> (subs = [] \<longrightarrow> (\<forall>a. r_kind r \<noteq> SubRuleRef a))"
  using newRule_ok by (induction cfgs arbitrary: rs) (fastforce split: sum.splits)+

lemma w_rule_wrap_rules [simp]: "map w_rule (wrap_rules rs) = rs"
  by (auto intro!: nth_equalityI simp: wrap_rules_nth newRuleWrapper_def)

lemma SetRules_ok:
  assumes "SetRules L cfgs e0 = Inr e" and "w \<in> set (e_rules e)"
  shows "rule_ok (w_rule w) \<and> (e_subEngines e0 = [] \<longrightarrow> (\<forall>a. r_kind (w_rule w) \<noteq> SubRuleRef a))"
proof -
  from SetRules_rules [OF assms(1)] obtain rs where
    rs: "new_rules L (e_providers e0) (e_subEngines e0) cfgs = Inr rs"
    and w: "map w_rule (e_rules e) = sort_key r_priority rs" by auto
  from assms(2) have "w_rule w \<in> set (map w_rule (e_rules e))" by simp
  with w have "w_rule w \<in> set rs" by simp
  with rs show ?thesis by (rule new_rules_ok)
qed

section \<open>Properties\<close>

text \<open>
  The reading of a driver filter the index relies on: a rule scoped to another driver does not
  match the point (its conjunct \<^verbatim>\<open>driver == 'd'\<close> is false) and its evaluation raises no error.
\<close>

definition scope_respected :: "expr_lang \<Rightarrow> time \<Rightarrow> data_point \<Rightarrow> engine \<Rightarrow> bool" where
  "scope_respected L now p e \<longleftrightarrow>
     (\<forall>w \<in> set (e_rules e). case r_kind (w_rule w) of
        SimpleRule (Some n) f \<Rightarrow> f \<noteq> [] \<longrightarrow> f \<noteq> dp_driver p \<longrightarrow> matcher_eval L now n p = (False, n)
      | _ \<Rightarrow> True)"

lemma scope_respected_quiet:
  assumes "SetRules L cfgs e0 = Inr e" and "scope_respected L now p e"
    and "i < length (e_rules e)" and "\<not> relevant p (e_rules e) i"
  shows "full.quiet L now p (e_rules e ! i)"
proof -
  let ?r = "w_rule (e_rules e ! i)"
  have w: "e_rules e ! i \<in> set (e_rules e)" using assms(3) by simp
  have f: "DriverFilter ?r \<noteq> []" "DriverFilter ?r \<noteq> dp_driver p"
    using assms(4) by (auto simp: relevant_def filter_at_def)
  with SetRules_ok [OF assms(1) w] obtain n where
    k: "r_kind ?r = SimpleRule (Some n) (DriverFilter ?r)" "\<not> equal_fold (r_matchExpr ?r) ''ALL''"
    by (auto simp: rule_ok_def)
  with assms(2) w f have "matcher_eval L now n p = (False, n)" by (fastforce simp: scope_respected_def)
  moreover from k(1) have "?r\<lparr>r_kind := SimpleRule (Some n) (DriverFilter ?r)\<rparr> = ?r"
    by (metis rule.surjective rule.update_convs(9) rule.select_convs(9))
  ultimately show ?thesis
    using k by (simp add: full.quiet_def rule_Match_def)
qed

text \<open>
  C1. The driver index is a pure optimisation: on an engine built by \<^verbatim>\<open>SetRules\<close>, and for a
  point on which rules scoped to another driver are false, \<^verbatim>\<open>Match\<close> returns exactly the results of
  scanning all rules in priority order, and leaves every rule with the same hit and miss counters,
  and the providers and sub-rule engines in the same state, as that scan.
\<close>

theorem match_index_is_linear_scan:
  assumes "SetRules L cfgs e0 = Inr e" and "scope_respected L now p e"
  shows "Match (rule_Match L now) now p e wld =
    (case matchInRules (rule_Match L now) now p [0..<length (e_rules e)] (e_rules e, wld) of
       (res, ws, wld') \<Rightarrow> (res, e\<lparr>e_rules := ws\<rparr>, wld'))"
  using assms by (intro full.Match_linear SetRules_inv scope_respected_quiet allI impI)

text \<open>
  The results of \<^verbatim>\<open>Match\<close> are in evaluation order (positions, hence priorities, increase),
  every rule but the last one has Continue set, so a terminal rule ends the list, and a result
  always comes from an enabled rule whose configuration it carries.
\<close>

theorem match_results_ordered:
  assumes "SetRules L cfgs e0 = Inr e" and "Match (rule_Match L now) now p e wld = (res, e', wld')"
  shows "sorted_wrt (<) (map mr_ref res)
    \<and> sorted (map (\<lambda>x. r_priority (mr_rule x)) res)
    \<and> (\<forall>x \<in> set (butlast res). r_continue (mr_rule x))
    \<and> (\<forall>x \<in> set res. mr_ref x < length (e_rules e) \<and> \<not> w_disabled (e_rules e ! mr_ref x)
         \<and> relevant p (e_rules e) (mr_ref x)
         \<and> same_config (w_rule (e_rules e ! mr_ref x)) (mr_rule x))"
proof -
  let ?is = "filter (relevant p (e_rules e)) [0..<length (e_rules e)]"
  obtain res1 ws1 s1 where
    r: "matchInRules (rule_Match L now) now p ?is (e_rules e, wld) = (res1, ws1, s1)" by (metis prod_cases3)
  have "res1 = res"
    using full.Match_char [OF SetRules_inv [OF assms(1)] r] assms(2) by simp
  note r = r [unfolded this]
  have sorted: "sorted_wrt (<) ?is" and rng: "\<forall>i \<in> set ?is. i < length (e_rules e)"
    by (auto simp: sorted_wrt_filter)
  note shape = full.matchInRules_shape [OF sorted rng r, THEN conjunct1]
    full.matchInRules_shape [OF sorted rng r, THEN conjunct2, THEN conjunct1]
    full.matchInRules_shape [OF sorted rng r, THEN conjunct2, THEN conjunct2]
  have refs: "\<forall>x \<in> set res. mr_ref x < length (e_rules e) \<and> relevant p (e_rules e) (mr_ref x)"
    using full.matchInRules_refs [OF r] by auto
  have mono: "ref_priority (e_rules e) i \<le> ref_priority (e_rules e) j" if "i < j" "j < length (e_rules e)" for i j
    using SetRules_inv [OF assms(1)] that
    by (simp add: engine_inv_def ordered_def sorted_iff_nth_mono ref_priority_def)
  have "sorted (map (\<lambda>x. r_priority (mr_rule x)) res)"
    unfolding sorted_map sorted_wrt_map [symmetric]
  proof (rule sorted_wrt_mono_rel [OF _ shape(1) [unfolded sorted_wrt_map]])
    fix x y assume "x \<in> set res" "y \<in> set res" "mr_ref x < mr_ref y"
    then show "r_priority (mr_rule x) \<le> r_priority (mr_rule y)"
      using mono [of "mr_ref x" "mr_ref y"] shape(3) refs
      by (simp add: ref_priority_def same_config_def)
  qed
  with shape refs show ?thesis by simp
qed


text \<open>
  \<^verbatim>\<open>SetRules\<close> keeps one enabled rule per configuration entry, orders them by priority, and
  keeps the configured order among rules of equal priority (the stable sort of the code); each
  wrapper carries its position as \<^verbatim>\<open>seq\<close>.
\<close>

theorem set_rules_stable_order:
  assumes "SetRules L cfgs e0 = Inr e"
  shows "sorted (map (\<lambda>w. r_priority (w_rule w)) (e_rules e))
    \<and> (\<exists>rs. list_all2 (\<lambda>cfg r. newRule L (e_providers e0) (e_subEngines e0) cfg = Inr r) cfgs rs
        \<and> mset (map w_rule (e_rules e)) = mset rs
        \<and> (\<forall>k. filter (\<lambda>r. r_priority r = k) (map w_rule (e_rules e)) = filter (\<lambda>r. r_priority r = k) rs))
    \<and> (\<forall>i < length (e_rules e). w_seq (e_rules e ! i) = i \<and> \<not> w_disabled (e_rules e ! i))"
proof -
  from SetRules_rules [OF assms] obtain rs where
    rs: "new_rules L (e_providers e0) (e_subEngines e0) cfgs = Inr rs"
    and w: "e_rules e = wrap_rules (sort_key r_priority rs)" by auto
  have "ordered (e_rules e)" using SetRules_inv [OF assms] by (simp add: engine_inv_def)
  moreover have "\<forall>k. filter (\<lambda>r. r_priority r = k) (sort_key r_priority rs) = filter (\<lambda>r. r_priority r = k) rs"
    by (metis sort_key_stable)
  ultimately show ?thesis
    using new_rules_all2 [OF rs]
    by (intro conjI exI [of _ rs]) (auto simp: ordered_def w wrap_rules_nth newRuleWrapper_def)
qed

section \<open>Sub-rule groups\<close>

lemma newRule_no_ref:
  "newRule L ps [] cfg = Inr r \<Longrightarrow> extractSubRuleRef (rc_match cfg) = []"
  by (auto simp: newRule_def extractSubRuleRef_def Let_def has_prefix_def split: if_splits option.splits)

lemma SetRules_no_ref:
  assumes "SetRules L cfgs e0 = Inr e" and "e_subEngines e0 = []" and "cfg \<in> set cfgs"
  shows "extractSubRuleRef (rc_match cfg) = []"
proof -
  from SetRules_rules [OF assms(1)] obtain rs where "new_rules L (e_providers e0) [] cfgs = Inr rs"
    using assms(2) by auto
  from new_rules_all2 [OF this] assms(3) show ?thesis
    by (auto simp: list_all2_conv_all_nth in_set_conv_nth intro: newRule_no_ref)
qed

lemma checkRefs_none:
  "\<forall>rc \<in> set rcs. extractSubRuleRef (rc_match rc) = [] \<Longrightarrow> checkRefs groups rcs chain = None"
  by (induction rcs) simp_all

definition leaf_engine :: "engine \<Rightarrow> bool" where
  "leaf_engine e \<longleftrightarrow> engine_inv e \<and> (\<forall>w \<in> set (e_rules e). \<forall>a. r_kind (w_rule w) \<noteq> SubRuleRef a)"

lemma build_subs_spec:
  "build_subs L ps groups heap = Inr (tbl, heap') \<Longrightarrow>
   (\<exists>news. heap' = heap @ news \<and> length news = length groups \<and> list_all leaf_engine news)
   \<and> map fst tbl = map fst groups
   \<and> (\<forall>(n, a) \<in> set tbl. length heap \<le> a \<and> a < length heap')
   \<and> (\<forall>(n, cfgs) \<in> set groups. \<forall>cfg \<in> set cfgs. extractSubRuleRef (rc_match cfg) = [])"
proof (induction groups arbitrary: heap tbl)
  case Nil
  then show ?case by simp
next
  case (Cons g groups)
  obtain name cfgs where g: "g = (name, cfgs)" by (cases g)
  from Cons.prems g obtain sub tbl' where
    sub: "SetRules L cfgs (NewEngine\<lparr>e_providers := ps\<rparr>) = Inr sub"
    and b: "build_subs L ps groups (heap @ [sub]) = Inr (tbl', heap')"
    and tbl: "tbl = (name, length heap) # tbl'"
    by (auto split: sum.splits)
  have "leaf_engine sub"
    using SetRules_inv [OF sub] SetRules_ok [OF sub] by (simp add: leaf_engine_def NewEngine_def)
  moreover have "\<forall>cfg \<in> set cfgs. extractSubRuleRef (rc_match cfg) = []"
    using SetRules_no_ref [OF sub] by (simp add: NewEngine_def)
  ultimately show ?case using Cons.IH [OF b] g tbl by fastforce
qed

text \<open>
  Sub-rule groups are flat. When the engines of the groups can be built, no rule of a group
  refers to a sub-rule (a nested reference is always rejected, because the engine of a group has
  no sub-rule engines), so the circularity check that follows accepts; the table then names a new
  engine for every group, in which no rule is a sub-rule reference, and the engines that existed
  before are untouched.
\<close>

theorem sub_rule_groups_flat:
  assumes "build_subs L (e_providers e) groups (rw_engines wld) = Inr (tbl, heap)"
  shows "SetSubRules L groups e wld = Inr (e\<lparr>e_subEngines := tbl\<rparr>, wld\<lparr>rw_engines := heap\<rparr>)
    \<and> map fst tbl = map fst groups
    \<and> (\<forall>(n, a) \<in> set tbl. length (rw_engines wld) \<le> a \<and> a < length heap \<and> leaf_engine (heap ! a))
    \<and> take (length (rw_engines wld)) heap = rw_engines wld"
proof -
  note spec = build_subs_spec [OF assms]
  then obtain news where heap: "heap = rw_engines wld @ news" and leaf: "list_all leaf_engine news" by auto
  have "checkCircular groups name [] = None" if "name \<in> set (map fst groups)" for name
  proof -
    have "\<forall>cfg \<in> set (group_rules groups name). extractSubRuleRef (rc_match cfg) = []"
      using bspec [OF spec [THEN conjunct2, THEN conjunct2, THEN conjunct2] map_of_SomeD]
      by (cases "map_of groups name") (simp_all add: group_rules_def)
    then show ?thesis by (simp add: checkCircular.simps checkRefs_none)
  qed
  moreover have "first_error f xs = None" if "\<forall>x \<in> set xs. f x = None" for f :: "string \<Rightarrow> rule_error option" and xs
    using that by (induction xs) simp_all
  ultimately have "detectCircularSubRules groups = None" by (simp add: detectCircularSubRules_def)
  moreover have "leaf_engine (heap ! a)" if "length (rw_engines wld) \<le> a" "a < length heap" for a
    using leaf that by (simp add: heap nth_append list_all_length)
  ultimately show ?thesis
    using spec by (intro conjI) (simp_all add: SetSubRules_def assms, auto simp: heap)
qed

section \<open>Where the index and the language disagree\<close>

text \<open>
  The driver filter is read off the text before the first conjunction, so a rule of the form
  \<^verbatim>\<open>driver == 'a' && x || y\<close> is indexed under \<open>a\<close> although its second disjunct does not
  mention the driver. On a point of another driver that satisfies \<open>y\<close> the scan of all rules
  matches, \<^verbatim>\<open>Match\<close> does not.
\<close>

definition or_match :: string where
  "or_match = ''driver == '' @ [quote] @ ''a'' @ [quote] @ '' && tag == '' @ [quote] @ ''t'' @ [quote]
     @ '' || tag == '' @ [quote] @ ''u'' @ [quote]"

lemma or_match_filter: "extractDriverFilter or_match = ''a''"
  by code_simp

lemma or_match_not_all: "\<not> equal_fold or_match ''ALL''"
  by code_simp

lemma index_misses_disjunction:
  assumes "newSimpleRule L cfg = Inr r" and "rc_match cfg = or_match"
    and "e = NewEngine\<lparr>e_rules := wrap_rules [r], e_driverIndex := [(''a'', [0])]\<rparr>"
    and "dp_driver p \<noteq> ''a''"
    and "fst (leaf_Match L now r p wld)"
  shows "engine_inv e
    \<and> fst (Match (leaf_Match L now) now p e wld) = []
    \<and> fst (matchInRules (leaf_Match L now) now p [0..<1] (e_rules e, wld)) \<noteq> []"
proof -
  have f: "DriverFilter r = ''a''"
    using assms(1,2) or_match_filter or_match_not_all
    by (auto simp: newSimpleRule_def Let_def DriverFilter_def split: sum.splits)
  have 0: "wrap_rules [r] ! 0 = (newRuleWrapper r)\<lparr>w_seq := 0\<rparr>" using wrap_rules_nth [of 0 "[r]"] by simp
  have inv: "engine_inv e"
    using f 0 by (auto simp: engine_inv_def assms(3) NewEngine_def ordered_wrap_rules indexed_def bucket_def
        filter_at_def newRuleWrapper_def)
  have "filter (relevant p (e_rules e)) [0..<length (e_rules e)] = []"
    using f 0 assms(4) by (simp add: assms(3) relevant_def filter_at_def newRuleWrapper_def)
  then have "fst (Match (leaf_Match L now) now p e wld) = []"
    using leaf.Match_char [OF inv] by simp
  moreover have "fst (matchInRules (leaf_Match L now) now p [0..<1] (e_rules e, wld)) \<noteq> []"
    using assms(5) 0
    by (auto simp: assms(3) tryMatch_def wrapper_Match_def newRuleWrapper_def Let_def simp del: leaf_Match.simps
        split: prod.splits option.splits if_splits)
  ultimately show ?thesis using inv by blast
qed

section \<open>Witnesses\<close>

definition demo_cfg :: "string \<Rightarrow> string \<Rightarrow> int \<Rightarrow> bool \<Rightarrow> rule_config" where
  "demo_cfg n mtch prio cont = \<lparr>rc_name = n, rc_match = mtch, rc_action = ''forward'', rc_target = ''mqtt'',
     rc_targets = [], rc_priority = prio, rc_transform = None, rc_continue = cont\<rparr>"

definition demo_match :: string where
  "demo_match = ''driver=='' @ [quote] @ ''a'' @ [quote]"

text \<open>A language with the one expression \<open>demo_match\<close>.\<close>

definition scope_lang :: expr_lang where
  "scope_lang = \<lparr>xl_compile = (\<lambda>_. None),
     xl_run = (\<lambda>prog env. if prog = demo_match
        then Inr (VBool (map_of env ''driver'' = Some (VString ''a''))) else Inl ''unknown''),
     xl_compile_arith = (\<lambda>_. None)\<rparr>"

definition demo_rule :: "string \<Rightarrow> string \<Rightarrow> int \<Rightarrow> bool \<Rightarrow> matcher option \<Rightarrow> string \<Rightarrow> rule" where
  "demo_rule n mtch prio cont mt flt = \<lparr>r_name = n, r_matchExpr = mtch, r_action = ActionForward,
     r_target = ''mqtt'', r_targets = [''mqtt''], r_priority = prio, r_transform = None,
     r_continue = cont, r_kind = SimpleRule mt flt\<rparr>"

definition demo_node :: matcher where
  "demo_node = ExprLangNode \<lparr>en_program = demo_match, en_errCount = 0, en_errAt = 0, en_warned = False\<rparr>"

definition demo_engine :: engine where
  "demo_engine = NewEngine\<lparr>e_rules := wrap_rules
     [demo_rule ''r0'' ''ALL'' 1 True None [], demo_rule ''r1'' demo_match 5 False (Some demo_node) ''a''],
     e_driverIndex := [(''a'', [1])], e_universalRules := [0]\<rparr>"

definition demo_cfgs :: "rule_config list" where
  "demo_cfgs = [demo_cfg ''r1'' demo_match 5 False, demo_cfg ''r0'' ''ALL'' 1 True]"

lemma demo_translate: "translateExpr demo_match = demo_match"
  by code_simp

lemma demo_texts:
  "trim_space demo_match = demo_match" "has_prefix (to_upper demo_match) ''RULE-SET:'' = False"
  "has_prefix (to_upper demo_match) ''SUB-RULE:'' = False" "equal_fold demo_match ''ALL'' = False"
  "extractDriverFilter demo_match = ''a''" "demo_match \<noteq> []"
  by code_simp+

lemma demo_all:
  "trim_space ''ALL'' = ''ALL''" "has_prefix (to_upper ''ALL'') ''RULE-SET:'' = False"
  "has_prefix (to_upper ''ALL'') ''SUB-RULE:'' = False" "equal_fold ''ALL'' ''ALL'' = True"
  "extractDriverFilter ''ALL'' = []" "parseAction ''forward'' = Inr ActionForward"
  by code_simp+

lemma demo_SetRules: "SetRules scope_lang demo_cfgs NewEngine = Inr demo_engine"
proof -
  have "newRule scope_lang [] [] (demo_cfg ''r1'' demo_match 5 False) =
      Inr (demo_rule ''r1'' demo_match 5 False (Some demo_node) ''a'')"
    by (simp add: newRule_def newSimpleRule_def demo_texts demo_all demo_cfg_def demo_rule_def
        effective_targets_def compileExpr_def demo_translate scope_lang_def demo_node_def)
  moreover have "newRule scope_lang [] [] (demo_cfg ''r0'' ''ALL'' 1 True) =
      Inr (demo_rule ''r0'' ''ALL'' 1 True None [])"
    by (simp add: newRule_def newSimpleRule_def demo_texts demo_all demo_cfg_def demo_rule_def
        effective_targets_def)
  ultimately show ?thesis
    by (simp add: SetRules_def demo_cfgs_def demo_engine_def NewEngine_def demo_rule_def wrap_rules_def
        index_one_def DriverFilter_def newRuleWrapper_def insort_key.simps)
qed

definition demo_p :: data_point where
  "demo_p = (demo_point (VBool True))\<lparr>dp_driver := ''b''\<rparr>"

definition demo_world :: rule_world where
  "demo_world = \<lparr>rw_providers = [], rw_engines = []\<rparr>"

lemma demo_rules:
  "e_rules demo_engine = wrap_rules
     [demo_rule ''r0'' ''ALL'' 1 True None [], demo_rule ''r1'' demo_match 5 False (Some demo_node) ''a'']"
  by (simp add: demo_engine_def)

lemma demo_scope: "scope_respected scope_lang 7 demo_p demo_engine"
  by (simp add: scope_respected_def demo_rules wrap_rules_def newRuleWrapper_def demo_rule_def demo_node_def
      eval_def scope_lang_def pointEnv_def demo_p_def demo_point_def)

lemmas demo_eval = demo_rules wrap_rules_def newRuleWrapper_def demo_rule_def demo_node_def eval_def
  scope_lang_def pointEnv_def demo_p_def demo_point_def tryMatch_def wrapper_Match_def rule_Match_def
  mk_result_def result_targets_def demo_all demo_texts

lemma demo_scan:
  "matchInRules (rule_Match scope_lang 7) 7 demo_p [0..<2] (e_rules demo_engine, demo_world) =
    ([mk_result 0 (demo_rule ''r0'' ''ALL'' 1 True None [])],
     [(e_rules demo_engine ! 0)\<lparr>w_hitCount := 1, w_hitAt := 7\<rparr>,
      (e_rules demo_engine ! 1)\<lparr>w_missCount := 1, w_missAt := 7\<rparr>], demo_world)"
  by (simp add: upt_rec demo_eval)

theorem match_index_is_linear_scan_witness:
  "Match (rule_Match scope_lang 7) 7 demo_p demo_engine demo_world =
    ([mk_result 0 (demo_rule ''r0'' ''ALL'' 1 True None [])],
     demo_engine\<lparr>e_rules := [(e_rules demo_engine ! 0)\<lparr>w_hitCount := 1, w_hitAt := 7\<rparr>,
      (e_rules demo_engine ! 1)\<lparr>w_missCount := 1, w_missAt := 7\<rparr>]\<rparr>, demo_world)"
proof -
  have "length (e_rules demo_engine) = 2" by (simp add: demo_rules)
  then show ?thesis
    using match_index_is_linear_scan [OF demo_SetRules demo_scope, of demo_world] demo_scan by simp
qed

definition demo_after :: engine where
  "demo_after = fst (snd (Match (rule_Match scope_lang 7) 7 demo_p demo_engine demo_world))"

lemma demo_Match:
  "Match (rule_Match scope_lang 7) 7 demo_p demo_engine demo_world =
     ([mk_result 0 (demo_rule ''r0'' ''ALL'' 1 True None [])], demo_after, demo_world)"
proof -
  have "length (e_rules demo_engine) = 2" by (simp add: demo_rules)
  then show ?thesis
    using full.Match_linear [OF SetRules_inv [OF demo_SetRules], of demo_p scope_lang 7 7 demo_world]
      scope_respected_quiet [OF demo_SetRules demo_scope] demo_scan
    by (simp add: demo_after_def)
qed

theorem match_results_ordered_witness:
  "\<not> w_disabled (e_rules demo_engine ! 0) \<and> relevant demo_p (e_rules demo_engine) 0"
  using match_results_ordered [OF demo_SetRules demo_Match] by (simp add: mk_result_def)


theorem set_rules_stable_order_witness:
  "sorted (map (\<lambda>w. r_priority (w_rule w)) (e_rules demo_engine)) \<and> length (e_rules demo_engine) = 2"
  using set_rules_stable_order [OF demo_SetRules] by (simp add: demo_rules)

theorem sub_rule_groups_flat_witness:
  "SetSubRules scope_lang [(''g'', demo_cfgs)] NewEngine demo_world =
     Inr (NewEngine\<lparr>e_subEngines := [(''g'', 0)]\<rparr>, demo_world\<lparr>rw_engines := [demo_engine]\<rparr>)
   \<and> leaf_engine demo_engine"
proof -
  have e: "NewEngine\<lparr>e_providers := []\<rparr> = NewEngine" "e_providers NewEngine = []"
    by (simp_all add: NewEngine_def)
  have b: "build_subs scope_lang (e_providers NewEngine) [(''g'', demo_cfgs)] (rw_engines demo_world)
      = Inr ([(''g'', 0)], [demo_engine])"
    by (simp add: e demo_SetRules demo_world_def)
  from sub_rule_groups_flat [OF b] show ?thesis by simp
qed

end
