(* ===== verification/Go_Fmt.thy ===== *)
theory Go_Fmt
  imports Prelude
begin

text \<open>
  The parts of the Go language and standard library that several components share: 64-bit
  \<^verbatim>\<open>int\<close> arithmetic, \<^verbatim>\<open>strconv.Quote\<close>, \<^verbatim>\<open>strconv.Atoi\<close> on digits, \<^verbatim>\<open>time.Duration.String\<close>,
  and \<^verbatim>\<open>time.Duration.Round\<close>. Strings are byte lists; \<^verbatim>\<open>Quote\<close> is
  given for ASCII input, bytes above 127 are copied.
\<close>

section \<open>64-bit integers\<close>

text \<open>The value of a Go \<^verbatim>\<open>int\<close> or \<^verbatim>\<open>int64\<close> expression whose mathematical value is \<open>x\<close>.\<close>

definition i64 :: "int \<Rightarrow> int" where
  "i64 x = signed_take_bit 63 x"

definition maxInt64 :: int where "maxInt64 = 2 ^ 63 - 1"

lemma i64_id [simp, go_simps]: "- (2 ^ 63) \<le> x \<Longrightarrow> x < 2 ^ 63 \<Longrightarrow> i64 x = x"
  unfolding i64_def by (rule signed_take_bit_int_eq_self) auto

lemma i64_range: "- (2 ^ 63) \<le> i64 x \<and> i64 x < 2 ^ 63"
  unfolding i64_def
  using signed_take_bit_int_greater_eq_minus_exp [of 63 x] signed_take_bit_int_less_exp [of 63 x] by simp

text \<open>\<^verbatim>\<open>strconv.Atoi\<close> on a non-empty string of digits, with its range error ignored.\<close>

definition atoi_digits :: "string \<Rightarrow> int" where
  "atoi_digits s = min (int (digits_val s)) maxInt64"

lemma atoi_digits_nonneg [simp]: "0 \<le> atoi_digits s"
  by (simp add: atoi_digits_def maxInt64_def)

section \<open>Text\<close>

definition hex_digit :: "nat \<Rightarrow> char" where
  "hex_digit n = ''0123456789abcdef'' ! n"

definition quote_char :: "char \<Rightarrow> string" where
  "quote_char c =
     (let n = of_char c :: nat
      in if c = CHR 0x22 \<or> c = CHR 0x5C then [CHR 0x5C, c]
         else if n = 7 then [CHR 0x5C, CHR ''a'']
         else if n = 8 then [CHR 0x5C, CHR ''b'']
         else if n = 9 then [CHR 0x5C, CHR ''t'']
         else if n = 10 then [CHR 0x5C, CHR ''n'']
         else if n = 11 then [CHR 0x5C, CHR ''v'']
         else if n = 12 then [CHR 0x5C, CHR ''f'']
         else if n = 13 then [CHR 0x5C, CHR ''r'']
         else if n < 32 \<or> n = 127 then [CHR 0x5C, CHR ''x'', hex_digit (n div 16), hex_digit (n mod 16)]
         else [c])"

definition go_quote :: "string \<Rightarrow> string" where
  "go_quote s = [CHR 0x22] @ concat (map quote_char s) @ [CHR 0x22]"

lemma contains_middle: "contains_str (a @ p @ b) p"
  unfolding contains_str_iff by blast

section \<open>Durations\<close>

definition pad_zeros :: "nat \<Rightarrow> string \<Rightarrow> string" where
  "pad_zeros n s = replicate (n - length s) CHR ''0'' @ s"

definition strip_zeros :: "string \<Rightarrow> string" where
  "strip_zeros s = rev (dropWhile (\<lambda>c. c = CHR ''0'') (rev s))"

text \<open>\<^verbatim>\<open>fmtFrac\<close>: the fraction of \<open>v / 10 ^ prec\<close> without trailing zeros.\<close>

definition fmt_frac :: "nat \<Rightarrow> nat \<Rightarrow> string" where
  "fmt_frac v prec =
     (let ds = strip_zeros (pad_zeros prec (show_nat (v mod 10 ^ prec)))
      in if ds = [] then [] else CHR ''.'' # ds)"

definition duration_abs_string :: "nat \<Rightarrow> string" where
  "duration_abs_string u =
     (if u = 0 then ''0s''
      else if u < 1000 then show_nat u @ ''ns''
      else if u < 1000000 then show_nat (u div 1000) @ fmt_frac u 3 @ [char_of (194 :: nat), char_of (181 :: nat)] @ ''s''
      else if u < 1000000000 then show_nat (u div 1000000) @ fmt_frac u 6 @ ''ms''
      else let sec = u div 1000000000;
               s = show_nat (sec mod 60) @ fmt_frac u 9 @ ''s'';
               mins = sec div 60
           in if mins = 0 then s
              else let ms = show_nat (mins mod 60) @ ''m'' @ s; h = mins div 60
                   in if h = 0 then ms else show_nat h @ ''h'' @ ms)"

definition duration_string :: "time \<Rightarrow> string" where
  "duration_string d = (if d < 0 then CHR ''-'' # duration_abs_string (nat (- d)) else duration_abs_string (nat d))"

text \<open>\<^verbatim>\<open>d.Round(m)\<close> for positive \<open>m\<close>: to the nearest multiple, halfway cases away from zero.\<close>

definition duration_round :: "time \<Rightarrow> time \<Rightarrow> time" where
  "duration_round d m =
     (let a = \<bar>d\<bar>; r = a mod m; up = (if 2 * r < m then a - r else a + m - r)
      in if d < 0 then - up else up)"

lemma duration_round_close: "0 < m \<Longrightarrow> 2 * \<bar>duration_round d m - d\<bar> \<le> m"
proof -
  assume m: "0 < m"
  have "0 \<le> \<bar>d\<bar> mod m" "\<bar>d\<bar> mod m < m" using m by auto
  then show ?thesis by (auto simp: duration_round_def Let_def)
qed

end
