(* ===== verification/Write_Manager.thy ===== *)
theory Write_Manager
  imports Core_Types Go_Fmt "HOL-Library.List_Lexorder" "HOL-Library.Char_ord"
begin

text \<open>
  The write path, \<^verbatim>\<open>engine/write_manager.go\<close> with \<^verbatim>\<open>write_pacing.go\<close>, \<^verbatim>\<open>tag_protect.go\<close> and the
  in-memory part of \<^verbatim>\<open>write_audit_store.go\<close>: the single choke point \<^verbatim>\<open>WriteTag\<close> with protection,
  pacing and audit, the retry loop of a command with forwarding, and the dead-letter queue.

  Drivers and command forwarders are interfaces with implementations outside this component: an
  \<open>engine_view\<close> gives for every name the operation the registry would call, acting on a state
  \<open>'s\<close> of devices and networks. A call that reads the clock takes the readings as arguments.
  The on-disk mirrors of the queue and of the trail (\<^verbatim>\<open>engine/jsonl_store.go\<close>) are not modelled; the
  state records the path of an open store.
\<close>

section \<open>Write protection\<close>

fun tagWriteProtectionReason :: "tag_config list \<Rightarrow> string \<Rightarrow> string" where
  "tagWriteProtectionReason [] n = []"
| "tagWriteProtectionReason (t # ts) n =
     (if tc_name t \<noteq> n then tagWriteProtectionReason ts n
      else if tc_protect t = ''read-only'' then ''tag '' @ go_quote n @ '' is read-only (protect: read-only)''
      else [])"

fun isWriteOnlyTag :: "tag_config list \<Rightarrow> string \<Rightarrow> bool" where
  "isWriteOnlyTag [] n = False"
| "isWriteOnlyTag (t # ts) n = (if tc_name t = n then tc_protect t = ''write-only'' else isWriteOnlyTag ts n)"

section \<open>Pacing\<close>

record write_pacer =
  wp_last :: "string \<rightharpoonup> time"
  wp_interval :: time

definition newWritePacer :: write_pacer where
  "newWritePacer = \<lparr>wp_last = Map.empty, wp_interval = 0\<rparr>"

definition setInterval :: "time \<Rightarrow> write_pacer \<Rightarrow> write_pacer" where
  "setInterval interval p =
     (let p = p\<lparr>wp_interval := interval\<rparr>
      in if interval \<le> 0 then p\<lparr>wp_last := Map.empty\<rparr> else p)"

definition paced_error :: "string \<Rightarrow> time \<Rightarrow> time \<Rightarrow> string" where
  "paced_error driver interval wait =
     ''write paced: driver '' @ go_quote driver @ '' accepts a write every '' @ duration_string interval
     @ '' (retry in '' @ duration_string (duration_round wait millisecond) @ '')''"

definition pacer_check :: "time \<Rightarrow> string \<Rightarrow> write_pacer \<Rightarrow> string option" where
  "pacer_check now driver p =
     (if wp_interval p \<le> 0 then None
      else case wp_last p driver of
             Some prev \<Rightarrow> if now - prev < wp_interval p
                          then Some (paced_error driver (wp_interval p) (wp_interval p - (now - prev)))
                          else None
           | None \<Rightarrow> None)"

definition pacer_record :: "time \<Rightarrow> string \<Rightarrow> write_pacer \<Rightarrow> write_pacer" where
  "pacer_record now driver p =
     (if wp_interval p \<le> 0 then p else p\<lparr>wp_last := (wp_last p)(driver \<mapsto> now)\<rparr>)"

definition pacer_forget :: "string \<Rightarrow> write_pacer \<Rightarrow> write_pacer" where
  "pacer_forget driver p = p\<lparr>wp_last := (wp_last p)(driver := None)\<rparr>"

section \<open>State\<close>

record write_manager =
  wm_retryCount :: nat
  wm_commandConcurrency :: nat
  wm_dlQueue :: "dead_letter_entry list"
  wm_dlMax :: nat
  wm_dlPushed :: nat
  wm_dlStore :: "string option"
  wm_audits :: "write_audit_entry list"
  wm_auditStore :: "string option"
  wm_pacer :: write_pacer

definition writeAuditCapacity :: nat where "writeAuditCapacity = 1000"

type_synonym 's driver_write =
  "write_command list \<Rightarrow> 's \<Rightarrow> (string, write_result list) result \<times> 's"

type_synonym 's forwarder = "write_command \<Rightarrow> 's \<Rightarrow> (string, unit) result \<times> 's"

record 's engine_view =
  ev_drivers :: "string \<Rightarrow> 's driver_write option"
  ev_driverConfigs :: "string \<Rightarrow> tag_config list option"
  ev_transports :: "(string \<times> 's forwarder option) list"

section \<open>The bounded trail and queue\<close>

definition trail_record :: "write_audit_entry \<Rightarrow> write_manager \<Rightarrow> write_manager" where
  "trail_record entry w =
     (let items = wm_audits w @ [entry]
      in w\<lparr>wm_audits := (if length items > writeAuditCapacity
             then drop (length items - writeAuditCapacity) items else items)\<rparr>)"

definition audit_entry :: "time \<Rightarrow> write_command \<Rightarrow> bool \<Rightarrow> string \<Rightarrow> write_audit_entry" where
  "audit_entry now cmd success errMsg =
     \<lparr>wa_timestamp = now, wa_driver = wc_driver cmd, wa_device = wc_device cmd, wa_tag = wc_tag cmd,
      wa_value = wc_value cmd, wa_type = wc_type cmd, wa_success = success, wa_error = errMsg,
      wa_source = wc_source cmd, wa_remote = wc_remote cmd, wa_raw = wc_raw cmd\<rparr>"

definition recordWriteAudit :: "time \<Rightarrow> write_command \<Rightarrow> bool \<Rightarrow> string \<Rightarrow> write_manager \<Rightarrow> write_manager" where
  "recordWriteAudit now cmd success errMsg w = trail_record (audit_entry now cmd success errMsg) w"

definition WriteHistory :: "write_manager \<Rightarrow> write_audit_entry list" where
  "WriteHistory w = rev (wm_audits w)"

definition addDeadLetter :: "dead_letter_entry \<Rightarrow> write_manager \<Rightarrow> write_manager" where
  "addDeadLetter entry w =
     (let q = wm_dlQueue w @ [entry]
      in w\<lparr>wm_dlQueue := (if length q > wm_dlMax w then drop (length q - wm_dlMax w) q else q),
           wm_dlPushed := wm_dlPushed w + 1\<rparr>)"

definition DeadLetterStats :: "write_manager \<Rightarrow> nat \<times> nat" where
  "DeadLetterStats w = (length (wm_dlQueue w), wm_dlPushed w)"

definition DeadLetterEntries :: "write_manager \<Rightarrow> dead_letter_entry list" where
  "DeadLetterEntries w = wm_dlQueue w"

section \<open>WriteTag\<close>

text \<open>An error of \<^verbatim>\<open>WriteTag\<close>: its text, and whether it wraps \<^verbatim>\<open>core.ErrWritePaced\<close>.\<close>

datatype write_error = WErr (err_text: string) | WPaced (err_text: string)

text \<open>The clock readings of one call: in \<^verbatim>\<open>check\<close>, for the audit entry, and in \<^verbatim>\<open>record\<close>.\<close>

type_synonym readings = "time \<times> time \<times> time"

definition protection :: "'s engine_view \<Rightarrow> write_command \<Rightarrow> string" where
  "protection V cmd =
     (case ev_driverConfigs V (wc_driver cmd) of
        Some tags \<Rightarrow> tagWriteProtectionReason tags (wc_tag cmd)
      | None \<Rightarrow> [])"

definition WriteTag ::
  "'s engine_view \<Rightarrow> readings \<Rightarrow> write_command \<Rightarrow> write_manager \<Rightarrow> 's \<Rightarrow>
   (write_error, write_result) result \<times> write_manager \<times> 's" where
  "WriteTag V tm cmd w s =
     (case tm of (tcheck, taudit, trecord) \<Rightarrow>
      let fail = (\<lambda>e w s. (Inl e, recordWriteAudit taudit cmd False (err_text e) w, s))
      in case ev_drivers V (wc_driver cmd) of
           None \<Rightarrow> fail (WErr (''driver not found: '' @ wc_driver cmd)) w s
         | Some d \<Rightarrow>
             if protection V cmd \<noteq> [] then fail (WErr (protection V cmd)) w s
             else case pacer_check tcheck (wc_driver cmd) (wm_pacer w) of
                    Some err \<Rightarrow> fail (WPaced err) w s
                  | None \<Rightarrow>
                      (case d [cmd] s of
                         (Inl err, s') \<Rightarrow> fail (WErr err) w s'
                       | (Inr [], s') \<Rightarrow> fail (WErr ''no result returned'') w s'
                       | (Inr (res # _), s') \<Rightarrow>
                           let w' = recordWriteAudit taudit cmd (wr_success res) (wr_error res) w
                           in (Inr res,
                               if wr_success res
                               then w'\<lparr>wm_pacer := pacer_record trecord (wc_driver cmd) (wm_pacer w')\<rparr>
                               else w', s')))"

section \<open>Commands\<close>

fun try_forwarders ::
  "write_command \<Rightarrow> (string \<times> 's forwarder option) list \<Rightarrow> 's \<Rightarrow> bool \<times> 's" where
  "try_forwarders cmd [] s = (False, s)"
| "try_forwarders cmd ((n, None) # ts) s = try_forwarders cmd ts s"
| "try_forwarders cmd ((n, Some f) # ts) s =
     (case f cmd s of (Inl _, s') \<Rightarrow> try_forwarders cmd ts s' | (Inr _, s') \<Rightarrow> (True, s'))"

definition forwardCommand :: "'s engine_view \<Rightarrow> write_command \<Rightarrow> 's \<Rightarrow> bool \<times> 's" where
  "forwardCommand V cmd s = try_forwarders cmd (sort_key fst (ev_transports V)) s"

definition permanentWriteErrPatterns :: "string list" where
  "permanentWriteErrPatterns =
     [''tag not found'', ''read-only area'', ''protect: read-only'', ''is not supported on'',
      ''expected bool value'', ''unsupported write type'', ''failed to create variant'', ''s7 encode'']"

definition isPermanentWriteError :: "string \<Rightarrow> bool" where
  "isPermanentWriteError errStr \<longleftrightarrow> list_ex (contains_str errStr) permanentWriteErrPatterns"

definition defaultRetryBaseDelay :: time where "defaultRetryBaseDelay = 100 * millisecond"
definition defaultCommandRetryMaxDelay :: time where "defaultCommandRetryMaxDelay = 2 * second"

text \<open>
  The delay before retry \<open>attempt + 1\<close>: \<^verbatim>\<open>1<<attempt\<close> and the product are \<^verbatim>\<open>int64\<close> values.
\<close>

definition retry_delay :: "nat \<Rightarrow> time" where
  "retry_delay attempt =
     (let delay = i64 (defaultRetryBaseDelay * i64 (2 ^ attempt))
      in if delay > defaultCommandRetryMaxDelay then defaultCommandRetryMaxDelay else delay)"

definition dead_letter :: "time \<Rightarrow> write_command \<Rightarrow> string \<Rightarrow> nat \<Rightarrow> dead_letter_entry" where
  "dead_letter now cmd err n =
     \<lparr>dl_command = cmd, dl_error = err, dl_failed_at = now, dl_attempts = n, dl_transport = []\<rparr>"

text \<open>
  How a command ends: handed to a downstream node, accepted by the device at some attempt, in the
  dead-letter queue, or abandoned because the engine shut down during the backoff wait.
\<close>

datatype outcome = Forwarded | Written nat | DeadLettered | Abandoned nat

text \<open>
  \<open>clk\<close> gives the clock readings of each attempt, \<open>cancel\<close> tells whether the engine context is
  cancelled in the wait after an attempt, \<open>tdl\<close> is the reading for a dead letter.
\<close>

fun retry_loop ::
  "'s engine_view \<Rightarrow> write_command \<Rightarrow> (nat \<Rightarrow> readings) \<Rightarrow> (nat \<Rightarrow> bool) \<Rightarrow> time \<Rightarrow> nat \<Rightarrow> nat \<Rightarrow> nat \<Rightarrow>
   string \<Rightarrow> write_manager \<Rightarrow> 's \<Rightarrow> outcome \<times> write_manager \<times> 's" where
  "retry_loop V cmd clk cancel tdl maxAttempts 0 attempt lastErr w s =
     (DeadLettered, addDeadLetter (dead_letter tdl cmd lastErr maxAttempts) w, s)"
| "retry_loop V cmd clk cancel tdl maxAttempts (Suc n) attempt lastErr w s =
     (case WriteTag V (clk attempt) cmd w s of
        (r, w', s') \<Rightarrow>
          let verdict = (case r of Inl e \<Rightarrow> Some (err_text e)
                         | Inr res \<Rightarrow> if wr_success res then None else Some (wr_error res))
          in case verdict of
               None \<Rightarrow> (Written (attempt + 1), w', s')
             | Some err \<Rightarrow>
                 if isPermanentWriteError err
                 then (DeadLettered, addDeadLetter (dead_letter tdl cmd err (attempt + 1)) w', s')
                 else if attempt < maxAttempts - 1 \<and> cancel attempt
                 then (Abandoned (attempt + 1), w', s')
                 else retry_loop V cmd clk cancel tdl maxAttempts n (attempt + 1) err w' s')"

definition executeWriteWithRetry ::
  "'s engine_view \<Rightarrow> (nat \<Rightarrow> readings) \<Rightarrow> (nat \<Rightarrow> bool) \<Rightarrow> time \<Rightarrow> write_command \<Rightarrow> write_manager \<Rightarrow> 's \<Rightarrow>
   outcome \<times> write_manager \<times> 's" where
  "executeWriteWithRetry V clk cancel tdl cmd w s =
     (if ev_drivers V (wc_driver cmd) = None
      then case forwardCommand V cmd s of
             (True, s') \<Rightarrow> (Forwarded, w, s')
           | (False, s') \<Rightarrow>
               (DeadLettered,
                addDeadLetter (dead_letter tdl cmd
                  (''driver not found: '' @ wc_driver cmd @ '' (no forwarder configured)'') 1) w, s')
      else let maxAttempts = wm_retryCount w + 1
           in retry_loop V cmd clk cancel tdl maxAttempts maxAttempts 0 [] w s)"

text \<open>
  The exit of a command listener: the command it holds, if any, and every buffered one are
  dead-lettered in order.
\<close>

definition strand :: "time \<Rightarrow> write_command \<Rightarrow> write_manager \<Rightarrow> write_manager" where
  "strand now cmd w =
     addDeadLetter (dead_letter now (cmd\<lparr>wc_source := ''command''\<rparr>) ''transport removed before dispatch'' 0) w"

definition deadLetterStrandedCommands ::
  "time \<Rightarrow> write_command list \<Rightarrow> write_command option \<Rightarrow> write_manager \<Rightarrow> write_manager" where
  "deadLetterStrandedCommands now buffered held w =
     fold (strand now) buffered (case held of Some cmd \<Rightarrow> strand now cmd w | None \<Rightarrow> w)"

text \<open>
  \<^verbatim>\<open>applyConfig\<close>. Parsing a duration and opening a store are calls whose outcomes are given:
  \<open>ce_openAudits\<close> is opening the audit file and loading its newest entries.
\<close>

datatype config_error =
    InvalidInterval string
  | NegativeInterval string
  | DeadLetterStore string
  | AuditStore string

record engine_config =
  ec_writeRetryCount :: int
  ec_commandConcurrency :: int
  ec_writeMinInterval :: string
  ec_deadLetterPath :: string
  ec_writeAuditPath :: string

record config_env =
  ce_parseDuration :: "string \<Rightarrow> time option"
  ce_openDeadLetters :: "string \<Rightarrow> string option"
  ce_openAudits :: "string \<Rightarrow> (string, write_audit_entry list) result"

definition trail_configure ::
  "config_env \<Rightarrow> string \<Rightarrow> write_manager \<Rightarrow> (config_error, write_manager) result" where
  "trail_configure E path w =
     (let w = w\<lparr>wm_audits := [], wm_auditStore := None\<rparr>
      in if path = [] then Inr w
         else case ce_openAudits E path of
                Inl err \<Rightarrow> Inl (AuditStore err)
              | Inr replayed \<Rightarrow> Inr (w\<lparr>wm_audits := replayed, wm_auditStore := Some path\<rparr>))"

definition applyConfig ::
  "config_env \<Rightarrow> engine_config \<Rightarrow> write_manager \<Rightarrow> (config_error, write_manager) result" where
  "applyConfig E cfg w =
     (let w = (if ec_writeRetryCount cfg > 0 then w\<lparr>wm_retryCount := nat (ec_writeRetryCount cfg)\<rparr> else w);
          w = (if ec_commandConcurrency cfg > 0
               then w\<lparr>wm_commandConcurrency := nat (ec_commandConcurrency cfg)\<rparr> else w);
          paced = (if ec_writeMinInterval cfg = [] then Inr w
                   else case ce_parseDuration E (ec_writeMinInterval cfg) of
                          None \<Rightarrow> Inl (InvalidInterval (ec_writeMinInterval cfg))
                        | Some d \<Rightarrow> if d < 0 then Inl (NegativeInterval (ec_writeMinInterval cfg))
                                    else Inr (w\<lparr>wm_pacer := setInterval d (wm_pacer w)\<rparr>))
      in case paced of
           Inl err \<Rightarrow> Inl err
         | Inr w \<Rightarrow>
             (if ec_deadLetterPath cfg = [] then trail_configure E (ec_writeAuditPath cfg) w
              else case ce_openDeadLetters E (ec_deadLetterPath cfg) of
                     Some err \<Rightarrow> Inl (DeadLetterStore err)
                   | None \<Rightarrow> trail_configure E (ec_writeAuditPath cfg)
                              (w\<lparr>wm_dlStore := Some (ec_deadLetterPath cfg)\<rparr>)))"

section \<open>Correctness\<close>

subsection \<open>The trail and the queue drop the oldest entry\<close>

definition trail_ok :: "write_manager \<Rightarrow> bool" where
  "trail_ok w \<longleftrightarrow> length (wm_audits w) \<le> writeAuditCapacity"

definition queue_ok :: "write_manager \<Rightarrow> bool" where
  "queue_ok w \<longleftrightarrow> length (wm_dlQueue w) \<le> wm_dlMax w"

lemma trail_record_items:
  "wm_audits (trail_record e w) = keep_last writeAuditCapacity (wm_audits w @ [e])"
  by (simp add: trail_record_def keep_last_def Let_def)

lemma addDeadLetter_items:
  "wm_dlQueue (addDeadLetter e w) = keep_last (wm_dlMax w) (wm_dlQueue w @ [e])"
  by (simp add: addDeadLetter_def keep_last_def Let_def)

interpretation trail: drop_oldest trail_record wm_audits "\<lambda>w. writeAuditCapacity" trail_ok
  by unfold_locales (simp_all add: trail_record_items trail_ok_def)

interpretation dlq: drop_oldest addDeadLetter wm_dlQueue wm_dlMax queue_ok
  by unfold_locales (simp_all add: addDeadLetter_items queue_ok_def, simp_all add: addDeadLetter_def Let_def)

lemma addDeadLetter_simps [simp]:
  "wm_pacer (addDeadLetter e w) = wm_pacer w" "wm_audits (addDeadLetter e w) = wm_audits w"
  "wm_dlPushed (addDeadLetter e w) = wm_dlPushed w + 1" "wm_dlMax (addDeadLetter e w) = wm_dlMax w"
  "wm_retryCount (addDeadLetter e w) = wm_retryCount w"
  by (simp_all add: addDeadLetter_def Let_def)

lemma trail_record_simps [simp]:
  "wm_pacer (trail_record e w) = wm_pacer w" "wm_dlQueue (trail_record e w) = wm_dlQueue w"
  "wm_dlPushed (trail_record e w) = wm_dlPushed w" "wm_dlMax (trail_record e w) = wm_dlMax w"
  "wm_retryCount (trail_record e w) = wm_retryCount w"
  by (simp_all add: trail_record_def Let_def)

subsection \<open>WriteTag\<close>

lemma WriteTag_keeps:
  assumes "WriteTag V tm cmd w s = (r, w', s')"
  shows "wm_dlQueue w' = wm_dlQueue w" "wm_dlPushed w' = wm_dlPushed w" "wm_dlMax w' = wm_dlMax w"
    "wm_retryCount w' = wm_retryCount w"
  using assms
  by (auto simp: WriteTag_def recordWriteAudit_def Let_def
      split: prod.splits option.splits sum.splits list.splits if_splits)

text \<open>The error text and success flag an outcome of \<^verbatim>\<open>WriteTag\<close> is audited with.\<close>

definition audited :: "(write_error, write_result) result \<Rightarrow> bool \<times> string" where
  "audited r = (case r of Inl e \<Rightarrow> (False, err_text e) | Inr res \<Rightarrow> (wr_success res, wr_error res))"

lemma WriteTag_audit:
  assumes "WriteTag V (tc, ta, tr) cmd w s = (r, w', s')"
  shows "wm_audits w' = wm_audits (trail_record (audit_entry ta cmd (fst (audited r)) (snd (audited r))) w)"
  using assms
  by (auto simp: WriteTag_def recordWriteAudit_def audited_def Let_def
      split: prod.splits option.splits sum.splits list.splits if_splits)

text \<open>A sequence of calls, with the entry each of them should leave.\<close>

fun write_all ::
  "'s engine_view \<Rightarrow> (readings \<times> write_command) list \<Rightarrow> write_manager \<Rightarrow> 's \<Rightarrow>
   write_audit_entry list \<times> write_manager \<times> 's" where
  "write_all V [] w s = ([], w, s)"
| "write_all V ((tm, cmd) # calls) w s =
     (case WriteTag V tm cmd w s of
        (r, w', s') \<Rightarrow>
          (case write_all V calls w' s' of
             (es, w'', s'') \<Rightarrow>
               (audit_entry (fst (snd tm)) cmd (fst (audited r)) (snd (audited r)) # es, w'', s'')))"

lemma write_all_trail:
  "write_all V calls w s = (es, w', s') \<Longrightarrow> wm_audits w' = wm_audits (fold trail_record es w)"
proof (induction calls arbitrary: w s es)
  case Nil
  then show ?case by simp
next
  case (Cons c calls)
  obtain tc ta tr cmd where c: "c = ((tc, ta, tr), cmd)" by (metis prod_cases3 surj_pair)
  obtain r w1 s1 where w1: "WriteTag V (tc, ta, tr) cmd w s = (r, w1, s1)" by (metis prod_cases3)
  obtain es1 where es: "write_all V calls w1 s1 = (es1, w', s')"
    "es = audit_entry ta cmd (fst (audited r)) (snd (audited r)) # es1"
    using Cons.prems by (auto simp: c w1 split: prod.splits)
  have "wm_audits (fold trail_record es1 u) = wm_audits (fold trail_record es1 v)"
    if "wm_audits u = wm_audits v" for u v
    using that by (induction es1 arbitrary: u v) (simp_all add: trail_record_items)
  from Cons.IH [OF es(1)] this [OF WriteTag_audit [OF w1]] es(2) show ?case by simp
qed

text \<open>
  The audit trail is complete. Every call of \<^verbatim>\<open>WriteTag\<close> appends exactly one entry, whatever
  its outcome (unknown driver, protected tag, pacing, driver error, empty reply, refusal, success):
  the entry carries the command and the outcome the caller sees. Over any sequence of calls the
  history, read newest first, is the list of all outcomes in reverse, cut to the newest 1000.
\<close>

theorem audit_trail_complete:
  assumes "length (wm_audits w) \<le> writeAuditCapacity" and "write_all V calls w s = (es, w', s')"
  shows "length es = length calls
    \<and> WriteHistory w' = take writeAuditCapacity (rev es @ WriteHistory w)"
proof -
  have "wm_audits w' = keep_last writeAuditCapacity (wm_audits w @ es)"
    using write_all_trail [OF assms(2)] trail.items_fold [of w es] assms(1) by (simp add: trail_ok_def)
  then have "WriteHistory w' = take writeAuditCapacity (rev es @ WriteHistory w)"
    by (simp add: WriteHistory_def rev_keep_last)
  moreover have "length es = length calls"
    using assms(2) by (induction calls arbitrary: w s es) (auto split: prod.splits)
  ultimately show ?thesis by simp
qed

subsection \<open>Protection\<close>

lemma protection_permanent:
  assumes "find (\<lambda>t. tc_name t = n) tags = Some t" and "tc_protect t = ''read-only''"
  shows "tagWriteProtectionReason tags n = ''tag '' @ go_quote n @ '' is read-only (protect: read-only)''"
  using assms by (induction tags) (auto split: if_splits)

lemma protect_message_permanent:
  "isPermanentWriteError (''tag '' @ go_quote n @ '' is read-only (protect: read-only)'')"
proof -
  have "contains_str ((''tag '' @ go_quote n @ '' is read-only ('') @ ''protect: read-only'' @ '')'') ''protect: read-only''"
    by (rule contains_middle)
  then show ?thesis by (simp add: isPermanentWriteError_def permanentWriteErrPatterns_def)
qed

text \<open>
  Protection is enforced before the device: for a tag whose first configuration entry says
  \<^verbatim>\<open>protect: read-only\<close>, \<^verbatim>\<open>WriteTag\<close> fails, does not call the driver and does not touch the
  pacing clock; and a command for it is dead-lettered after one attempt, without any device access.
\<close>

theorem read_only_tag_never_written:
  assumes "ev_drivers V (wc_driver cmd) \<noteq> None"
    and "ev_driverConfigs V (wc_driver cmd) = Some tags"
    and "find (\<lambda>t. tc_name t = wc_tag cmd) tags = Some t" and "tc_protect t = ''read-only''"
  shows "(\<exists>e w'. WriteTag V tm cmd w s = (Inl e, w', s) \<and> wm_pacer w' = wm_pacer w)
    \<and> (\<exists>w'. executeWriteWithRetry V clk cancel tdl cmd w s = (DeadLettered, w', s)
         \<and> wm_dlQueue w' = keep_last (wm_dlMax w)
             (wm_dlQueue w @ [dead_letter tdl cmd (tagWriteProtectionReason tags (wc_tag cmd)) 1]))"
proof -
  let ?msg = "''tag '' @ go_quote (wc_tag cmd) @ '' is read-only (protect: read-only)''"
  obtain d where d: "ev_drivers V (wc_driver cmd) = Some d" using assms(1) by auto
  have p: "protection V cmd = ?msg"
    by (simp add: protection_def assms(2) protection_permanent [OF assms(3,4)])
  have w: "WriteTag V tm cmd w s = (Inl (WErr ?msg), recordWriteAudit (fst (snd tm)) cmd False ?msg w, s)" for tm w
    using p by (cases tm) (simp add: WriteTag_def d)
  have "wm_dlQueue (recordWriteAudit t cmd False ?msg w) = wm_dlQueue w"
    "wm_dlMax (recordWriteAudit t cmd False ?msg w) = wm_dlMax w"
    "wm_pacer (recordWriteAudit t cmd False ?msg w) = wm_pacer w" for t
    by (simp_all add: recordWriteAudit_def)
  with protect_message_permanent [of "wc_tag cmd"] show ?thesis
    by (simp add: w executeWriteWithRetry_def d addDeadLetter_items protection_permanent [OF assms(3,4)]
        del: append_Cons)
qed

subsection \<open>Pacing\<close>

lemma WriteTag_pacer:
  assumes "WriteTag V (tc, ta, tr) cmd w s = (r, w', s')"
  shows "wm_pacer w' = (case r of Inr res \<Rightarrow> if wr_success res
      then pacer_record tr (wc_driver cmd) (wm_pacer w) else wm_pacer w | Inl _ \<Rightarrow> wm_pacer w)"
    and "\<forall>res. r = Inr res \<longrightarrow> pacer_check tc (wc_driver cmd) (wm_pacer w) = None"
  using assms
  by (auto simp: WriteTag_def recordWriteAudit_def Let_def
      split: prod.splits option.splits sum.splits list.splits if_splits)

text \<open>The accepted writes of a sequence of calls: driver, time of the check, time of the record.\<close>

fun accepted_log ::
  "'s engine_view \<Rightarrow> (readings \<times> write_command) list \<Rightarrow> write_manager \<Rightarrow> 's \<Rightarrow> (string \<times> time \<times> time) list" where
  "accepted_log V [] w s = []"
| "accepted_log V (((tc, ta, tr), cmd) # calls) w s =
     (case WriteTag V (tc, ta, tr) cmd w s of
        (r, w', s') \<Rightarrow>
          (if \<exists>res. r = Inr res \<and> wr_success res then [(wc_driver cmd, tc, tr)] else [])
          @ accepted_log V calls w' s')"

definition spaced :: "time \<Rightarrow> string \<times> time \<times> time \<Rightarrow> string \<times> time \<times> time \<Rightarrow> bool" where
  "spaced interval a b \<longleftrightarrow> (fst a = fst b \<longrightarrow> fst (snd b) - snd (snd a) \<ge> interval)"

lemma accepted_log_after:
  assumes "wp_interval (wm_pacer w) = I" and "0 < I"
    and "\<forall>((tc, ta, tr), cmd) \<in> set calls. tc \<le> tr"
  shows "sorted_wrt (spaced I) (accepted_log V calls w s)
    \<and> (\<forall>(d, tc, tr) \<in> set (accepted_log V calls w s).
         case wp_last (wm_pacer w) d of Some prev \<Rightarrow> tc - prev \<ge> I | None \<Rightarrow> True)"
  using assms
proof (induction calls arbitrary: w s)
  case Nil
  then show ?case by simp
next
  case (Cons c calls)
  obtain tc ta tr cmd where c: "c = ((tc, ta, tr), cmd)" by (metis prod_cases3 surj_pair)
  obtain r w' s' where r: "WriteTag V (tc, ta, tr) cmd w s = (r, w', s')" by (metis prod_cases3)
  note p = WriteTag_pacer [OF r]
  have I: "wp_interval (wm_pacer w') = I"
    using p(1) Cons.prems(1) by (auto simp: pacer_record_def split: sum.splits if_splits)
  have le: "tc \<le> tr" using Cons.prems(3) by (simp add: c)
  have IH: "sorted_wrt (spaced I) (accepted_log V calls w' s')"
    "\<forall>(d, tc, tr) \<in> set (accepted_log V calls w' s').
         case wp_last (wm_pacer w') d of Some prev \<Rightarrow> tc - prev \<ge> I | None \<Rightarrow> True"
    using Cons.IH [OF I Cons.prems(2)] Cons.prems(3) by auto
  show ?case
  proof (cases "\<exists>res. r = Inr res \<and> wr_success res")
    case True
    then have last: "wp_last (wm_pacer w') = (wp_last (wm_pacer w))(wc_driver cmd \<mapsto> tr)"
      using p(1) Cons.prems(1,2) by (auto simp: pacer_record_def)
    have ok: "case wp_last (wm_pacer w) (wc_driver cmd) of Some prev \<Rightarrow> tc - prev \<ge> I | None \<Rightarrow> True"
      using True p(2) Cons.prems(1,2) by (auto simp: pacer_check_def split: option.splits if_splits)
    have later: "if d = wc_driver cmd then tc' - tr \<ge> I
        else case wp_last (wm_pacer w) d of Some prev \<Rightarrow> tc' - prev \<ge> I | None \<Rightarrow> True"
      if "(d, tc', tr') \<in> set (accepted_log V calls w' s')" for d tc' tr'
      using bspec [OF IH(2) that] by (auto simp: last split: option.splits if_splits)
    have "spaced I (wc_driver cmd, tc, tr) b" if "b \<in> set (accepted_log V calls w' s')" for b
    proof -
      obtain d' tc' tr' where "b = (d', tc', tr')" by (metis prod_cases3)
      with that later [of d' tc' tr'] show ?thesis by (auto simp: spaced_def split: if_splits)
    qed
    moreover have "case wp_last (wm_pacer w) d of Some prev \<Rightarrow> tc' - prev \<ge> I | None \<Rightarrow> True"
      if "(d, tc', tr') \<in> set (accepted_log V calls w' s')" for d tc' tr'
      using later [OF that] ok le Cons.prems(2) by (auto split: if_splits option.splits)
    ultimately show ?thesis
      using True IH(1) ok by (auto simp: c r)
  next
    case False
    then have "wm_pacer w' = wm_pacer w" using p(1) by (auto split: sum.splits if_splits)
    with False IH show ?thesis by (auto simp: c r)
  qed
qed


subsection \<open>Commands\<close>

text \<open>What a command leaves behind, by the way it ends.\<close>

definition command_post ::
  "(nat \<Rightarrow> bool) \<Rightarrow> write_command \<Rightarrow> outcome \<Rightarrow> write_manager \<Rightarrow> write_manager \<Rightarrow> bool" where
  "command_post cancel cmd oc w w' \<longleftrightarrow>
     (case oc of
        Forwarded \<Rightarrow> w' = w
      | Written n \<Rightarrow> 1 \<le> n \<and> n \<le> wm_retryCount w + 1
          \<and> wm_dlQueue w' = wm_dlQueue w \<and> wm_dlPushed w' = wm_dlPushed w
          \<and> wm_audits w' \<noteq> [] \<and> wa_success (last (wm_audits w')) \<and> wa_tag (last (wm_audits w')) = wc_tag cmd
      | DeadLettered \<Rightarrow>
          (\<exists>e. dl_command e = cmd \<and> 1 \<le> dl_attempts e \<and> dl_attempts e \<le> wm_retryCount w + 1
             \<and> wm_dlQueue w' = keep_last (wm_dlMax w) (wm_dlQueue w @ [e])
             \<and> wm_dlPushed w' = wm_dlPushed w + 1)
      | Abandoned n \<Rightarrow> 1 \<le> n \<and> n \<le> wm_retryCount w \<and> cancel (n - 1)
          \<and> wm_dlQueue w' = wm_dlQueue w \<and> wm_dlPushed w' = wm_dlPushed w)"

lemma dead_letter_post:
  assumes "wm_dlQueue w1 = wm_dlQueue w" "wm_dlPushed w1 = wm_dlPushed w" "wm_dlMax w1 = wm_dlMax w"
    and "1 \<le> n" "n \<le> wm_retryCount w + 1"
  shows "command_post cancel cmd DeadLettered w (addDeadLetter (dead_letter t cmd err n) w1)"
  using assms unfolding command_post_def outcome.case
  by (intro exI [of _ "dead_letter t cmd err n"]) (simp add: addDeadLetter_items, simp add: dead_letter_def)

lemma retry_loop_post:
  assumes "retry_loop V cmd clk cancel tdl (wm_retryCount w + 1) n attempt lastErr w1 s = (oc, w', s')"
    and "wm_dlQueue w1 = wm_dlQueue w" "wm_dlPushed w1 = wm_dlPushed w" "wm_dlMax w1 = wm_dlMax w"
    and "attempt + n = wm_retryCount w + 1"
  shows "command_post cancel cmd oc w w'"
  using assms
proof (induction n arbitrary: attempt lastErr w1 s)
  case 0
  then show ?case using dead_letter_post [of w1 w "wm_retryCount w + 1"] by auto
next
  case (Suc n)
  obtain r w2 s2 where r: "WriteTag V (clk attempt) cmd w1 s = (r, w2, s2)" by (metis prod_cases3)
  obtain tc ta tr where clk: "clk attempt = (tc, ta, tr)" by (metis prod_cases3)
  note keep = WriteTag_keeps [OF r]
  define verdict where "verdict = (case r of Inl e \<Rightarrow> Some (err_text e)
      | Inr res \<Rightarrow> if wr_success res then None else Some (wr_error res))"
  show ?case
  proof (cases verdict)
    case None
    then have "fst (audited r)" by (auto simp: verdict_def audited_def split: sum.splits if_splits)
    moreover have "wm_audits w2 = keep_last writeAuditCapacity (wm_audits w1 @
        [audit_entry ta cmd (fst (audited r)) (snd (audited r))])"
      using WriteTag_audit [OF r [unfolded clk]] by (simp add: trail_record_items)
    ultimately have "wm_audits w2 \<noteq> [] \<and> wa_success (last (wm_audits w2)) \<and> wa_tag (last (wm_audits w2)) = wc_tag cmd"
      by (auto simp: last_keep_last_snoc writeAuditCapacity_def audit_entry_def)
        (metis length_0_conv length_keep_last length_append_singleton min_0R min_def zero_neq_numeral nat.distinct(1))
    moreover have "oc = Written (attempt + 1)" "w' = w2"
      using Suc.prems(1) None by (auto simp: r verdict_def Let_def)
    ultimately show ?thesis
      using keep Suc.prems(2-5) by (simp add: command_post_def)
  next
    case (Some err)
    note prems = Suc.prems(1) [unfolded retry_loop.simps r prod.case, folded verdict_def, unfolded Some option.case Let_def]
    consider "isPermanentWriteError err"
      | "\<not> isPermanentWriteError err" "attempt < wm_retryCount w" "cancel attempt"
      | "\<not> isPermanentWriteError err" "\<not> (attempt < wm_retryCount w \<and> cancel attempt)" by blast
    then show ?thesis
    proof cases
      case 1
      with prems have "oc = DeadLettered" "w' = addDeadLetter (dead_letter tdl cmd err (attempt + 1)) w2" by auto
      with keep Suc.prems(2-5) show ?thesis
        using dead_letter_post [of w2 w "attempt + 1"] by simp
    next
      case 2
      with prems have "oc = Abandoned (attempt + 1)" "w' = w2" by auto
      with 2 keep Suc.prems(2-5) show ?thesis by (simp add: command_post_def)
    next
      case 3
      with prems have "retry_loop V cmd clk cancel tdl (wm_retryCount w + 1) n (attempt + 1) err w2 s2 = (oc, w', s')"
        by auto
      then show ?thesis using keep Suc.prems(2-5) by (intro Suc.IH [of "attempt + 1" err w2 s2]) simp_all
    qed
  qed
qed


text \<open>
  The retry backoff doubles from 100 ms and is capped at two seconds, for every attempt number
  below 37.
\<close>

theorem retry_delay_capped:
  "retry_delay attempt \<le> 2 * second
   \<and> (attempt < 37 \<longrightarrow> retry_delay attempt = min (100 * millisecond * 2 ^ attempt) (2 * second))"
proof -
  have "retry_delay attempt = min (100 * millisecond * 2 ^ attempt) (2 * second)" if "attempt < 37"
  proof -
    define q where "q = (2 :: int) ^ attempt"
    have "q \<le> 2 ^ 36" unfolding q_def using that by (intro power_increasing) auto
    moreover have "0 \<le> q" by (simp add: q_def)
    ultimately have "i64 q = q" and "i64 (100000000 * q) = 100000000 * q" by simp_all
    then show ?thesis
      by (simp add: retry_delay_def defaultRetryBaseDelay_def defaultCommandRetryMaxDelay_def Let_def min_def
          q_def [symmetric])
  qed
  then show ?thesis
    by (auto simp: retry_delay_def defaultCommandRetryMaxDelay_def Let_def)
qed

text \<open>
  From attempt 37 on the product overflows \<^verbatim>\<open>int64\<close>: it turns negative, later zero, so it is
  below the cap and the wait ends at once.
\<close>

lemma retry_delay_overflows: "retry_delay 37 < 0" "retry_delay 56 = 0" "retry_delay 64 = 0"
  by code_simp+

text \<open>
  When a command listener exits, the command it holds and every buffered one enter the
  dead-letter queue in order, marked as commands with no attempt made, and the lifetime counter
  grows by their number.
\<close>

theorem stranded_commands_dead_lettered:
  assumes "length (wm_dlQueue w) \<le> wm_dlMax w"
  shows "let all = (case held of Some c \<Rightarrow> [c] | None \<Rightarrow> []) @ buffered;
             w' = deadLetterStrandedCommands now buffered held w
         in wm_dlQueue w' = keep_last (wm_dlMax w) (wm_dlQueue w @
              map (\<lambda>c. dead_letter now (c\<lparr>wc_source := ''command''\<rparr>) ''transport removed before dispatch'' 0) all)
          \<and> wm_dlPushed w' = wm_dlPushed w + length all"
proof -
  define entry where
    "entry = (\<lambda>c. dead_letter now (c\<lparr>wc_source := ''command''\<rparr>) ''transport removed before dispatch'' 0)"
  define all where "all = (case held of Some c \<Rightarrow> [c] | None \<Rightarrow> []) @ buffered"
  have "deadLetterStrandedCommands now buffered held w = fold addDeadLetter (map entry all) w"
  proof -
    have "strand now = addDeadLetter \<circ> entry" by (simp add: fun_eq_iff strand_def entry_def)
    then show ?thesis by (simp add: deadLetterStrandedCommands_def all_def fold_map split: option.splits)
  qed
  moreover have "wm_dlPushed (fold addDeadLetter es w) = wm_dlPushed w + length es" for es w
    by (induction es arbitrary: w) simp_all
  ultimately show ?thesis
    using dlq.items_fold [of w "map entry all"] assms
    by (simp add: queue_ok_def Let_def entry_def all_def)
qed

section \<open>Witnesses\<close>

definition demo_cmd :: write_command where
  "demo_cmd = \<lparr>wc_driver = ''plc'', wc_device = [], wc_tag = ''t'', wc_value = VBool True, wc_type = TypeBool,
     wc_source = ''api'', wc_remote = [], wc_raw = False\<rparr>"

definition demo_tag :: "string \<Rightarrow> tag_config" where
  "demo_tag prot = \<lparr>tc_name = ''t'', tc_address = [], tc_type = ''bool'', tc_group = [], tc_interval = [],
     tc_scale = 0, tc_offset = 0, tc_deadband = 0, tc_enforce_interval = [], tc_read_timeout = [],
     tc_protect = prot, tc_trigger_group = [], tc_triggers = []\<rparr>"

text \<open>One driver that accepts every write and counts them.\<close>

definition demo_view :: "string \<Rightarrow> nat engine_view" where
  "demo_view prot = \<lparr>ev_drivers = (\<lambda>n. if n = ''plc''
       then Some (\<lambda>cmds s. (Inr [\<lparr>wr_success = True, wr_error = []\<rparr>], s + 1)) else None),
     ev_driverConfigs = (\<lambda>n. if n = ''plc'' then Some [demo_tag prot] else None), ev_transports = []\<rparr>"

definition demo_wm :: "time \<Rightarrow> write_manager" where
  "demo_wm interval = \<lparr>wm_retryCount = 3, wm_commandConcurrency = 4, wm_dlQueue = [], wm_dlMax = 10,
     wm_dlPushed = 0, wm_dlStore = None, wm_audits = [], wm_auditStore = None,
     wm_pacer = \<lparr>wp_last = Map.empty, wp_interval = interval\<rparr>\<rparr>"

theorem audit_trail_complete_witness:
  "length (WriteHistory (fst (snd (write_all (demo_view []) [((1, 2, 3), demo_cmd), ((2, 3, 4), demo_cmd)]
     (demo_wm 10) 0)))) = 2"
proof -
  obtain es w' s' where r: "write_all (demo_view []) [((1, 2, 3), demo_cmd), ((2, 3, 4), demo_cmd)] (demo_wm 10) 0
      = (es, w', s')" by (metis prod_cases3)
  have "length (wm_audits (demo_wm 10)) \<le> writeAuditCapacity" by (simp add: demo_wm_def)
  from audit_trail_complete [OF this r] have "length (WriteHistory w') = 2"
    by (simp add: writeAuditCapacity_def WriteHistory_def [of "demo_wm 10"], simp add: demo_wm_def)
  then show ?thesis by (simp only: r fst_conv snd_conv)
qed

theorem read_only_tag_never_written_witness:
  "\<exists>e w'. WriteTag (demo_view ''read-only'') (1, 2, 3) demo_cmd (demo_wm 10) 7 = (Inl e, w', 7)
     \<and> wm_pacer w' = wm_pacer (demo_wm 10)"
  using read_only_tag_never_written [of "demo_view ''read-only''" demo_cmd "[demo_tag ''read-only'']"
      "demo_tag ''read-only''" "(1, 2, 3)" "demo_wm 10" 7]
  by (simp add: demo_view_def demo_cmd_def demo_tag_def)


theorem retry_delay_capped_witness: "retry_delay 3 = 800 * millisecond"
  using retry_delay_capped [of 3] by simp

theorem stranded_commands_dead_lettered_witness:
  "wm_dlPushed (deadLetterStrandedCommands 5 [demo_cmd] (Some demo_cmd) (demo_wm 0)) = 2"
  using stranded_commands_dead_lettered [of "demo_wm 0" "Some demo_cmd" "[demo_cmd]" 5]
  by (simp add: demo_wm_def Let_def)

end
