(* ===== verification/Alerts.thy ===== *)
theory Alerts
  imports Core_Types Go_Fmt
begin

text \<open>
  Alert state, \<^verbatim>\<open>engine/alerts.go\<close>: the bounded registry of active alerts, the history ring, the
  per-rule fire counts and the event channel. The registry is a map from keys to alerts; the
  model keeps it as an association list without duplicate keys, in insertion order. Where the code
  sorts the registry by \<^verbatim>\<open>LastFired\<close>, distinct times make the order unique.

  An operation appends its events to the history and sends them on the event channel, in the same
  order; \<open>emit\<close> does both.
\<close>

section \<open>State\<close>

record alert =
  al_key :: string
  al_rule :: string
  al_driver :: string
  al_tag :: string
  al_value :: go_value
  al_quality :: quality
  al_firstFired :: time
  al_lastFired :: time
  al_count :: nat
  al_acked :: bool
  al_ackedAt :: time

datatype alert_event_type = AlertFired | AlertAcked | AlertCleared

record alert_event =
  ae_type :: alert_event_type
  ae_alert :: alert
  ae_at :: time

record alert_manager =
  am_active :: "(string \<times> alert) list"
  am_firedByRule :: "string \<Rightarrow> nat"
  am_history :: "alert_event list"
  am_activeWindow :: time
  am_eventCh :: "alert_event chan"
  am_closed :: bool

definition alertRegistryCap :: nat where "alertRegistryCap = 1000"
definition alertHistoryCap :: nat where "alertHistoryCap = 500"
definition alertEventBufferSize :: nat where "alertEventBufferSize = 256"
definition DefaultAlertActiveWindow :: time where "DefaultAlertActiveWindow = 15 * minute"

definition newAlertManager :: "time \<Rightarrow> alert_manager" where
  "newAlertManager activeWindow =
     \<lparr>am_active = [], am_firedByRule = (\<lambda>_. 0), am_history = [],
      am_activeWindow = (if activeWindow \<le> 0 then DefaultAlertActiveWindow else activeWindow),
      am_eventCh = make_chan alertEventBufferSize, am_closed = False\<rparr>"

definition alertKey :: "string \<Rightarrow> string \<Rightarrow> string \<Rightarrow> string" where
  "alertKey rule driver tag = rule @ ''|'' @ driver @ ''|'' @ tag"

text \<open>The period of the sweep ticker of \<^verbatim>\<open>start\<close>.\<close>

definition minDuration :: "time \<Rightarrow> time \<Rightarrow> time" where
  "minDuration a b = (if a < b then a else b)"

definition sweepEvery :: "time \<Rightarrow> time" where
  "sweepEvery activeWindow =
     (let q = activeWindow div 4; q = (if q < 30 * second then 30 * second else q)
      in minDuration q activeWindow)"

section \<open>Operations\<close>

definition appendHistoryLocked :: "alert_event \<Rightarrow> alert_manager \<Rightarrow> alert_manager" where
  "appendHistoryLocked ev am =
     (let h = am_history am @ [ev]
      in am\<lparr>am_history := (if length h > alertHistoryCap then drop (length h - alertHistoryCap) h else h)\<rparr>)"

text \<open>\<^verbatim>\<open>publish\<close>: a full buffer drops the event, and so does the panic of a closed channel.\<close>

definition publish :: "alert_event \<Rightarrow> alert_manager \<Rightarrow> alert_manager" where
  "publish ev am =
     (if am_closed am then am
      else case ch_try_send ev (am_eventCh am) of
             Sent c \<Rightarrow> am\<lparr>am_eventCh := c\<rparr>
           | SendFull \<Rightarrow> am
           | SendPanic \<Rightarrow> am)"

definition emit :: "alert_event list \<Rightarrow> alert_manager \<Rightarrow> alert_manager" where
  "emit evs am = fold publish evs (fold appendHistoryLocked evs am)"

definition event :: "alert_event_type \<Rightarrow> time \<Rightarrow> alert \<Rightarrow> alert_event" where
  "event ty now a = \<lparr>ae_type = ty, ae_alert = a, ae_at = now\<rparr>"

definition new_alert :: "string \<Rightarrow> data_point \<Rightarrow> time \<Rightarrow> alert" where
  "new_alert rule p now =
     \<lparr>al_key = alertKey rule (dp_driver p) (dp_tag p), al_rule = rule, al_driver = dp_driver p,
      al_tag = dp_tag p, al_value = dp_value p, al_quality = dp_quality p, al_firstFired = now,
      al_lastFired = 0, al_count = 0, al_acked = False, al_ackedAt = 0\<rparr>"

definition fire :: "data_point \<Rightarrow> time \<Rightarrow> alert \<Rightarrow> alert" where
  "fire p now a = a\<lparr>al_value := dp_value p, al_quality := dp_quality p, al_lastFired := now,
     al_count := al_count a + 1\<rparr>"

fun update_key :: "string \<Rightarrow> 'a \<Rightarrow> (string \<times> 'a) list \<Rightarrow> (string \<times> 'a) list" where
  "update_key k v [] = [(k, v)]"
| "update_key k v ((k', v') # xs) = (if k' = k then (k, v) # xs else (k', v') # update_key k v xs)"

text \<open>The alerts the registry cap clears, oldest fire first.\<close>

definition over_cap :: "(string \<times> alert) list \<Rightarrow> alert list" where
  "over_cap active =
     (if length active > alertRegistryCap
      then take (length active - alertRegistryCap) (sort_key al_lastFired (map snd active)) else [])"

definition record_events :: "string \<Rightarrow> data_point \<Rightarrow> time \<Rightarrow> alert_manager \<Rightarrow> alert_event list \<times> alert_manager" where
  "record_events rule p now am =
     (let key = alertKey rule (dp_driver p) (dp_tag p);
          am = am\<lparr>am_firedByRule := (am_firedByRule am)(rule := am_firedByRule am rule + 1)\<rparr>;
          found = map_of (am_active am) key;
          a = (case found of Some a \<Rightarrow> a | None \<Rightarrow> new_alert rule p now);
          fired = (if found = None then [event AlertFired now a] else []);
          active = update_key key (fire p now a) (am_active am);
          cleared = over_cap active
      in (map (event AlertCleared now) cleared @ fired,
          am\<lparr>am_active := filter (\<lambda>(k, _). k \<notin> al_key ` set cleared) active\<rparr>))"

definition am_record :: "string \<Rightarrow> data_point \<Rightarrow> time \<Rightarrow> alert_manager \<Rightarrow> alert_manager" where
  "am_record rule p now am = (case record_events rule p now am of (evs, am') \<Rightarrow> emit evs am')"

definition ack_events :: "string \<Rightarrow> time \<Rightarrow> alert_manager \<Rightarrow> (string, alert_event list \<times> alert_manager) result" where
  "ack_events key now am =
     (case map_of (am_active am) key of
        None \<Rightarrow> Inl (''no active alert with key '' @ go_quote key)
      | Some a \<Rightarrow>
          let a' = a\<lparr>al_acked := True, al_ackedAt := now\<rparr>
          in Inr ([event AlertAcked now a'], am\<lparr>am_active := update_key key a' (am_active am)\<rparr>))"

definition ack :: "string \<Rightarrow> time \<Rightarrow> alert_manager \<Rightarrow> (string, unit) result \<times> alert_manager" where
  "ack key now am =
     (case ack_events key now am of Inl err \<Rightarrow> (Inl err, am) | Inr (evs, am') \<Rightarrow> (Inr (), emit evs am'))"

definition expired :: "time \<Rightarrow> alert_manager \<Rightarrow> alert \<Rightarrow> bool" where
  "expired now am a \<longleftrightarrow> now - al_lastFired a \<ge> am_activeWindow am"

definition sweep_events :: "time \<Rightarrow> alert_manager \<Rightarrow> alert_event list \<times> alert_manager" where
  "sweep_events now am =
     (map (event AlertCleared now \<circ> snd) (filter (\<lambda>(k, a). expired now am a) (am_active am)),
      am\<lparr>am_active := filter (\<lambda>(k, a). \<not> expired now am a) (am_active am)\<rparr>)"

definition sweep :: "time \<Rightarrow> alert_manager \<Rightarrow> alert_manager" where
  "sweep now am = (case sweep_events now am of (evs, am') \<Rightarrow> emit evs am')"

definition am_stop :: "alert_manager \<Rightarrow> alert_manager" where
  "am_stop am = (if am_closed am then am else am\<lparr>am_closed := True, am_eventCh := ch_close (am_eventCh am)\<rparr>)"

definition activeAlerts :: "alert_manager \<Rightarrow> alert list" where
  "activeAlerts am = sort_key al_firstFired (map snd (am_active am))"

definition alertHistory :: "alert_manager \<Rightarrow> alert_event list" where
  "alertHistory am = rev (am_history am)"

definition fireCounts :: "alert_manager \<Rightarrow> string \<Rightarrow> nat" where
  "fireCounts am = am_firedByRule am"

definition activeCount :: "alert_manager \<Rightarrow> nat" where
  "activeCount am = length (am_active am)"

section \<open>Invariant\<close>

lemma appendHistory_items:
  "am_history (appendHistoryLocked ev am) = keep_last alertHistoryCap (am_history am @ [ev])"
  by (simp add: appendHistoryLocked_def keep_last_def Let_def)

interpretation hist: drop_oldest appendHistoryLocked am_history "\<lambda>am. alertHistoryCap"
  "\<lambda>am. length (am_history am) \<le> alertHistoryCap"
  by unfold_locales (simp_all add: appendHistory_items)

lemma publish_simps [simp]:
  "am_active (publish ev am) = am_active am" "am_history (publish ev am) = am_history am"
  "am_activeWindow (publish ev am) = am_activeWindow am" "am_firedByRule (publish ev am) = am_firedByRule am"
  by (simp_all add: publish_def split: send_result.splits)

lemma appendHistory_simps [simp]:
  "am_active (appendHistoryLocked ev am) = am_active am" "am_activeWindow (appendHistoryLocked ev am) = am_activeWindow am"
  "am_firedByRule (appendHistoryLocked ev am) = am_firedByRule am"
  by (simp_all add: appendHistoryLocked_def Let_def)

lemma fold_publish_simps [simp]:
  "am_active (fold publish evs am) = am_active am" "am_history (fold publish evs am) = am_history am"
  "am_activeWindow (fold publish evs am) = am_activeWindow am" "am_firedByRule (fold publish evs am) = am_firedByRule am"
  by (induction evs arbitrary: am) simp_all

lemma fold_append_simps [simp]:
  "am_active (fold appendHistoryLocked evs am) = am_active am"
  "am_activeWindow (fold appendHistoryLocked evs am) = am_activeWindow am"
  "am_firedByRule (fold appendHistoryLocked evs am) = am_firedByRule am"
  by (induction evs arbitrary: am) simp_all

lemma emit_simps [simp]:
  "am_active (emit evs am) = am_active am" "am_activeWindow (emit evs am) = am_activeWindow am"
  "am_firedByRule (emit evs am) = am_firedByRule am"
  by (simp_all add: emit_def)

lemma emit_history:
  "length (am_history am) \<le> alertHistoryCap \<Longrightarrow>
   am_history (emit evs am) = keep_last alertHistoryCap (am_history am @ evs)"
  by (simp add: emit_def hist.items_fold)

definition keys :: "alert_manager \<Rightarrow> string set" where
  "keys am = fst ` set (am_active am)"

definition am_inv :: "alert_manager \<Rightarrow> bool" where
  "am_inv am \<longleftrightarrow> distinct (map fst (am_active am)) \<and> (\<forall>(k, a) \<in> set (am_active am). al_key a = k)
     \<and> length (am_active am) \<le> alertRegistryCap"

lemma update_key_fst: "fst ` set (update_key k v xs) = insert k (fst ` set xs)"
  by (induction k v xs rule: update_key.induct) auto

lemma update_key_distinct: "distinct (map fst xs) \<Longrightarrow> distinct (map fst (update_key k v xs))"
proof (induction k v xs rule: update_key.induct)
  case (2 k v k' v' xs)
  then show ?case using update_key_fst [of k v xs] by auto
qed simp

lemma update_key_set:
  "distinct (map fst xs) \<Longrightarrow> set (update_key k v xs) = insert (k, v) {x \<in> set xs. fst x \<noteq> k}"
  by (induction k v xs rule: update_key.induct) (force simp: image_iff)+

lemma update_key_length: "length (update_key k v xs) = length xs + (if k \<in> fst ` set xs then 0 else 1)"
  by (induction k v xs rule: update_key.induct) auto

lemma update_key_map_of: "map_of (update_key k v xs) = (map_of xs)(k \<mapsto> v)"
  by (induction k v xs rule: update_key.induct) auto

lemma filter_keys_length:
  assumes "distinct (map fst xs)" and "S \<subseteq> fst ` set xs"
  shows "length (filter (\<lambda>(k, _). k \<notin> S) xs) = length xs - card S"
proof -
  have "distinct (map fst (filter (\<lambda>(k, _). k \<notin> S) xs))"
    using assms(1) by (simp add: distinct_map_filter)
  then have "length (filter (\<lambda>(k, _). k \<notin> S) xs) = card (fst ` set (filter (\<lambda>(k, _). k \<notin> S) xs))"
    using distinct_card by (metis length_map list.set_map)
  also have "fst ` set (filter (\<lambda>(k, _). k \<notin> S) xs) = fst ` set xs - S" by force
  also have "card \<dots> = length xs - card S"
    using assms by (subst card_Diff_subset) (auto simp: finite_subset distinct_card [of "map fst xs", simplified])
  finally show ?thesis .
qed

lemma over_cap_keys:
  assumes "distinct (map fst xs)" and "\<forall>(k, a) \<in> set xs. al_key a = k"
  shows "distinct (map al_key (over_cap xs))" and "set (over_cap xs) \<subseteq> snd ` set xs"
    and "length (over_cap xs) = length xs - alertRegistryCap"
proof -
  have "map al_key (map snd xs) = map fst xs" using assms(2) by (auto simp: o_def)
  then have "inj_on al_key (set (map snd xs))" "distinct (map snd xs)"
    using assms(1) by (metis distinct_map)+
  then have "distinct (map al_key (sort_key al_lastFired (map snd xs)))" by (simp add: distinct_map)
  then show "distinct (map al_key (over_cap xs))" by (simp add: over_cap_def take_map [symmetric] distinct_take)
  show "set (over_cap xs) \<subseteq> snd ` set xs" by (auto simp: over_cap_def dest!: in_set_takeD)
  show "length (over_cap xs) = length xs - alertRegistryCap" by (auto simp: over_cap_def)
qed

lemma over_cap_subset:
  assumes "distinct (map fst xs)" and "\<forall>(k, a) \<in> set xs. al_key a = k"
  shows "al_key ` set (over_cap xs) \<subseteq> fst ` set xs"
proof
  fix k assume "k \<in> al_key ` set (over_cap xs)"
  then obtain k' a where "k = al_key a" and m: "(k', a) \<in> set xs" using over_cap_keys(2) [OF assms] by auto
  with assms(2) have "k = k'" by blast
  with m show "k \<in> fst ` set xs" by (force simp: image_iff)
qed

definition active_after_fire :: "string \<Rightarrow> data_point \<Rightarrow> time \<Rightarrow> alert_manager \<Rightarrow> (string \<times> alert) list" where
  "active_after_fire rule p now am =
     (let key = alertKey rule (dp_driver p) (dp_tag p)
      in update_key key (fire p now (case map_of (am_active am) key of Some a \<Rightarrow> a | None \<Rightarrow> new_alert rule p now))
           (am_active am))"

lemma record_events_eq:
  "record_events rule p now am =
    (map (event AlertCleared now) (over_cap (active_after_fire rule p now am)) @
       (case map_of (am_active am) (alertKey rule (dp_driver p) (dp_tag p)) of
          None \<Rightarrow> [event AlertFired now (new_alert rule p now)] | Some _ \<Rightarrow> []),
     am\<lparr>am_firedByRule := (am_firedByRule am)(rule := am_firedByRule am rule + 1),
        am_active := filter (\<lambda>(k, _). k \<notin> al_key ` set (over_cap (active_after_fire rule p now am)))
          (active_after_fire rule p now am)\<rparr>)"
  by (auto simp: record_events_def active_after_fire_def Let_def split: option.splits)

lemma active_after_fire_wf:
  assumes "am_inv am"
  shows "distinct (map fst (active_after_fire rule p now am))"
    and "\<forall>(k, a) \<in> set (active_after_fire rule p now am). al_key a = k"
    and "fst ` set (active_after_fire rule p now am) = insert (alertKey rule (dp_driver p) (dp_tag p)) (keys am)"
proof -
  have d: "distinct (map fst (am_active am))" and k: "\<forall>(k, a) \<in> set (am_active am). al_key a = k"
    using assms by (auto simp: am_inv_def)
  show "distinct (map fst (active_after_fire rule p now am))"
    by (simp add: active_after_fire_def Let_def update_key_distinct d)
  show "\<forall>(k, a) \<in> set (active_after_fire rule p now am). al_key a = k"
    using k by (auto simp: active_after_fire_def Let_def update_key_set [OF d] fire_def new_alert_def
        split: option.splits dest!: map_of_SomeD)
  show "fst ` set (active_after_fire rule p now am) = insert (alertKey rule (dp_driver p) (dp_tag p)) (keys am)"
    by (simp add: active_after_fire_def Let_def update_key_fst keys_def)
qed

lemma record_inv:
  assumes "am_inv am" and "record_events rule p now am = (evs, am')"
  shows "am_inv am'"
proof -
  let ?A = "active_after_fire rule p now am"
  let ?S = "al_key ` set (over_cap ?A)"
  note wf = active_after_fire_wf [OF assms(1), where rule = rule and p = p and now = now]
  note oc = over_cap_keys [OF wf(1,2)]
  have A: "am_active am' = filter (\<lambda>(k, _). k \<notin> ?S) ?A"
    using assms(2) by (auto simp: record_events_eq)
  note over_cap_subset [OF wf(1,2)]
  moreover have "card ?S = length ?A - alertRegistryCap"
    using distinct_card [OF oc(1)] oc(3) by simp
  ultimately have "length (am_active am') \<le> alertRegistryCap"
    using filter_keys_length [OF wf(1)] A by simp
  with wf A show ?thesis by (auto simp: am_inv_def distinct_map_filter)
qed

section \<open>The life cycle of an alert\<close>

text \<open>
  The specification: per key, the events form a word of the automaton that starts inactive,
  becomes active by \<open>fired\<close>, stays active under \<open>acked\<close> and becomes inactive by \<open>cleared\<close>.
\<close>

fun life :: "bool \<Rightarrow> alert_event_type list \<Rightarrow> bool option" where
  "life b [] = Some b"
| "life False (AlertFired # es) = life True es"
| "life True (AlertAcked # es) = life True es"
| "life True (AlertCleared # es) = life False es"
| "life b (e # es) = None"

definition key_events :: "string \<Rightarrow> alert_event list \<Rightarrow> alert_event_type list" where
  "key_events k evs = map ae_type (filter (\<lambda>e. al_key (ae_alert e) = k) evs)"

lemma life_append: "life b (xs @ ys) = Option.bind (life b xs) (\<lambda>b. life b ys)"
  by (induction b xs rule: life.induct) simp_all

lemma key_events_append [simp]: "key_events k (xs @ ys) = key_events k xs @ key_events k ys"
  by (simp add: key_events_def)

lemma key_events_cleared:
  assumes "distinct (map al_key as)"
  shows "key_events k (map (event AlertCleared now) as) = (if k \<in> al_key ` set as then [AlertCleared] else [])"
proof -
  have "filter (\<lambda>a. al_key a = k) as = (if k \<in> al_key ` set as then [the_elem {a \<in> set as. al_key a = k}] else [])"
    using assms
  proof (induction as)
    case (Cons a as)
    show ?case
    proof (cases "al_key a = k")
      case True
      with Cons.prems have no: "\<forall>x \<in> set as. al_key x \<noteq> k" by (metis distinct.simps(2) imageI list.simps(9) set_map)
      with True have "filter (\<lambda>a. al_key a = k) as = []" "{x \<in> set (a # as). al_key x = k} = {a}"
        by (auto simp: filter_empty_conv)
      with True show ?thesis by simp
    next
      case False
      then have "{x \<in> set (a # as). al_key x = k} = {x \<in> set as. al_key x = k}" by auto
      with False Cons show ?thesis by (auto simp: image_iff)
    qed
  qed simp
  then show ?thesis by (simp add: key_events_def filter_map o_def event_def split: if_splits)
qed

datatype alert_op = Fire string data_point | AckOp string | SweepOp

fun op_events :: "time \<times> alert_op \<Rightarrow> alert_manager \<Rightarrow> alert_event list \<times> alert_manager" where
  "op_events (now, Fire rule p) am = record_events rule p now am"
| "op_events (now, AckOp key) am = (case ack_events key now am of Inl _ \<Rightarrow> ([], am) | Inr r \<Rightarrow> r)"
| "op_events (now, SweepOp) am = sweep_events now am"

fun apply_op :: "time \<times> alert_op \<Rightarrow> alert_manager \<Rightarrow> alert_manager" where
  "apply_op (now, Fire rule p) am = am_record rule p now am"
| "apply_op (now, AckOp key) am = snd (ack key now am)"
| "apply_op (now, SweepOp) am = sweep now am"

lemma apply_op_events: "apply_op x am = (case op_events x am of (evs, am') \<Rightarrow> emit evs am')"
  by (cases "(x, am)" rule: apply_op.cases)
    (auto simp: am_record_def ack_def sweep_def emit_def split: sum.splits prod.splits)

text \<open>The newest alert survives the cap: its last fire is later than every other one.\<close>

lemma newest_not_capped:
  assumes "distinct (map fst xs)" and "\<forall>(k, a) \<in> set xs. al_key a = k"
    and "length xs \<le> alertRegistryCap + 1" and "(k0, a0) \<in> set xs"
    and "\<forall>(k, a) \<in> set xs. k \<noteq> k0 \<longrightarrow> al_lastFired a < al_lastFired a0"
  shows "k0 \<notin> al_key ` set (over_cap xs)"
proof
  assume "k0 \<in> al_key ` set (over_cap xs)"
  then obtain a where a: "a \<in> set (over_cap xs)" "al_key a = k0" by auto
  let ?ys = "sort_key al_lastFired (map snd xs)"
  have n: "length xs = alertRegistryCap + 1" using a(1) assms(3) by (auto simp: over_cap_def split: if_splits)
  then have "over_cap xs = [?ys ! 0]" using n by (simp add: over_cap_def take_Suc_conv_app_nth)
  with a have a0: "a = ?ys ! 0" by simp
  have k0: "al_key a0 = k0" using assms(2,4) by auto
  have "map al_key (map snd xs) = map fst xs" using assms(2) by (auto simp: o_def)
  then have inj: "inj_on al_key (set (map snd xs))" "distinct ?ys" using assms(1) by (metis distinct_map distinct_sort)+
  have len: "length ?ys = alertRegistryCap + 1" using n by simp
  have "xs \<noteq> []" using n by auto
  then have "?ys ! 0 \<in> set (map snd xs)" "?ys ! 1 \<in> set (map snd xs)"
    using nth_mem [of 0 ?ys] nth_mem [of 1 ?ys] len unfolding set_sort by (simp_all add: alertRegistryCap_def)
  moreover have "?ys ! 0 \<noteq> ?ys ! 1" using inj(2) len by (simp add: nth_eq_iff_index_eq alertRegistryCap_def)
  moreover have "a0 \<in> set (map snd xs)" using assms(4) by force
  ultimately have "al_key (?ys ! 1) \<noteq> k0" "a = a0"
    using inj(1) a(2) k0 unfolding a0 by (metis inj_onD)+
  with \<open>?ys ! 1 \<in> set (map snd xs)\<close> assms(2,5) have "al_lastFired (?ys ! 1) < al_lastFired a0" by fastforce
  moreover have "al_lastFired (?ys ! 0) \<le> al_lastFired (?ys ! 1)"
    using sorted_sort_key [of al_lastFired "map snd xs"] len
    by (simp add: sorted_iff_nth_mono alertRegistryCap_def)
  ultimately show False using a0 \<open>a = a0\<close> by simp
qed

definition fired_before :: "time \<Rightarrow> alert_manager \<Rightarrow> bool" where
  "fired_before t am \<longleftrightarrow> (\<forall>(k, a) \<in> set (am_active am). al_lastFired a < t)"

lemma record_life:
  assumes inv: "am_inv am" and fb: "fired_before now am"
    and r: "record_events rule p now am = (evs, am')"
  shows "life (k \<in> keys am) (key_events k evs) = Some (k \<in> keys am')"
proof -
  let ?A = "active_after_fire rule p now am"
  let ?K = "alertKey rule (dp_driver p) (dp_tag p)"
  let ?S = "al_key ` set (over_cap ?A)"
  note wf = active_after_fire_wf [OF inv, where rule = rule and p = p and now = now]
  note oc = over_cap_keys [OF wf(1,2)]
  have d: "distinct (map fst (am_active am))" and len: "length (am_active am) \<le> alertRegistryCap"
    using inv by (auto simp: am_inv_def)
  define a where "a = fire p now (case map_of (am_active am) ?K of Some a \<Rightarrow> a | None \<Rightarrow> new_alert rule p now)"
  have A: "?A = update_key ?K a (am_active am)" by (simp add: active_after_fire_def Let_def a_def)
  have "\<forall>(k, b) \<in> set ?A. k \<noteq> ?K \<longrightarrow> al_lastFired b < al_lastFired a"
    using fb by (auto simp: A update_key_set [OF d] fired_before_def a_def fire_def)
  moreover have "(?K, a) \<in> set ?A" by (simp add: A update_key_set [OF d])
  ultimately have new: "?K \<notin> ?S"
    using len by (intro newest_not_capped [OF wf(1,2)]) (auto simp: A update_key_length)
  have keys': "keys am' = insert ?K (keys am) - ?S"
  proof -
    have "keys am' = fst ` set ?A - ?S" using r by (force simp: record_events_eq keys_def)
    with wf(3) show ?thesis by simp
  qed
  have K: "map_of (am_active am) ?K = None \<longleftrightarrow> ?K \<notin> keys am" by (simp add: map_of_eq_None_iff keys_def)
  have S: "?S \<subseteq> insert ?K (keys am)" using over_cap_subset [OF wf(1,2)] wf(3) by simp
  have "key_events k evs = (if k \<in> ?S then [AlertCleared] else []) @
      (if k = ?K \<and> ?K \<notin> keys am then [AlertFired] else [])"
    using r K key_events_cleared [OF oc(1), of k now]
    by (auto simp: record_events_eq key_events_def event_def new_alert_def split: option.splits)
  then show ?thesis using new S by (cases "k = ?K"; cases "k \<in> ?S"; cases "k \<in> keys am") (auto simp: keys')
qed

lemma keys_filter_compl:
  "distinct (map fst xs) \<Longrightarrow>
   fst ` set (filter (\<lambda>(k, a). \<not> P a) xs) = fst ` set xs - fst ` set (filter (\<lambda>(k, a). P a) xs)"
proof (induction xs)
  case (Cons x xs)
  obtain k a where x: "x = (k, a)" by fastforce
  have "fst ` set (filter Q xs) \<subseteq> fst ` set xs" for Q by auto
  with Cons show ?case by (auto simp: x)
qed simp

lemma ack_life:
  assumes "am_inv am" and "ack_events key now am = Inr (evs, am')"
  shows "am_inv am' \<and> life (k \<in> keys am) (key_events k evs) = Some (k \<in> keys am')"
proof -
  obtain a where a: "map_of (am_active am) key = Some a" using assms(2) by (auto simp: ack_events_def split: option.splits)
  have d: "distinct (map fst (am_active am))" using assms(1) by (simp add: am_inv_def)
  have m: "(key, a) \<in> set (am_active am)" using a by (rule map_of_SomeD)
  then have K: "key \<in> keys am" "al_key a = key" using assms(1) by (force simp: keys_def am_inv_def)+
  define a' where "a' = a\<lparr>al_acked := True, al_ackedAt := now\<rparr>"
  have r: "evs = [event AlertAcked now a']" "am_active am' = update_key key a' (am_active am)"
    using assms(2) a by (auto simp: ack_events_def a'_def Let_def)
  have "keys am' = keys am" using K r(2) by (auto simp: keys_def update_key_fst)
  moreover have "am_inv am'"
    using assms(1) K by (auto simp: am_inv_def r update_key_distinct update_key_set [OF d] update_key_length
        keys_def a'_def)
  ultimately show ?thesis using K by (auto simp: r key_events_def event_def a'_def)
qed

lemma sweep_life:
  assumes "am_inv am" and "sweep_events now am = (evs, am')"
  shows "am_inv am' \<and> life (k \<in> keys am) (key_events k evs) = Some (k \<in> keys am')"
proof -
  let ?gone = "filter (\<lambda>(k, a). expired now am a) (am_active am)"
  have r: "evs = map (event AlertCleared now) (map snd ?gone)"
    "am_active am' = filter (\<lambda>(k, a). \<not> expired now am a) (am_active am)"
    using assms(2) by (auto simp: sweep_events_def)
  have d: "distinct (map fst (am_active am))" and ak: "\<forall>(k, a) \<in> set (am_active am). al_key a = k"
    using assms(1) by (auto simp: am_inv_def)
  have mk: "map al_key (map snd ?gone) = map fst ?gone" using ak by auto
  have dg: "distinct (map al_key (map snd ?gone))" unfolding mk using d by (rule distinct_map_filter)
  have "al_key ` set (map snd ?gone) = fst ` set ?gone" using mk by (metis list.set_map)
  then have ev: "key_events k evs = (if k \<in> fst ` set ?gone then [AlertCleared] else [])"
    using key_events_cleared [OF dg] by (simp add: r)
  have "keys am' = keys am - fst ` set ?gone"
    unfolding keys_def r by (rule keys_filter_compl [OF d])
  moreover have "fst ` set ?gone \<subseteq> keys am" by (auto simp: keys_def)
  moreover have "am_inv am'"
    using assms(1) by (auto simp: am_inv_def r distinct_map_filter intro: le_trans [OF length_filter_le])
  ultimately show ?thesis using ev by auto
qed

lemma op_life:
  assumes "am_inv am" and "fired_before (fst x) am" and "op_events x am = (evs, am')"
  shows "am_inv am' \<and> life (k \<in> keys am) (key_events k evs) = Some (k \<in> keys am')"
proof (cases "(x, am)" rule: op_events.cases)
  case (1 now rule p)
  then show ?thesis using assms record_inv record_life by simp
next
  case (2 now key)
  then show ?thesis using assms ack_life by (auto simp: key_events_def split: sum.splits)
next
  case (3 now)
  then show ?thesis using assms sweep_life by simp
qed

lemma op_fired_before:
  assumes "am_inv am" and "fired_before (fst x) am" and "op_events x am = (evs, am')" and "fst x < t"
  shows "fired_before t am'"
proof (cases "(x, am)" rule: op_events.cases)
  case (1 now rule p)
  have "al_lastFired a \<le> now" if "(k, a) \<in> set (active_after_fire rule p now am)" for k a
    using that assms(1,2) 1
    by (auto simp: active_after_fire_def Let_def am_inv_def update_key_set fire_def fired_before_def)
  moreover have "set (am_active am') \<subseteq> set (active_after_fire rule p now am)"
    using 1 assms(3) by (auto simp: record_events_eq)
  ultimately show ?thesis using 1 assms(4) unfolding fired_before_def by fastforce
next
  case (2 now key)
  have old: "al_lastFired a < now" if "(k, a) \<in> set (am_active am)" for k a
    using that 2 assms(2) by (auto simp: fired_before_def)
  have d: "distinct (map fst (am_active am))" using assms(1) by (simp add: am_inv_def)
  show ?thesis
  proof (cases "map_of (am_active am) key")
    case None
    then have "am' = am" using 2 assms(3) by (simp add: ack_events_def)
    then show ?thesis using 2 assms(4) old by (force simp: fired_before_def)
  next
    case (Some a)
    then have "am_active am' = update_key key (a\<lparr>al_acked := True, al_ackedAt := now\<rparr>) (am_active am)"
      using 2 assms(3) by (auto simp: ack_events_def Let_def)
    moreover have "now < t" using 2 assms(4) by simp
    moreover have "al_lastFired a < now" using old map_of_SomeD [OF Some] by blast
    moreover have "al_lastFired b < t" if "(k, b) \<in> set (am_active am)" for k b
      using old [OF that] \<open>now < t\<close> by simp
    ultimately show ?thesis
      by (auto simp: fired_before_def update_key_set [OF d])
  qed
next
  case (3 now)
  with assms show ?thesis by (fastforce simp: sweep_events_def fired_before_def)
qed

text \<open>A run of operations with their times, and the events it emits.\<close>

fun am_run :: "(time \<times> alert_op) list \<Rightarrow> alert_manager \<Rightarrow> alert_event list \<times> alert_manager" where
  "am_run [] am = ([], am)"
| "am_run (x # xs) am =
     (case am_run xs (apply_op x am) of (evs, am') \<Rightarrow> (fst (op_events x am) @ evs, am'))"

lemma am_inv_emit [simp]: "am_inv (emit evs am) = am_inv am"
  by (simp add: am_inv_def)

lemma keys_emit [simp]: "keys (emit evs am) = keys am"
  by (simp add: keys_def)

lemma op_events_history: "op_events x am = (evs, am') \<Longrightarrow> am_history am' = am_history am"
  by (cases "(x, am)" rule: op_events.cases)
    (auto simp: record_events_eq ack_events_def sweep_events_def Let_def split: sum.splits option.splits)

lemma am_run_life:
  assumes "am_inv am" and "sorted_wrt (<) (map fst ops)" and "\<forall>x \<in> set ops. fired_before (fst x) am"
    and "length (am_history am) \<le> alertHistoryCap" and "am_run ops am = (evs, am')"
  shows "am_inv am' \<and> life (k \<in> keys am) (key_events k evs) = Some (k \<in> keys am')
    \<and> am_history am' = keep_last alertHistoryCap (am_history am @ evs)"
  using assms
proof (induction ops arbitrary: am evs)
  case Nil
  then show ?case by (simp add: key_events_def)
next
  case (Cons x xs)
  obtain e1 am1 where o: "op_events x am = (e1, am1)" by fastforce
  obtain e2 where e2: "am_run xs (emit e1 am1) = (e2, am')" "evs = e1 @ e2"
    using Cons.prems(5) by (auto simp: apply_op_events o split: prod.splits)
  have l: "am_inv am1" "life (k \<in> keys am) (key_events k e1) = Some (k \<in> keys am1)"
    using op_life [OF Cons.prems(1) _ o, of k] Cons.prems(3) by auto
  have h: "am_history (emit e1 am1) = keep_last alertHistoryCap (am_history am @ e1)"
    using emit_history op_events_history [OF o] Cons.prems(4) by simp
  have "fired_before t am1" if "fst x < t" for t
    using op_fired_before [OF Cons.prems(1) _ o that] Cons.prems(3) by simp
  then have "\<forall>y \<in> set xs. fired_before (fst y) (emit e1 am1)"
    using Cons.prems(2) by (auto simp: fired_before_def)
  then have "am_inv am' \<and> life (k \<in> keys (emit e1 am1)) (key_events k e2) = Some (k \<in> keys am')
      \<and> am_history am' = keep_last alertHistoryCap (am_history (emit e1 am1) @ e2)"
    using l(1) Cons.prems(2) h e2(1) by (intro Cons.IH) auto
  with l(2) h e2(2) show ?case
    by (auto simp: life_append keep_last_idem)
qed


text \<open>
  Re-firing an active alert updates it in place: no event, the same first fire and
  acknowledgement (an acknowledged alert is not reopened), one more in the count, the new value,
  quality and time; every other alert is untouched, and the rule's fire counter grows by one.
\<close>

theorem refire_updates_in_place:
  assumes "am_inv am" and "map_of (am_active am) (alertKey rule (dp_driver p) (dp_tag p)) = Some a"
  shows "fst (record_events rule p now am) = []
    \<and> map_of (am_active (am_record rule p now am)) = (map_of (am_active am))
        (alertKey rule (dp_driver p) (dp_tag p) \<mapsto> a\<lparr>al_value := dp_value p, al_quality := dp_quality p,
           al_lastFired := now, al_count := al_count a + 1\<rparr>)
    \<and> fireCounts (am_record rule p now am) rule = fireCounts am rule + 1"
proof -
  let ?K = "alertKey rule (dp_driver p) (dp_tag p)"
  have A: "active_after_fire rule p now am = update_key ?K (fire p now a) (am_active am)"
    by (simp add: active_after_fire_def assms(2))
  have "?K \<in> fst ` set (am_active am)" using assms(2) by (metis map_of_eq_None_iff option.distinct(1))
  then have "length (active_after_fire rule p now am) \<le> alertRegistryCap"
    using assms(1) by (simp add: A update_key_length am_inv_def)
  then have "over_cap (active_after_fire rule p now am) = []" by (simp add: over_cap_def)
  then have "record_events rule p now am = ([], am\<lparr>am_firedByRule := (am_firedByRule am)(rule := am_firedByRule am rule + 1),
      am_active := update_key ?K (fire p now a) (am_active am)\<rparr>)"
    by (simp add: record_events_eq assms(2) A)
  then show ?thesis
    by (simp add: am_record_def emit_def update_key_map_of fire_def fireCounts_def)
qed

text \<open>
  A sweep clears exactly the alerts that have been silent for the whole window, with one
  cleared event each, and keeps every other alert as it is.
\<close>

theorem sweep_clears_exactly_expired:
  "set (am_active (sweep now am)) = {(k, a). (k, a) \<in> set (am_active am) \<and> now - al_lastFired a < am_activeWindow am}
   \<and> map ae_alert (fst (sweep_events now am)) = filter (expired now am) (map snd (am_active am))
   \<and> (\<forall>e \<in> set (fst (sweep_events now am)). ae_type e = AlertCleared \<and> ae_at e = now)"
  by (auto simp: sweep_def sweep_events_def expired_def event_def o_def filter_map case_prod_unfold)

text \<open>
  The event of a new alert is taken before the fire is counted: it reports zero fires and no
  last fire.
\<close>

lemma fired_event_snapshot:
  "ae_type e = AlertFired \<Longrightarrow> e \<in> set (fst (record_events rule p now am)) \<Longrightarrow>
   al_count (ae_alert e) = 0 \<and> al_lastFired (ae_alert e) = 0"
  by (auto simp: record_events_eq event_def new_alert_def split: option.splits)

text \<open>The identity of an alert is not injective in its parts.\<close>

lemma alertKey_collision: "alertKey ''r|x'' ''d'' ''t'' = alertKey ''r'' ''x|d'' ''t''"
  by (simp add: alertKey_def)

section \<open>Witnesses\<close>

definition alert_point :: data_point where
  "alert_point = \<lparr>dp_driver = ''plc'', dp_device = [], dp_group = [], dp_tag = ''t'', dp_value = VNil,
     dp_type = TypeBool, dp_quality = QualityGood, dp_timestamp = 0, dp_metadata = [], dp_is_stale = False\<rparr>"

definition demo_ops :: "(time \<times> alert_op) list" where
  "demo_ops = [(1, Fire ''hot'' alert_point), (2, Fire ''hot'' alert_point), (3, AckOp ''hot|plc|t''), (2000, SweepOp)]"


theorem refire_updates_in_place_witness:
  "fst (record_events ''hot'' alert_point 5 (am_record ''hot'' alert_point 1 (newAlertManager 100))) = []"
proof -
  have i: "am_inv (am_record ''hot'' alert_point 1 (newAlertManager 100))"
    using record_inv [of "newAlertManager 100"] by (auto simp: am_record_def am_inv_def newAlertManager_def split: prod.splits)
  have m: "map_of (am_active (am_record ''hot'' alert_point 1 (newAlertManager 100)))
      (alertKey ''hot'' (dp_driver alert_point) (dp_tag alert_point)) = Some (fire alert_point 1 (new_alert ''hot'' alert_point 1))"
    by (simp add: am_record_def record_events_eq active_after_fire_def newAlertManager_def over_cap_def Let_def
        alertRegistryCap_def)
  from refire_updates_in_place [OF i m, of 5] show ?thesis by simp
qed

theorem sweep_clears_exactly_expired_witness:
  "am_active (sweep 500 (am_record ''hot'' alert_point 1 (newAlertManager 100))) = []"
proof -
  let ?am = "am_record ''hot'' alert_point 1 (newAlertManager 100)"
  have "am_active ?am = [(''hot|plc|t'', fire alert_point 1 (new_alert ''hot'' alert_point 1))]"
    "am_activeWindow ?am = 100"
    by (simp_all add: am_record_def record_events_eq active_after_fire_def newAlertManager_def over_cap_def
        Let_def alertRegistryCap_def alertKey_def alert_point_def)
  then have "set (am_active (sweep 500 ?am)) = {}"
    using sweep_clears_exactly_expired [of 500 ?am] by (auto simp: fire_def)
  then show ?thesis by simp
qed

end
