(* ===== verification/Fan_Out.thy ===== *)
theory Fan_Out
  imports Prelude
begin

text \<open>
  The generic event fan-out, \<^verbatim>\<open>common/observable/observable.go\<close>, behind the alert stream and the
  log stream. A subscription is identified by a number (in the code, by its channel). The fan-out
  goroutine is the sequence of \<open>fan_one\<close> steps, one per value read from the source, ended by
  \<open>obs_finish\<close> when the source is closed. Sending on or closing a closed channel panics.
\<close>

record 'a observable =
  ob_subs :: "(nat \<times> 'a chan) list"
  ob_next :: nat
  ob_dropped :: nat

datatype go_panic = SendOnClosed | CloseOfClosed

definition NewObservable :: "'a observable" where
  "NewObservable = \<lparr>ob_subs = [], ob_next = 0, ob_dropped = 0\<rparr>"

definition DefaultObsBuffer :: int where "DefaultObsBuffer = 128"

definition obs_SubscribeWithBuffer :: "int \<Rightarrow> 'a observable \<Rightarrow> nat \<times> 'a observable" where
  "obs_SubscribeWithBuffer sz ob =
     (let sz = (if sz \<le> 0 then DefaultObsBuffer else sz)
      in (ob_next ob, ob\<lparr>ob_subs := ob_subs ob @ [(ob_next ob, make_chan (nat sz))], ob_next := ob_next ob + 1\<rparr>))"

definition obs_Subscribe :: "'a observable \<Rightarrow> nat \<times> 'a observable" where
  "obs_Subscribe ob = obs_SubscribeWithBuffer DefaultObsBuffer ob"

text \<open>The loop over the subscribers for one value: the channels afterwards and the losses.\<close>

fun fan_subs :: "'a \<Rightarrow> (nat \<times> 'a chan) list \<Rightarrow> (go_panic, (nat \<times> 'a chan) list \<times> nat) result" where
  "fan_subs v [] = Inr ([], 0)"
| "fan_subs v ((i, c) # subs) =
     (case ch_try_send v c of
        SendPanic \<Rightarrow> Inl SendOnClosed
      | Sent c' \<Rightarrow> (case fan_subs v subs of Inl p \<Rightarrow> Inl p | Inr (subs', n) \<Rightarrow> Inr ((i, c') # subs', n))
      | SendFull \<Rightarrow> (case fan_subs v subs of Inl p \<Rightarrow> Inl p | Inr (subs', n) \<Rightarrow> Inr ((i, c) # subs', n + 1)))"

definition fan_one :: "'a \<Rightarrow> 'a observable \<Rightarrow> (go_panic, 'a observable) result" where
  "fan_one v ob =
     (case fan_subs v (ob_subs ob) of
        Inl p \<Rightarrow> Inl p
      | Inr (subs, n) \<Rightarrow> Inr (ob\<lparr>ob_subs := subs, ob_dropped := ob_dropped ob + n\<rparr>))"

fun fan_all :: "'a list \<Rightarrow> 'a observable \<Rightarrow> (go_panic, 'a observable) result" where
  "fan_all [] ob = Inr ob"
| "fan_all (v # vs) ob = (case fan_one v ob of Inl p \<Rightarrow> Inl p | Inr ob' \<Rightarrow> fan_all vs ob')"

text \<open>The end of the goroutine: the channels are closed and stay in the map.\<close>

definition obs_finish :: "'a observable \<Rightarrow> 'a observable" where
  "obs_finish ob = ob\<lparr>ob_subs := map (apsnd ch_close) (ob_subs ob)\<rparr>"

definition obs_unsub :: "nat \<Rightarrow> 'a observable \<Rightarrow> (go_panic, 'a observable) result" where
  "obs_unsub i ob =
     (case map_of (ob_subs ob) i of
        None \<Rightarrow> Inr ob
      | Some c \<Rightarrow> if ch_closed c then Inl CloseOfClosed
                  else Inr (ob\<lparr>ob_subs := filter (\<lambda>(j, _). j \<noteq> i) (ob_subs ob)\<rparr>))"

section \<open>Correctness\<close>

text \<open>While the fan-out runs, identifiers are distinct and every channel in the map is open.\<close>

definition obs_inv :: "'a observable \<Rightarrow> bool" where
  "obs_inv ob \<longleftrightarrow> distinct (map fst (ob_subs ob)) \<and> (\<forall>(i, c) \<in> set (ob_subs ob). i < ob_next ob \<and> \<not> ch_closed c)"

definition queued :: "(nat \<times> 'a chan) list \<Rightarrow> nat" where
  "queued subs = sum_list (map (\<lambda>(i, c). length (ch_buf c)) subs)"

lemma obs_inv_new: "obs_inv NewObservable"
  by (simp add: obs_inv_def NewObservable_def)

lemma obs_inv_subscribe: "obs_inv ob \<Longrightarrow> obs_inv (snd (obs_SubscribeWithBuffer sz ob))"
  by (fastforce simp: obs_inv_def obs_SubscribeWithBuffer_def Let_def make_chan_def)

lemma obs_inv_unsub:
  assumes "obs_inv ob"
  shows "\<exists>ob'. obs_unsub i ob = Inr ob' \<and> obs_inv ob' \<and> i \<notin> fst ` set (ob_subs ob')"
proof (cases "map_of (ob_subs ob) i")
  case None
  then have "obs_unsub i ob = Inr ob" and "i \<notin> fst ` set (ob_subs ob)"
    by (simp_all add: obs_unsub_def) (simp add: map_of_eq_None_iff)
  with assms show ?thesis by simp
next
  case (Some c)
  then have "\<not> ch_closed c" using assms by (auto simp: obs_inv_def dest: map_of_SomeD)
  with Some assms show ?thesis by (auto simp: obs_unsub_def obs_inv_def distinct_map_filter)
qed

text \<open>One value: every subscriber with room gets it, every other one counts as one loss.\<close>

definition receive :: "'a \<Rightarrow> 'a chan \<Rightarrow> 'a chan" where
  "receive v c = (if length (ch_buf c) < ch_cap c then c\<lparr>ch_buf := ch_buf c @ [v]\<rparr> else c)"

lemma ch_closed_receive [simp]: "ch_closed (receive v c) = ch_closed c"
  by (simp add: receive_def)

lemma fan_subs_open:
  "\<forall>(i, c) \<in> set subs. \<not> ch_closed c \<Longrightarrow>
   fan_subs v subs = Inr (map (apsnd (receive v)) subs, length (filter (\<lambda>(i, c). ch_cap c \<le> length (ch_buf c)) subs))"
  by (induction v subs rule: fan_subs.induct) (auto simp: ch_try_send_def receive_def)

lemma fan_one_open:
  assumes "obs_inv ob"
  shows "fan_one v ob = Inr (ob\<lparr>ob_subs := map (apsnd (receive v)) (ob_subs ob),
      ob_dropped := ob_dropped ob + length (filter (\<lambda>(i, c). ch_cap c \<le> length (ch_buf c)) (ob_subs ob))\<rparr>)"
proof -
  have "\<forall>(i, c) \<in> set (ob_subs ob). \<not> ch_closed c" using assms by (auto simp: obs_inv_def)
  from fan_subs_open [OF this] show ?thesis by (simp add: fan_one_def)
qed

lemma queued_receive:
  "queued (map (apsnd (receive v)) subs) + length (filter (\<lambda>(i, c). ch_cap c \<le> length (ch_buf c)) subs)
   = queued subs + length subs"
  by (induction subs) (auto simp: queued_def receive_def)

lemma fan_one_inv:
  assumes "obs_inv ob" and "fan_one v ob = Inr ob'"
  shows "obs_inv ob' \<and> map fst (ob_subs ob') = map fst (ob_subs ob)
    \<and> queued (ob_subs ob') + ob_dropped ob' = queued (ob_subs ob) + ob_dropped ob + length (ob_subs ob)"
proof -
  have ob': "ob' = ob\<lparr>ob_subs := map (apsnd (receive v)) (ob_subs ob),
      ob_dropped := ob_dropped ob + length (filter (\<lambda>(i, c). ch_cap c \<le> length (ch_buf c)) (ob_subs ob))\<rparr>"
    using fan_one_open [OF assms(1), of v] assms(2) by simp
  have "map fst (ob_subs ob') = map fst (ob_subs ob)" by (simp add: ob')
  moreover have "obs_inv ob'"
    using assms(1) by (auto simp: ob' obs_inv_def)
  moreover have "queued (ob_subs ob') + ob_dropped ob' = queued (ob_subs ob) + ob_dropped ob + length (ob_subs ob)"
    using queued_receive [of v "ob_subs ob"] by (simp add: ob')
  ultimately show ?thesis by blast
qed

text \<open>
  The fan-out never panics and loses nothing silently while the source is open: for any
  sequence of values the goroutine completes, the subscriptions stay the same, and every value is
  accounted for at every subscriber, either queued there or counted in the drop counter.
\<close>

theorem fan_out_accounts_for_every_value:
  assumes "obs_inv ob"
  shows "\<exists>ob'. fan_all vs ob = Inr ob' \<and> obs_inv ob' \<and> map fst (ob_subs ob') = map fst (ob_subs ob)
    \<and> queued (ob_subs ob') + ob_dropped ob' = queued (ob_subs ob) + ob_dropped ob + length vs * length (ob_subs ob)"
  using assms
proof (induction vs arbitrary: ob)
  case Nil
  then show ?case by simp
next
  case (Cons v vs)
  obtain ob1 where ob1: "fan_one v ob = Inr ob1" using fan_one_open [OF Cons.prems] by blast
  note i = fan_one_inv [OF Cons.prems ob1]
  then have "length (ob_subs ob1) = length (ob_subs ob)" by (metis length_map)
  with Cons.IH [of ob1] i ob1 show ?case by auto
qed

text \<open>
  After the source is closed the channels are closed but stay in the map, so unsubscribing then
  closes a closed channel: the deferred unsubscribe of a stream handler panics after shutdown.
\<close>

lemma unsub_after_finish_panics:
  assumes "obs_inv ob" and "i \<in> fst ` set (ob_subs ob)"
  shows "obs_unsub i (obs_finish ob) = Inl CloseOfClosed"
proof -
  obtain c where "map_of (ob_subs ob) i = Some c" using assms(2) by (metis map_of_eq_None_iff option.exhaust)
  then have "map_of (ob_subs (obs_finish ob)) i = Some (ch_close c)"
    by (simp add: obs_finish_def apsnd_def map_prod_def map_of_map case_prod_unfold [symmetric] o_def)
  then show ?thesis by (simp add: obs_unsub_def ch_close_def)
qed

theorem fan_out_accounts_for_every_value_witness:
  "\<exists>ob'. fan_all [1, 2, 3 :: nat] (snd (obs_SubscribeWithBuffer 2 NewObservable)) = Inr ob'
     \<and> queued (ob_subs ob') + ob_dropped ob' = 3"
  using fan_out_accounts_for_every_value [of "snd (obs_SubscribeWithBuffer 2 NewObservable)" "[1, 2, 3 :: nat]",
      OF obs_inv_subscribe [OF obs_inv_new]]
  by (auto simp: obs_SubscribeWithBuffer_def NewObservable_def queued_def make_chan_def)

end
