(* ===== verification/Go_Float.thy ===== *)
theory Go_Float
  imports Prelude "HOL-Library.Log_Nat"
begin

text \<open>
  Go's \<^verbatim>\<open>float64\<close> and \<^verbatim>\<open>float32\<close>: bit patterns, exact rational values, and the operations the
  sources use (conversion, multiplication, addition, subtraction, division), rounded to nearest
  with ties to even. Every operation rounds once (no fused multiply-add, as on amd64). A NaN result
  is the pattern of \<^verbatim>\<open>math.NaN()\<close>. The theory works on magnitudes (patterns without the sign) of a
  format with \<open>p\<close> fraction bits whose smallest positive number is \<open>2 ^ qmin\<close>.
\<close>

section \<open>Powers of two and logarithms\<close>

definition pow2 :: "int \<Rightarrow> rat" where
  "pow2 e = (if 0 \<le> e then 2 ^ nat e else 1 / 2 ^ nat (- e))"

lemma pow2_powi: "pow2 e = 2 powi e"
  by (simp add: pow2_def power_int_def field_simps)

lemma pow2_pos [simp]: "0 < pow2 e"
  by (simp add: pow2_def)

lemma pow2_nonzero [simp]: "pow2 e \<noteq> 0"
  by (metis less_irrefl pow2_pos)

lemma pow2_add: "pow2 (a + b) = pow2 a * pow2 b"
  by (simp add: pow2_powi power_int_add)

lemma pow2_diff: "pow2 (a - b) = pow2 a / pow2 b"
  by (simp add: pow2_powi power_int_diff)

lemma pow2_nat: "pow2 (int n) = 2 ^ n"
  by (simp add: pow2_def)

lemma pow2_0 [simp]: "pow2 0 = 1"
  by (simp add: pow2_def)

lemma pow2_mono: "a \<le> b \<Longrightarrow> pow2 a \<le> pow2 b"
  by (simp add: pow2_powi power_int_increasing)

lemma pow2_less_imp: "pow2 a < pow2 b \<Longrightarrow> a < b"
  using pow2_mono [of b a] by (meson leD leI)

definition ilog2 :: "rat \<Rightarrow> int" where
  "ilog2 x = (let (n, d) = quotient_of x; l = int (floorlog 2 (nat n)) - int (floorlog 2 (nat d))
              in if pow2 l \<le> x then l else l - 1)"

lemma floorlog2_int:
  assumes "0 < n"
  shows "pow2 (int (floorlog 2 (nat n)) - 1) \<le> of_int n \<and> of_int n < pow2 (int (floorlog 2 (nat n)))"
proof -
  define a where "a = floorlog 2 (nat n)"
  have a: "0 < a" "2 ^ (a - 1) \<le> nat n" "nat n < 2 ^ a"
    using assms floorlog_bounds [of "nat n" 2] by (auto simp: a_def floorlog_def)
  have "(of_nat (2 ^ (a - 1)) :: rat) \<le> of_nat (nat n)" "(of_nat (nat n) :: rat) < of_nat (2 ^ a)"
    using a(2,3) of_nat_le_iff of_nat_less_iff by blast+
  moreover have "pow2 (int a - 1) = 2 ^ (a - 1)" using a(1) pow2_nat [of "a - 1"] by (simp add: of_nat_diff)
  ultimately show ?thesis using assms by (simp add: a_def [symmetric] pow2_nat of_nat_nat)
qed

lemma ilog2_bounds:
  assumes "0 < x"
  shows "pow2 (ilog2 x) \<le> x \<and> x < pow2 (ilog2 x + 1)"
proof -
  obtain n d where q: "quotient_of x = (n, d)" by fastforce
  then have d: "0 < d" and x: "x = of_int n / of_int d" by (simp_all add: quotient_of_denom_pos quotient_of_div)
  then have n: "0 < n" using assms by (simp add: zero_less_divide_iff)
  define a where "a = floorlog 2 (nat n)"
  define b where "b = floorlog 2 (nat d)"
  have na: "pow2 (int a - 1) \<le> of_int n" "of_int n < pow2 (int a)"
    and db: "pow2 (int b - 1) \<le> of_int d" "of_int d < pow2 (int b)"
    using floorlog2_int [OF n] floorlog2_int [OF d] by (simp_all add: a_def b_def)
  have up: "x < pow2 (int a - int b + 1)"
  proof -
    have "x < pow2 (int a) / pow2 (int b - 1)"
      unfolding x using na(2) db(1) n d by (intro frac_less) auto
    also have "\<dots> = pow2 (int a - int b + 1)" by (simp add: pow2_diff [symmetric] algebra_simps)
    finally show ?thesis .
  qed
  have low: "pow2 (int a - int b - 1) < x"
  proof -
    have "pow2 (int a - int b - 1) = pow2 (int a - 1) / pow2 (int b)"
      by (simp add: pow2_diff [symmetric] algebra_simps)
    also have "\<dots> < x" unfolding x using na(1) db(2) n d by (intro frac_less2) auto
    finally show ?thesis .
  qed
  show ?thesis using up low by (auto simp: ilog2_def q a_def [symmetric] b_def [symmetric] Let_def)
qed

lemma ilog2_unique:
  assumes "pow2 l \<le> x" and "x < pow2 (l + 1)"
  shows "ilog2 x = l"
proof -
  have "0 < x" using assms(1) pow2_pos [of l] by linarith
  note b = ilog2_bounds [OF this]
  have "ilog2 x < l + 1" using b assms(2) by (intro pow2_less_imp) linarith
  moreover have "l < ilog2 x + 1" using b assms(1) by (intro pow2_less_imp) linarith
  ultimately show ?thesis by simp
qed

section \<open>Magnitudes\<close>

text \<open>The value of a magnitude with \<open>p\<close> fraction bits.\<close>

definition mag_val :: "nat \<Rightarrow> int \<Rightarrow> nat \<Rightarrow> rat" where
  "mag_val p qmin b =
     (let e = b div 2 ^ p; m = b mod 2 ^ p
      in if e = 0 then of_nat m * pow2 qmin else of_nat (2 ^ p + m) * pow2 (qmin + int e - 1))"

definition round_even :: "rat \<Rightarrow> int" where
  "round_even x =
     (let f = \<lfloor>x\<rfloor>; r = x - of_int f
      in if r < 1 / 2 then f else if r > 1 / 2 then f + 1 else if even f then f else f + 1)"

text \<open>The magnitude nearest to a non-negative number; \<open>infb\<close> is the pattern of infinity.\<close>

definition round_mag :: "nat \<Rightarrow> int \<Rightarrow> nat \<Rightarrow> rat \<Rightarrow> nat" where
  "round_mag p qmin infb x =
     (if x = 0 then 0
      else let q = max (ilog2 x - int p) qmin;
               m = nat (round_even (x / pow2 q))
           in min (nat (q - qmin) * 2 ^ p + m) infb)"

lemma round_even_int [simp]: "round_even (of_int n) = n"
  by (simp add: round_even_def Let_def)

lemma round_even_nat [simp]: "round_even (of_nat n) = int n"
  using round_even_int [of "int n"] by simp

text \<open>Rounding is exact on every representable number.\<close>

lemma round_mag_exact:
  assumes "b < infb"
  shows "round_mag p qmin infb (mag_val p qmin b) = b"
proof -
  define e where "e = b div 2 ^ p"
  define m where "m = b mod 2 ^ p"
  have b: "b = e * 2 ^ p + m" unfolding e_def m_def by (rule div_mult_mod_eq [symmetric])
  have m: "m < 2 ^ p" by (simp add: m_def)
  have m': "(of_nat m :: rat) < 2 ^ p" using m by (metis of_nat_less_iff of_nat_numeral of_nat_power)
  show ?thesis
  proof (cases "e = 0")
    case True
    then have v: "mag_val p qmin b = of_nat m * pow2 qmin" by (simp add: mag_val_def e_def m_def Let_def)
    show ?thesis
    proof (cases "m = 0")
      case True
      then show ?thesis using v b \<open>e = 0\<close> by (simp add: round_mag_def)
    next
      case False
      let ?x = "of_nat m * pow2 qmin"
      have "?x < 2 ^ p * pow2 qmin" using m' by simp
      then have "?x < pow2 (int p + qmin)" by (simp add: pow2_add pow2_nat)
      then have "ilog2 ?x < int p + qmin"
        using ilog2_bounds [of ?x] False by (intro pow2_less_imp) (auto intro: le_less_trans)
      then have "max (ilog2 ?x - int p) qmin = qmin" by simp
      then show ?thesis using False v b \<open>e = 0\<close> assms by (simp add: round_mag_def)
    qed
  next
    case False
    let ?q = "qmin + int e - 1"
    let ?x = "of_nat (2 ^ p + m) * pow2 ?q"
    have v: "mag_val p qmin b = ?x" using False by (simp add: mag_val_def e_def m_def Let_def)
    have "ilog2 ?x = int p + ?q"
    proof (rule ilog2_unique)
      show "pow2 (int p + ?q) \<le> ?x" by (simp add: pow2_add pow2_nat)
      have "(of_nat (2 ^ p + m) :: rat) < 2 ^ (p + 1)" using m' by simp
      then have "?x < 2 ^ (p + 1) * pow2 ?q" by simp
      also have "\<dots> = pow2 (int (p + 1) + ?q)" by (simp only: pow2_add pow2_nat)
      also have "int (p + 1) + ?q = int p + ?q + 1" by simp
      finally show "?x < pow2 (int p + ?q + 1)" .
    qed
    moreover have "?x \<noteq> 0" by (simp del: of_nat_add)
    moreover have "max (int p + ?q - int p) qmin = ?q" using False by simp
    moreover have "nat (?q - qmin) * 2 ^ p + (2 ^ p + m) = b" using False b by (cases e) auto
    ultimately show ?thesis using v assms by (simp add: round_mag_def del: of_nat_add)
  qed
qed

lemma mag_val_nonneg [simp]: "0 \<le> mag_val p qmin b"
  by (simp add: mag_val_def Let_def less_imp_le [OF pow2_pos])

lemma mag_val_0_iff: "mag_val p qmin b = 0 \<longleftrightarrow> b = 0"
proof -
  have "mag_val p qmin b = 0 \<longleftrightarrow> b div 2 ^ p = 0 \<and> b mod 2 ^ p = 0"
    by (auto simp: mag_val_def Let_def simp del: of_nat_add)
  also have "\<dots> \<longleftrightarrow> b = 0" by (metis add.right_neutral div_0 div_mult_mod_eq mod_0 mult_0)
  finally show ?thesis .
qed

text \<open>Integers up to \<open>2 ^ p\<close> are representable.\<close>

definition int_mag :: "nat \<Rightarrow> int \<Rightarrow> nat \<Rightarrow> nat" where
  "int_mag p qmin n =
     (if n = 0 then 0 else let l = floorlog 2 n - 1 in nat (int l - int p - qmin) * 2 ^ p + n * 2 ^ (p - l))"

lemma mag_val_int:
  assumes "n \<le> 2 ^ p" and "qmin \<le> - int p"
  shows "mag_val p qmin (int_mag p qmin n) = of_nat n"
proof (cases "n = 0")
  case True
  then show ?thesis by (simp add: int_mag_def mag_val_def)
next
  case False
  define l where "l = floorlog 2 n - 1"
  have l: "2 ^ l \<le> n" "n < 2 ^ Suc l"
    using False floorlog_bounds [of n 2] by (auto simp: l_def floorlog_def)
  have lp: "l \<le> p"
  proof (rule ccontr)
    assume "\<not> l \<le> p"
    then have "(2 :: nat) ^ Suc p \<le> 2 ^ l" by (intro power_increasing) auto
    then have "2 * 2 ^ p \<le> n" using l(1) by simp
    with assms(1) have "(2 :: nat) * 2 ^ p \<le> 2 ^ p" by linarith
    then show False by simp
  qed
  define k where "k = nat (int l - int p - qmin)"
  have k: "int k = int l - int p - qmin" using assms(2) by (simp add: k_def)
  define m where "m = n * 2 ^ (p - l) - 2 ^ p"
  have ge: "2 ^ p \<le> n * 2 ^ (p - l)"
  proof -
    have "2 ^ p = 2 ^ l * (2 :: nat) ^ (p - l)" using lp by (simp flip: power_add)
    then show ?thesis using l(1) by simp
  qed
  have lt: "n * 2 ^ (p - l) < 2 ^ Suc p"
  proof -
    have "2 ^ Suc p = 2 ^ Suc l * (2 :: nat) ^ (p - l)" using lp by (simp flip: power_add)
    then show ?thesis using l(2) by simp
  qed
  have m: "m < 2 ^ p" "n * 2 ^ (p - l) = 2 ^ p + m" using ge lt by (auto simp: m_def)
  have "int_mag p qmin n = nat (int l - int p - qmin) * 2 ^ p + n * 2 ^ (p - l)"
    using False by (simp add: int_mag_def l_def Let_def)
  then have b: "int_mag p qmin n = (k + 1) * 2 ^ p + m" using m(2) by (simp add: k_def)
  have "int_mag p qmin n div 2 ^ p = k + 1" "int_mag p qmin n mod 2 ^ p = m"
    unfolding b using m(1) by (simp_all only: div_mult_self3 mod_mult_self3 div_less mod_less)
  then have "mag_val p qmin (int_mag p qmin n) = of_nat (n * 2 ^ (p - l)) * pow2 (qmin + int (k + 1) - 1)"
    by (simp add: mag_val_def m(2) del: of_nat_add of_nat_mult)
  also have "\<dots> = of_nat n * (2 ^ (p - l) * pow2 (int l - int p))" using k by simp
  also have "2 ^ (p - l) * pow2 (int l - int p) = 1"
    using lp by (simp add: pow2_nat [symmetric] pow2_add [symmetric] of_nat_diff)
  finally show ?thesis by simp
qed

section \<open>float64\<close>

type_synonym f64 = u64
type_synonym f32 = u32

definition f64_inf :: nat where "f64_inf = 0x7FF0000000000000"
definition f64_nan :: f64 where "f64_nan = 0x7FF8000000000001"

definition f64_mag :: "f64 \<Rightarrow> nat" where "f64_mag x = unat x mod 2 ^ 63"
definition f64_neg :: "f64 \<Rightarrow> bool" where "f64_neg x \<longleftrightarrow> 2 ^ 63 \<le> unat x"

definition f64_finite :: "f64 \<Rightarrow> bool" where "f64_finite x \<longleftrightarrow> f64_mag x < f64_inf"
definition f64_isNaN :: "f64 \<Rightarrow> bool" where "f64_isNaN x \<longleftrightarrow> f64_inf < f64_mag x"
definition f64_isInf :: "f64 \<Rightarrow> bool" where "f64_isInf x \<longleftrightarrow> f64_mag x = f64_inf"
definition f64_isZero :: "f64 \<Rightarrow> bool" where "f64_isZero x \<longleftrightarrow> f64_mag x = 0"

definition f64_make :: "bool \<Rightarrow> nat \<Rightarrow> f64" where
  "f64_make s m = word_of_nat (if s then 2 ^ 63 + m else m)"

definition f64_val :: "f64 \<Rightarrow> rat" where
  "f64_val x = (if f64_neg x then - mag_val 52 (- 1074) (f64_mag x) else mag_val 52 (- 1074) (f64_mag x))"

text \<open>Round a number; \<open>s\<close> is the sign of an exact zero.\<close>

definition f64_round :: "bool \<Rightarrow> rat \<Rightarrow> f64" where
  "f64_round s x =
     (if x = 0 then f64_make s 0 else f64_make (x < 0) (round_mag 52 (- 1074) f64_inf \<bar>x\<bar>))"

definition f64_of_int :: "int \<Rightarrow> f64" where
  "f64_of_int n = f64_round False (of_int n)"

definition f64_mul :: "f64 \<Rightarrow> f64 \<Rightarrow> f64" where
  "f64_mul a b =
     (let s = (f64_neg a \<noteq> f64_neg b)
      in if f64_isNaN a \<or> f64_isNaN b then f64_nan
         else if f64_isInf a \<or> f64_isInf b
         then if f64_isZero a \<or> f64_isZero b then f64_nan else f64_make s f64_inf
         else f64_round s (f64_val a * f64_val b))"

definition f64_add :: "f64 \<Rightarrow> f64 \<Rightarrow> f64" where
  "f64_add a b =
     (if f64_isNaN a \<or> f64_isNaN b then f64_nan
      else if f64_isInf a then if f64_isInf b \<and> f64_neg a \<noteq> f64_neg b then f64_nan else a
      else if f64_isInf b then b
      else f64_round (f64_neg a \<and> f64_neg b) (f64_val a + f64_val b))"

definition f64_negate :: "f64 \<Rightarrow> f64" where
  "f64_negate x = f64_make (\<not> f64_neg x) (f64_mag x)"

definition f64_sub :: "f64 \<Rightarrow> f64 \<Rightarrow> f64" where
  "f64_sub a b = (if f64_isNaN b then f64_nan else f64_add a (f64_negate b))"

definition f64_div :: "f64 \<Rightarrow> f64 \<Rightarrow> f64" where
  "f64_div a b =
     (let s = (f64_neg a \<noteq> f64_neg b)
      in if f64_isNaN a \<or> f64_isNaN b then f64_nan
         else if f64_isInf a then if f64_isInf b then f64_nan else f64_make s f64_inf
         else if f64_isInf b then f64_make s 0
         else if f64_isZero b then if f64_isZero a then f64_nan else f64_make s f64_inf
         else f64_round s (f64_val a / f64_val b))"

text \<open>\<^verbatim>\<open>==\<close> and \<^verbatim>\<open><\<close> on float64.\<close>

definition f64_eq :: "f64 \<Rightarrow> f64 \<Rightarrow> bool" where
  "f64_eq a b \<longleftrightarrow> \<not> f64_isNaN a \<and> \<not> f64_isNaN b \<and> (a = b \<or> f64_isZero a \<and> f64_isZero b)"

text \<open>
  Conversion to an integer type: truncation when the result fits in \<open>{lo..hi}\<close>; otherwise the
  language leaves the value to the implementation, and \<open>cv\<close> stands for it.
\<close>

definition rat_trunc :: "rat \<Rightarrow> int" where
  "rat_trunc x = (if x < 0 then - \<lfloor>- x\<rfloor> else \<lfloor>x\<rfloor>)"

definition f64_to_int :: "(f64 \<Rightarrow> int) \<Rightarrow> int \<Rightarrow> int \<Rightarrow> f64 \<Rightarrow> int" where
  "f64_to_int cv lo hi x =
     (if f64_finite x \<and> lo \<le> rat_trunc (f64_val x) \<and> rat_trunc (f64_val x) \<le> hi
      then rat_trunc (f64_val x) else cv x)"

section \<open>float32\<close>

definition f32_inf :: nat where "f32_inf = 0x7F800000"
definition f32_nan :: f32 where "f32_nan = 0x7FC00000"
definition f32_mag :: "f32 \<Rightarrow> nat" where "f32_mag x = unat x mod 2 ^ 31"
definition f32_neg :: "f32 \<Rightarrow> bool" where "f32_neg x \<longleftrightarrow> 2 ^ 31 \<le> unat x"

definition f32_make :: "bool \<Rightarrow> nat \<Rightarrow> f32" where
  "f32_make s m = word_of_nat (if s then 2 ^ 31 + m else m)"

text \<open>\<^verbatim>\<open>float64(x)\<close> of a float32 is exact; \<^verbatim>\<open>float32(x)\<close> of a float64 rounds.\<close>

definition f64_of_f32 :: "f32 \<Rightarrow> f64" where
  "f64_of_f32 x =
     (if f32_inf < f32_mag x then f64_nan
      else if f32_mag x = f32_inf then f64_make (f32_neg x) f64_inf
      else f64_make (f32_neg x) (round_mag 52 (- 1074) f64_inf (mag_val 23 (- 149) (f32_mag x))))"

definition f32_of_f64 :: "f64 \<Rightarrow> f32" where
  "f32_of_f64 x =
     (if f64_isNaN x then f32_nan
      else if f64_isInf x then f32_make (f64_neg x) f32_inf
      else f32_make (f64_neg x) (round_mag 23 (- 149) f32_inf (mag_val 52 (- 1074) (f64_mag x))))"

definition f32_of_int :: "int \<Rightarrow> f32" where
  "f32_of_int n = (if n = 0 then 0 else f32_make (n < 0) (round_mag 23 (- 149) f32_inf (of_int \<bar>n\<bar>)))"

section \<open>Values\<close>

lemma f64_mag_less: "f64_mag x < 2 ^ 63"
  by (simp add: f64_mag_def)

lemma f64_make_fields:
  assumes "m < 2 ^ 63"
  shows "f64_mag (f64_make s m) = m" and "f64_neg (f64_make s m) = s"
proof -
  have "unat (f64_make s m) = (if s then 2 ^ 63 + m else m)"
    using assms by (auto simp: f64_make_def unat_of_nat take_bit_eq_mod)
  then show "f64_mag (f64_make s m) = m" and "f64_neg (f64_make s m) = s"
    using assms by (auto simp: f64_mag_def f64_neg_def)
qed

lemma f64_make_val:
  assumes "m < 2 ^ 63"
  shows "f64_val (f64_make s m) = (if s then - mag_val 52 (- 1074) m else mag_val 52 (- 1074) m)"
  using f64_make_fields [OF assms] by (simp add: f64_val_def)

lemma round_mag_le: "round_mag p qmin infb x \<le> infb"
  by (simp add: round_mag_def Let_def)

text \<open>Representable numbers: the finite values of the format.\<close>

definition f64_representable :: "rat \<Rightarrow> bool" where
  "f64_representable x \<longleftrightarrow> (\<exists>b < f64_inf. \<bar>x\<bar> = mag_val 52 (- 1074) b)"

lemma f64_round_exact:
  assumes "f64_representable x"
  shows "f64_val (f64_round s x) = x \<and> f64_finite (f64_round s x)"
proof -
  obtain b where b: "b < f64_inf" "\<bar>x\<bar> = mag_val 52 (- 1074) b" using assms by (auto simp: f64_representable_def)
  then have b63: "b < 2 ^ 63" by (simp add: f64_inf_def)
  show ?thesis
  proof (cases "x = 0")
    case True
    then show ?thesis
      using f64_make_val [of 0 s] f64_make_fields [of 0 s]
      by (simp add: f64_round_def f64_finite_def f64_inf_def mag_val_def)
  next
    case False
    have "round_mag 52 (- 1074) f64_inf \<bar>x\<bar> = b" using round_mag_exact [OF b(1)] b(2) by simp
    with False show ?thesis
      using f64_make_val [OF b63] f64_make_fields [OF b63] b
      by (auto simp: f64_round_def f64_finite_def)
  qed
qed

lemma f64_val_representable: "f64_finite x \<Longrightarrow> f64_representable (f64_val x)"
  by (auto simp: f64_representable_def f64_val_def f64_finite_def)

lemma int_mag_bound: "n \<le> 2 ^ 52 \<Longrightarrow> int_mag 52 (- 1074) n < f64_inf"
proof (cases "n = 0")
  case True
  then show ?thesis by (simp add: int_mag_def f64_inf_def)
next
  case False
  assume n: "n \<le> 2 ^ 52"
  define l where "l = floorlog 2 n - 1"
  have l: "2 ^ l \<le> n" "n < 2 ^ Suc l"
    using False floorlog_bounds [of n 2] by (auto simp: l_def floorlog_def)
  have lp: "l \<le> 52"
  proof (rule ccontr)
    assume "\<not> l \<le> 52"
    then have "(2 :: nat) ^ 53 \<le> 2 ^ l" by (intro power_increasing) auto
    with l(1) n show False by simp
  qed
  have "n * 2 ^ (52 - l) < 2 ^ Suc l * 2 ^ (52 - l)" using l(2) by simp
  also have "\<dots> = 2 ^ 53" using lp by (simp flip: power_add power_Suc)
  finally have "n * 2 ^ (52 - l) < 2 ^ 53" .
  moreover have "nat (int l - 52 + 1074) * 2 ^ 52 \<le> 1074 * 2 ^ 52" using lp by (intro mult_right_mono) auto
  moreover have "int_mag 52 (- 1074) n = nat (int l - 52 + 1074) * 2 ^ 52 + n * 2 ^ (52 - l)"
    using False by (simp add: int_mag_def l_def Let_def)
  ultimately show ?thesis by (simp add: f64_inf_def)
qed

lemma f64_int_representable: "\<bar>n\<bar> \<le> 2 ^ 52 \<Longrightarrow> f64_representable (of_int n)"
proof -
  assume n: "\<bar>n\<bar> \<le> 2 ^ 52"
  then have "nat \<bar>n\<bar> \<le> 2 ^ 52" by simp
  from mag_val_int [of "nat \<bar>n\<bar>" 52 "- 1074", OF this] int_mag_bound [OF this] show ?thesis
    unfolding f64_representable_def by (intro exI [of _ "int_mag 52 (- 1074) (nat \<bar>n\<bar>)"]) (simp add: of_nat_nat)
qed

lemma f64_of_int_val: "\<bar>n\<bar> \<le> 2 ^ 52 \<Longrightarrow> f64_val (f64_of_int n) = of_int n \<and> f64_finite (f64_of_int n)"
  unfolding f64_of_int_def by (rule f64_round_exact) (rule f64_int_representable)

lemma f64_finite_not: "f64_finite x \<Longrightarrow> \<not> f64_isNaN x \<and> \<not> f64_isInf x"
  by (simp add: f64_finite_def f64_isNaN_def f64_isInf_def)

lemma f64_isZero_val: "f64_isZero x \<longleftrightarrow> f64_val x = 0"
  by (simp add: f64_isZero_def f64_val_def mag_val_0_iff)

text \<open>The operations are exact when their mathematical result is representable.\<close>

lemma f64_mul_exact:
  assumes "f64_finite a" "f64_finite b" and "f64_representable (f64_val a * f64_val b)"
  shows "f64_val (f64_mul a b) = f64_val a * f64_val b \<and> f64_finite (f64_mul a b)"
  using assms f64_finite_not f64_round_exact by (simp add: f64_mul_def Let_def)

lemma f64_add_exact:
  assumes "f64_finite a" "f64_finite b" and "f64_representable (f64_val a + f64_val b)"
  shows "f64_val (f64_add a b) = f64_val a + f64_val b \<and> f64_finite (f64_add a b)"
  using assms f64_finite_not f64_round_exact by (simp add: f64_add_def)

lemma f64_negate_val: "f64_val (f64_negate x) = - f64_val x \<and> f64_finite (f64_negate x) = f64_finite x"
  using f64_make_val [OF f64_mag_less] f64_make_fields [OF f64_mag_less]
  by (simp add: f64_negate_def f64_val_def f64_finite_def)

lemma f64_sub_exact:
  assumes "f64_finite a" "f64_finite b" and "f64_representable (f64_val a - f64_val b)"
  shows "f64_val (f64_sub a b) = f64_val a - f64_val b \<and> f64_finite (f64_sub a b)"
  using assms f64_finite_not [OF assms(2)] f64_negate_val [of b] f64_add_exact [of a "f64_negate b"]
  by (simp add: f64_sub_def)

lemma f64_div_exact:
  assumes "f64_finite a" "f64_finite b" and "f64_val b \<noteq> 0" and "f64_representable (f64_val a / f64_val b)"
  shows "f64_val (f64_div a b) = f64_val a / f64_val b \<and> f64_finite (f64_div a b)"
  using assms f64_finite_not f64_round_exact by (simp add: f64_div_def Let_def f64_isZero_val)

section \<open>Order\<close>

text \<open>
  \<^verbatim>\<open><=\<close>, \<^verbatim>\<open><\<close> and \<^verbatim>\<open>math.Abs\<close>: the order of the sign-and-magnitude patterns, false whenever an operand is
  NaN. On finite numbers it is the order of their values.
\<close>

definition f64_ord :: "f64 \<Rightarrow> int" where
  "f64_ord x = (if f64_neg x then - int (f64_mag x) else int (f64_mag x))"

definition f64_le :: "f64 \<Rightarrow> f64 \<Rightarrow> bool" where
  "f64_le a b \<longleftrightarrow> \<not> f64_isNaN a \<and> \<not> f64_isNaN b \<and> f64_ord a \<le> f64_ord b"

definition f64_less :: "f64 \<Rightarrow> f64 \<Rightarrow> bool" where
  "f64_less a b \<longleftrightarrow> \<not> f64_isNaN a \<and> \<not> f64_isNaN b \<and> f64_ord a < f64_ord b"

definition f64_abs :: "f64 \<Rightarrow> f64" where
  "f64_abs x = f64_make False (f64_mag x)"

lemma mag_val_Suc: "mag_val p qmin b < mag_val p qmin (Suc b)"
proof (cases "Suc (b mod 2 ^ p) = 2 ^ p")
  case False
  then have "Suc b div 2 ^ p = b div 2 ^ p" "Suc b mod 2 ^ p = Suc (b mod 2 ^ p)"
    by (simp_all add: div_Suc mod_Suc)
  then show ?thesis by (simp add: mag_val_def Let_def)
next
  case True
  then have d: "Suc b div 2 ^ p = Suc (b div 2 ^ p)" "Suc b mod 2 ^ p = 0" by (simp_all add: div_Suc mod_Suc)
  show ?thesis
  proof (cases "b div 2 ^ p = 0")
    case True
    have "(of_nat (b mod 2 ^ p) :: rat) < 2 ^ p" using \<open>Suc (b mod 2 ^ p) = 2 ^ p\<close>
      by (metis lessI of_nat_less_iff of_nat_numeral of_nat_power)
    then show ?thesis using True d by (simp add: mag_val_def Let_def)
  next
    case False
    let ?e = "qmin + int (b div 2 ^ p) - 1"
    have two: "pow2 (?e + 1) = 2 * pow2 ?e" unfolding pow2_add by (simp add: pow2_def)
    have "(of_nat (b mod 2 ^ p) :: rat) < 2 ^ p" using \<open>Suc (b mod 2 ^ p) = 2 ^ p\<close>
      by (metis lessI of_nat_less_iff of_nat_numeral of_nat_power)
    then have "(2 ^ p + of_nat (b mod 2 ^ p)) * pow2 ?e < (2 ^ p + 2 ^ p) * pow2 ?e" by simp
    also have "\<dots> = 2 ^ p * pow2 (?e + 1)" unfolding two by simp
    finally show ?thesis using False d by (simp add: mag_val_def Let_def algebra_simps)
  qed
qed

lemma mag_val_mono: "b < c \<Longrightarrow> mag_val p qmin b < mag_val p qmin c"
  by (rule lift_Suc_mono_less [of "mag_val p qmin", OF mag_val_Suc])

lemma mag_val_le_iff: "mag_val p qmin b \<le> mag_val p qmin c \<longleftrightarrow> b \<le> c"
  by (metis leD leI less_imp_le mag_val_mono order_refl le_neq_implies_less)

lemma mag_val_le_neg: "mag_val p qmin b \<le> - mag_val p qmin c \<longleftrightarrow> b = 0 \<and> c = 0"
proof
  assume "mag_val p qmin b \<le> - mag_val p qmin c"
  with mag_val_nonneg [of p qmin b] mag_val_nonneg [of p qmin c] have "mag_val p qmin b = 0" "mag_val p qmin c = 0" by linarith+
  then show "b = 0 \<and> c = 0" by (simp add: mag_val_0_iff)
qed (simp add: mag_val_def)

lemma f64_le_val:
  assumes "f64_finite a" "f64_finite b"
  shows "f64_le a b \<longleftrightarrow> f64_val a \<le> f64_val b"
proof -
  have neg: "- mag_val 52 (- 1074) x \<le> mag_val 52 (- 1074) y" for x y
    using mag_val_nonneg [of 52 "- 1074" x] mag_val_nonneg [of 52 "- 1074" y] by linarith
  show ?thesis
    using f64_finite_not [OF assms(1)] f64_finite_not [OF assms(2)]
    by (cases "f64_neg a"; cases "f64_neg b"; simp add: f64_le_def f64_ord_def f64_val_def neg mag_val_le_iff mag_val_le_neg; arith?)
qed

end
