(* ===== verification/Go_Util.thy ===== *)
theory Go_Util
  imports Core_Types Go_Fmt Go_Float "HOL-Library.List_Lexorder" "HOL-Library.Char_ord"
begin

text \<open>
  Shared helpers, \<^verbatim>\<open>common/util/util.go\<close>: settings lookups, numeric conversions, the linear
  transform of tag values and its inverse, the connection-error test, unknown-settings checks and
  the reconnect loop with its circuit breaker. A conversion of a float to an integer type that
  cannot hold it is implementation-defined in Go; its result is the argument \<open>cv\<close>.
\<close>

section \<open>Settings\<close>

type_synonym settings = "(string \<times> go_value) list"

definition GetIntSetting :: "(f64 \<Rightarrow> int) \<Rightarrow> settings \<Rightarrow> string \<Rightarrow> int \<Rightarrow> int" where
  "GetIntSetting cv settings key defaultVal =
     (case map_of settings key of
        Some (VInt v) \<Rightarrow> sint v
      | Some (VInt64 v) \<Rightarrow> sint v
      | Some (VUint64 v) \<Rightarrow> sint v
      | Some (VFloat64 v) \<Rightarrow> f64_to_int cv (- (2 ^ 63)) (2 ^ 63 - 1) v
      | _ \<Rightarrow> defaultVal)"

definition GetDurationSetting :: "(string \<Rightarrow> time option) \<Rightarrow> settings \<Rightarrow> string \<Rightarrow> time \<Rightarrow> time" where
  "GetDurationSetting parse_duration settings key defaultVal =
     (case map_of settings key of
        Some (VString v) \<Rightarrow> (case parse_duration v of Some d \<Rightarrow> d | None \<Rightarrow> defaultVal)
      | _ \<Rightarrow> defaultVal)"

definition GetBoolSetting :: "settings \<Rightarrow> string \<Rightarrow> bool \<Rightarrow> bool" where
  "GetBoolSetting settings key defaultVal =
     (case map_of settings key of Some (VBool b) \<Rightarrow> b | _ \<Rightarrow> defaultVal)"

definition GetStringSetting :: "settings \<Rightarrow> string \<Rightarrow> string \<Rightarrow> string" where
  "GetStringSetting settings key defaultVal =
     (case map_of settings key of Some (VString s) \<Rightarrow> s | _ \<Rightarrow> defaultVal)"

fun join :: "string \<Rightarrow> string list \<Rightarrow> string" where
  "join sep [] = []"
| "join sep [x] = x"
| "join sep (x # y # xs) = x @ sep @ join sep (y # xs)"

definition RejectUnknownSettings :: "settings \<Rightarrow> string list \<Rightarrow> string \<Rightarrow> string option" where
  "RejectUnknownSettings settings known kind =
     (let unknown = filter (\<lambda>k. k \<notin> set known) (map fst settings)
      in if unknown = [] then None
         else Some (''unknown '' @ kind @ '' setting(s): '' @ join '', '' (sort unknown)
                @ '' (valid: '' @ join '', '' (sort known) @ '')''))"

definition connectionErrorKeywords :: "string list" where
  "connectionErrorKeywords =
     [''connection'', ''broken pipe'', ''EOF'', ''reset'', ''refused'', ''timeout'', ''closed'', ''aborted'',
      ''deadline exceeded'']"

definition IsConnectionError :: "string option \<Rightarrow> bool" where
  "IsConnectionError err =
     (case err of None \<Rightarrow> False | Some s \<Rightarrow> list_ex (contains_str s) connectionErrorKeywords)"

section \<open>Numeric conversions\<close>

fun ToFloat64OK :: "go_value \<Rightarrow> f64 option" where
  "ToFloat64OK (VFloat64 v) = Some v"
| "ToFloat64OK (VFloat32 v) = Some (f64_of_f32 v)"
| "ToFloat64OK (VInt v) = Some (f64_of_int (sint v))"
| "ToFloat64OK (VInt8 v) = Some (f64_of_int (sint v))"
| "ToFloat64OK (VInt16 v) = Some (f64_of_int (sint v))"
| "ToFloat64OK (VInt32 v) = Some (f64_of_int (sint v))"
| "ToFloat64OK (VInt64 v) = Some (f64_of_int (sint v))"
| "ToFloat64OK (VUint v) = Some (f64_of_int (uint v))"
| "ToFloat64OK (VUint8 v) = Some (f64_of_int (uint v))"
| "ToFloat64OK (VUint16 v) = Some (f64_of_int (uint v))"
| "ToFloat64OK (VUint32 v) = Some (f64_of_int (uint v))"
| "ToFloat64OK (VUint64 v) = Some (f64_of_int (uint v))"
| "ToFloat64OK _ = None"

definition ToFloat64 :: "go_value \<Rightarrow> f64" where
  "ToFloat64 v =
     (case ToFloat64OK v of
        Some f \<Rightarrow> f
      | None \<Rightarrow> (case v of VBool b \<Rightarrow> if b then f64_of_int 1 else 0 | _ \<Rightarrow> 0))"

fun ToFloat32 :: "go_value \<Rightarrow> f32" where
  "ToFloat32 (VFloat64 v) = f32_of_f64 v"
| "ToFloat32 (VFloat32 v) = v"
| "ToFloat32 (VInt v) = f32_of_int (sint v)"
| "ToFloat32 (VInt32 v) = f32_of_int (sint v)"
| "ToFloat32 (VUint32 v) = f32_of_int (uint v)"
| "ToFloat32 _ = 0"

fun ToUint32 :: "(f64 \<Rightarrow> int) \<Rightarrow> go_value \<Rightarrow> u32" where
  "ToUint32 cv (VFloat64 v) = word_of_int (f64_to_int cv 0 (2 ^ 32 - 1) v)"
| "ToUint32 cv (VInt v) = ucast v"
| "ToUint32 cv (VInt32 v) = v"
| "ToUint32 cv (VUint32 v) = v"
| "ToUint32 cv (VInt64 v) = ucast v"
| "ToUint32 cv (VUint64 v) = ucast v"
| "ToUint32 cv _ = 0"

fun ToUint64 :: "(f64 \<Rightarrow> int) \<Rightarrow> go_value \<Rightarrow> u64" where
  "ToUint64 cv (VFloat64 v) = word_of_int (f64_to_int cv 0 (2 ^ 64 - 1) v)"
| "ToUint64 cv (VFloat32 v) = word_of_int (f64_to_int cv 0 (2 ^ 64 - 1) (f64_of_f32 v))"
| "ToUint64 cv (VInt v) = v"
| "ToUint64 cv (VInt64 v) = v"
| "ToUint64 cv (VUint64 v) = v"
| "ToUint64 cv (VInt32 v) = scast v"
| "ToUint64 cv (VUint32 v) = ucast v"
| "ToUint64 cv (VInt16 v) = scast v"
| "ToUint64 cv (VUint16 v) = ucast v"
| "ToUint64 cv _ = 0"

fun ToUint16 :: "(f64 \<Rightarrow> int) \<Rightarrow> go_value \<Rightarrow> u16" where
  "ToUint16 cv (VFloat64 v) = word_of_int (f64_to_int cv 0 (2 ^ 16 - 1) v)"
| "ToUint16 cv (VFloat32 v) = word_of_int (f64_to_int cv 0 (2 ^ 16 - 1) (f64_of_f32 v))"
| "ToUint16 cv (VInt v) = ucast v"
| "ToUint16 cv (VInt16 v) = v"
| "ToUint16 cv (VUint16 v) = v"
| "ToUint16 cv (VInt32 v) = ucast v"
| "ToUint16 cv (VUint32 v) = ucast v"
| "ToUint16 cv _ = 0"

section \<open>The linear transform\<close>

text \<open>The numeric kinds the switch of \<^verbatim>\<open>ApplyTransform\<close> converts: all but \<^verbatim>\<open>uint\<close>.\<close>

definition transform_operand :: "go_value \<Rightarrow> f64 option" where
  "transform_operand v = (case v of VUint _ \<Rightarrow> None | _ \<Rightarrow> ToFloat64OK v)"

definition f64_one :: f64 where "f64_one = 0x3FF0000000000000"

definition ApplyTransform :: "go_value \<Rightarrow> f64 \<Rightarrow> f64 \<Rightarrow> go_value" where
  "ApplyTransform v scale offset =
     (if f64_isZero scale \<and> f64_isZero offset then v
      else let scale = (if f64_isZero scale then f64_one else scale)
           in case transform_operand v of
                None \<Rightarrow> v
              | Some x \<Rightarrow>
                  let y = f64_add (f64_mul x scale) offset
                  in (case v of VFloat32 _ \<Rightarrow> VFloat32 (f32_of_f64 y) | _ \<Rightarrow> VFloat64 y))"

definition InvertTransform :: "go_value \<Rightarrow> f64 \<Rightarrow> f64 \<Rightarrow> go_value" where
  "InvertTransform v scale offset =
     (if f64_isZero scale \<and> f64_isZero offset then v
      else let scale = (if f64_isZero scale then f64_one else scale)
           in case transform_operand v of
                None \<Rightarrow> v
              | Some x \<Rightarrow> VFloat64 (f64_div (f64_sub x offset) scale))"

section \<open>Reconnecting\<close>

definition defaultBackoffFallback :: time where "defaultBackoffFallback = 2 * second"
definition defaultMaxBackoffFallback :: time where "defaultMaxBackoffFallback = 30 * second"
definition defaultCircuitBreakerBackoff :: time where "defaultCircuitBreakerBackoff = 5 * minute"

text \<open>\<^verbatim>\<open>d * (0.8 + r * 0.4)\<close> for the random number \<open>r\<close>; the constants are the float64 nearest to 0.8 and 0.4.\<close>

definition jitteredBackoff :: "(f64 \<Rightarrow> int) \<Rightarrow> f64 \<Rightarrow> time \<Rightarrow> time" where
  "jitteredBackoff cv r d =
     (if d \<le> 0 then d
      else f64_to_int cv (- (2 ^ 63)) (2 ^ 63 - 1)
             (f64_mul (f64_of_int d) (f64_add (f64_round False (4 / 5)) (f64_mul r (f64_round False (2 / 5))))))"

record reconnect_state =
  rl_backoff :: time
  rl_failures :: nat
  rl_tripped :: bool
  rl_counter :: nat

definition reconnect_init :: "time \<Rightarrow> reconnect_state" where
  "reconnect_init initialBackoff =
     \<lparr>rl_backoff = (if initialBackoff \<le> 0 then defaultBackoffFallback else initialBackoff),
      rl_failures = 0, rl_tripped = False, rl_counter = 0\<rparr>"

text \<open>The state after a failed attempt.\<close>

definition reconnect_fail :: "time \<Rightarrow> int \<Rightarrow> reconnect_state \<Rightarrow> reconnect_state" where
  "reconnect_fail maxBackoff maxFailures st =
     (let maxB = (if maxBackoff \<le> 0 then defaultMaxBackoffFallback else maxBackoff);
          st = st\<lparr>rl_failures := rl_failures st + 1\<rparr>
      in if maxFailures > 0 \<and> int (rl_failures st) \<ge> maxFailures \<and> \<not> rl_tripped st
         then st\<lparr>rl_tripped := True, rl_backoff := defaultCircuitBreakerBackoff\<rparr>
         else if \<not> rl_tripped st then st\<lparr>rl_backoff := min (i64 (rl_backoff st * 2)) maxB\<rparr>
         else st)"

datatype reconnect_result = Connected reconnect_state | Cancelled reconnect_state

text \<open>
  The loop of \<^verbatim>\<open>ReconnectLoopWithBreakerCounted\<close> with at most \<open>fuel\<close> iterations: \<open>cancel k\<close>
  tells whether the context ends in wait \<open>k\<close>, \<open>connect k\<close> whether attempt \<open>k\<close> succeeds.
\<close>

fun reconnect_loop ::
  "nat \<Rightarrow> (nat \<Rightarrow> bool) \<Rightarrow> (nat \<Rightarrow> bool) \<Rightarrow> time \<Rightarrow> int \<Rightarrow> reconnect_state \<Rightarrow> reconnect_result option" where
  "reconnect_loop 0 cancel connect maxB maxF st = None"
| "reconnect_loop (Suc fuel) cancel connect maxB maxF st =
     (if cancel (rl_counter st) then Some (Cancelled st)
      else let k = rl_counter st; st = st\<lparr>rl_counter := k + 1\<rparr>
           in if connect k then Some (Connected st)
              else reconnect_loop fuel cancel connect maxB maxF (reconnect_fail maxB maxF st))"

definition ReconnectLoop ::
  "nat \<Rightarrow> (nat \<Rightarrow> bool) \<Rightarrow> (nat \<Rightarrow> bool) \<Rightarrow> time \<Rightarrow> time \<Rightarrow> int \<Rightarrow> reconnect_result option" where
  "ReconnectLoop fuel cancel connect initial maxB maxF =
     reconnect_loop fuel cancel connect maxB maxF (reconnect_init initial)"

section \<open>Correctness\<close>

lemma RejectUnknownSettings_None:
  "RejectUnknownSettings settings known kind = None \<longleftrightarrow> fst ` set settings \<subseteq> set known"
  by (auto simp: RejectUnknownSettings_def Let_def filter_empty_conv)

lemma f64_one_val: "f64_val f64_one = 1" "f64_finite f64_one" "\<not> f64_isZero f64_one"
proof -
  have "f64_mag f64_one = 0x3FF0000000000000" "\<not> f64_neg f64_one"
    by (simp_all add: f64_mag_def f64_neg_def f64_one_def)
  then show "f64_val f64_one = 1" "f64_finite f64_one" "\<not> f64_isZero f64_one"
    by (simp_all add: f64_val_def f64_finite_def f64_isZero_def f64_inf_def mag_val_def pow2_def)
qed

text \<open>
  Writes undo reads: when the scaled value of a numeric reading (other than a float32, which
  is rounded to its width) is computed without rounding, converting it back gives exactly the raw
  number that was read, for every configuration of scale and offset, including the zero scale that
  means one and the absent transform; and values that are not numeric pass through both ways.
\<close>

theorem invert_undoes_apply:
  assumes "f64_finite scale" and "f64_finite offset"
  shows "(transform_operand v = None \<longrightarrow>
       ApplyTransform v scale offset = v \<and> InvertTransform v scale offset = v)
    \<and> (\<forall>x s. transform_operand v = Some x \<longrightarrow> (\<forall>w. v \<noteq> VFloat32 w) \<longrightarrow> f64_finite x \<longrightarrow>
        s = (if f64_isZero scale then 1 else f64_val scale) \<longrightarrow>
        f64_representable (f64_val x * s) \<longrightarrow> f64_representable (f64_val x * s + f64_val offset) \<longrightarrow>
        (\<exists>y. ToFloat64OK (InvertTransform (ApplyTransform v scale offset) scale offset) = Some y
           \<and> f64_val y = f64_val x))"
proof (intro conjI impI allI)
  assume "transform_operand v = None"
  then show "ApplyTransform v scale offset = v" "InvertTransform v scale offset = v"
    by (simp_all add: ApplyTransform_def InvertTransform_def)
next
  fix x s
  assume x: "transform_operand v = Some x" and nf: "\<forall>w. v \<noteq> VFloat32 w" and fx: "f64_finite x"
    and s: "s = (if f64_isZero scale then 1 else f64_val scale)"
    and r1: "f64_representable (f64_val x * s)" and r2: "f64_representable (f64_val x * s + f64_val offset)"
  show "\<exists>y. ToFloat64OK (InvertTransform (ApplyTransform v scale offset) scale offset) = Some y \<and> f64_val y = f64_val x"
  proof (cases "f64_isZero scale \<and> f64_isZero offset")
    case True
    with x show ?thesis
      by (auto simp: ApplyTransform_def InvertTransform_def transform_operand_def split: go_value.splits)
  next
    case False
    define sc where "sc = (if f64_isZero scale then f64_one else scale)"
    have sc: "f64_finite sc" "f64_val sc = s" "s \<noteq> 0"
      using assms(1) f64_one_val f64_isZero_val [of scale] by (auto simp: sc_def s)
    note m = f64_mul_exact [OF fx sc(1), unfolded sc(2), OF r1]
    define y where "y = f64_add (f64_mul x sc) offset"
    have y: "f64_val y = f64_val x * s + f64_val offset" "f64_finite y"
      using f64_add_exact [of "f64_mul x sc" offset] m assms(2) r2 by (simp_all add: y_def)
    have d: "f64_val (f64_sub y offset) = f64_val x * s \<and> f64_finite (f64_sub y offset)"
      using f64_sub_exact [OF y(2) assms(2)] y(1) r1 by simp
    have "f64_representable (f64_val x)" using fx by (rule f64_val_representable)
    then have e: "f64_val (f64_div (f64_sub y offset) sc) = f64_val x"
      using f64_div_exact [of "f64_sub y offset" sc] d sc by simp
    have "ApplyTransform v scale offset = VFloat64 y"
      using False x nf by (auto simp: ApplyTransform_def Let_def sc_def y_def split: go_value.splits)
    then have "InvertTransform (ApplyTransform v scale offset) scale offset = VFloat64 (f64_div (f64_sub y offset) sc)"
      using False by (auto simp: InvertTransform_def Let_def sc_def transform_operand_def)
    with e show ?thesis by simp
  qed
qed

text \<open>The backoff after \<open>k\<close> failures, and the state of the loop then.\<close>

definition backoff_after :: "time \<Rightarrow> time \<Rightarrow> int \<Rightarrow> nat \<Rightarrow> time" where
  "backoff_after b0 maxB maxF k =
     (if maxF > 0 \<and> int k \<ge> maxF then defaultCircuitBreakerBackoff
      else if k = 0 then b0 else min (b0 * 2 ^ k) maxB)"

definition loop_state :: "time \<Rightarrow> time \<Rightarrow> int \<Rightarrow> nat \<Rightarrow> reconnect_state" where
  "loop_state b0 maxB maxF k =
     \<lparr>rl_backoff = backoff_after b0 maxB maxF k, rl_failures = k,
      rl_tripped = (maxF > 0 \<and> int k \<ge> maxF), rl_counter = k\<rparr>"

lemma reconnect_fail_step:
  assumes "0 < b0" "b0 < 2 ^ 62" "0 < maxB" "maxB < 2 ^ 62" "b0 \<le> maxB"
  shows "reconnect_fail maxB maxF ((loop_state b0 maxB maxF k)\<lparr>rl_counter := k + 1\<rparr>) = loop_state b0 maxB maxF (k + 1)"
proof -
  have b: "0 < backoff_after b0 maxB maxF k" if "\<not> (maxF > 0 \<and> int k \<ge> maxF)"
    using assms that by (auto simp: backoff_after_def)
  have "min (i64 (backoff_after b0 maxB maxF k * 2)) maxB = min (b0 * 2 ^ (k + 1)) maxB"
    if nt: "\<not> (maxF > 0 \<and> int k \<ge> maxF)"
  proof (cases "k = 0")
    case True
    then show ?thesis using nt assms by (simp add: backoff_after_def mult.commute)
  next
    case False
    have v: "backoff_after b0 maxB maxF k = min (b0 * 2 ^ k) maxB" using nt False by (auto simp: backoff_after_def)
    define q where "q = b0 * 2 ^ k"
    have "0 < q" using assms(1) by (simp add: q_def)
    then have "i64 (min q maxB * 2) = min q maxB * 2" using assms by (intro i64_id) auto
    then have "i64 (min (b0 * 2 ^ k) maxB * 2) = min (b0 * 2 ^ k) maxB * 2" by (simp only: q_def)
    then show ?thesis using v assms(3) by (simp add: min_def mult.commute mult.left_commute)
  qed
  then show ?thesis
    using assms(3) by (auto simp: reconnect_fail_def loop_state_def backoff_after_def Let_def)
qed

lemma reconnect_loop_run:
  assumes "0 < b0" "b0 < 2 ^ 62" "0 < maxB" "maxB < 2 ^ 62" "b0 \<le> maxB"
    and "\<forall>k < n. \<not> connect k" and "connect n" and "\<forall>k \<le> n. \<not> cancel k" and "n < fuel + j" and "j \<le> n"
  shows "reconnect_loop fuel cancel connect maxB maxF (loop_state b0 maxB maxF j)
    = Some (Connected ((loop_state b0 maxB maxF n)\<lparr>rl_counter := n + 1\<rparr>))"
  using assms(9,10)
proof (induction fuel arbitrary: j)
  case 0
  then show ?case by simp
next
  case (Suc fuel)
  have c: "rl_counter (loop_state b0 maxB maxF j) = j" by (simp add: loop_state_def)
  show ?case
  proof (cases "j = n")
    case True
    with assms(7,8) c show ?thesis by simp
  next
    case False
    with Suc.prems have "j < n" by simp
    then have "reconnect_loop fuel cancel connect maxB maxF (loop_state b0 maxB maxF (j + 1))
        = Some (Connected ((loop_state b0 maxB maxF n)\<lparr>rl_counter := n + 1\<rparr>))"
      using Suc.prems by (intro Suc.IH) auto
    with \<open>j < n\<close> assms(6,8) c reconnect_fail_step [OF assms(1-5)] show ?thesis by (simp add: Let_def)
  qed
qed

text \<open>
  C36. The reconnect loop ends with the first successful attempt. If attempts before \<open>n\<close> fail,
  attempt \<open>n\<close> succeeds and the context is not cancelled, the loop returns after \<open>n + 1\<close> counted
  attempts; the base wait before attempt \<open>k\<close> is the initial backoff doubled \<open>k\<close> times and capped at
  the maximum, and from the configured number of failures on it is the breaker interval.
\<close>

theorem reconnect_loop_connects:
  assumes "0 < initial" "initial \<le> maxB" "maxB < 2 ^ 62"
    and "\<forall>k < n. \<not> connect k" and "connect n" and "\<forall>k \<le> n. \<not> cancel k" and "n < fuel"
  shows "ReconnectLoop fuel cancel connect initial maxB maxF =
      Some (Connected \<lparr>rl_backoff = backoff_after initial maxB maxF n, rl_failures = n,
        rl_tripped = (maxF > 0 \<and> int n \<ge> maxF), rl_counter = n + 1\<rparr>)
    \<and> (n > 0 \<and> \<not> (maxF > 0 \<and> int n \<ge> maxF) \<longrightarrow>
         backoff_after initial maxB maxF n = min (initial * 2 ^ n) maxB)"
proof -
  have "reconnect_loop fuel cancel connect maxB maxF (loop_state initial maxB maxF 0)
      = Some (Connected ((loop_state initial maxB maxF n)\<lparr>rl_counter := n + 1\<rparr>))"
    using assms by (intro reconnect_loop_run) auto
  moreover have "reconnect_init initial = loop_state initial maxB maxF 0"
    using assms(1) by (auto simp: reconnect_init_def loop_state_def backoff_after_def)
  ultimately show ?thesis by (simp add: ReconnectLoop_def loop_state_def backoff_after_def)
qed

theorem invert_undoes_apply_witness:
  "\<exists>y. ToFloat64OK (InvertTransform (ApplyTransform (VInt16 7) 0 f64_one) 0 f64_one) = Some y \<and> f64_val y = 7"
proof -
  have z: "f64_finite 0" "f64_isZero 0" by (simp_all add: f64_finite_def f64_isZero_def f64_mag_def f64_inf_def)
  have v: "f64_val (f64_of_int 7) = 7" "f64_finite (f64_of_int 7)" using f64_of_int_val [of 7] by simp_all
  have "f64_representable (of_int 7)" "f64_representable (of_int 8)" by (rule f64_int_representable, simp)+
  moreover have "transform_operand (VInt16 7) = Some (f64_of_int 7)" by (simp add: transform_operand_def)
  ultimately show ?thesis
    using invert_undoes_apply [OF z(1) f64_one_val(2), of "VInt16 7"] z v f64_one_val by simp
qed

theorem reconnect_loop_connects_witness:
  "ReconnectLoop 9 (\<lambda>_. False) (\<lambda>k. k = 3) second (30 * second) 0 =
     Some (Connected \<lparr>rl_backoff = 8 * second, rl_failures = 3, rl_tripped = False, rl_counter = 4\<rparr>)"
  using reconnect_loop_connects [of second "30 * second" 3 "\<lambda>k. k = 3" "\<lambda>_. False" 9 0]
  by (simp add: backoff_after_def)

end
