(* ===== verification/Driver_Base.thy ===== *)
theory Driver_Base
  imports Go_Util
begin

text \<open>
  The lifecycle that all southbound drivers embed, \<^verbatim>\<open>driverbase/driverbase.go\<close>: connection state,
  counters, \<^verbatim>\<open>Start\<close>, \<^verbatim>\<open>Stop\<close>, \<^verbatim>\<open>HandleConnectionLost\<close> and the reconnect goroutine, and the
  guard \<^verbatim>\<open>handleConnLostIfCurrent\<close> that the drivers put in front of it. Connections are numbered;
  \<open>bd_conn\<close> is the current one, None when the protocol client is nil.

  The goroutines are an interleaving of atomic steps, \<open>driver_step\<close>: a step is a stretch of code
  under the mutex or between two blocking points.
\<close>

section \<open>The driver\<close>

definition DefaultReconnectBackoff :: time where "DefaultReconnectBackoff = 2 * second"
definition DefaultMaxReconnectBackoff :: time where "DefaultMaxReconnectBackoff = 30 * second"
definition DefaultMaxReconnectFailures :: int where "DefaultMaxReconnectFailures = 20"
definition DefaultDriverTimeout :: time where "DefaultDriverTimeout = 5 * second"
definition DefaultIdleTimeout :: time where "DefaultIdleTimeout = 60 * second"

record base_driver =
  bd_name :: string
  bd_type :: string
  bd_state :: conn_state
  bd_conn :: "nat option"
  bd_lastRead :: time
  bd_lastError :: string
  bd_readCount :: nat
  bd_errorCount :: nat
  bd_reconnectCount :: nat
  bd_reconnectBackoff :: time
  bd_maxReconnectBackoff :: time
  bd_maxReconnectFailures :: int

definition ParseReconnectSettings ::
  "(f64 \<Rightarrow> int) \<Rightarrow> (string \<Rightarrow> time option) \<Rightarrow> settings \<Rightarrow> 'a base_driver_scheme \<Rightarrow> 'a base_driver_scheme" where
  "ParseReconnectSettings cv parse_duration settings d =
     d\<lparr>bd_reconnectBackoff := GetDurationSetting parse_duration settings ''reconnect-interval'' DefaultReconnectBackoff,
       bd_maxReconnectBackoff := GetDurationSetting parse_duration settings ''reconnect-max-interval'' DefaultMaxReconnectBackoff,
       bd_maxReconnectFailures := GetIntSetting cv settings ''max-reconnect-failures'' DefaultMaxReconnectFailures\<rparr>"

definition WriteValueForTag :: "write_command \<Rightarrow> tag_config \<Rightarrow> go_value" where
  "WriteValueForTag cmd cfg =
     (if wc_raw cmd then wc_value cmd else InvertTransform (wc_value cmd) (tc_scale cfg) (tc_offset cfg))"

record driver_status =
  st_name :: string
  st_type :: string
  st_state :: conn_state
  st_lastRead :: time
  st_lastError :: string
  st_tagCount :: nat
  st_readCount :: nat
  st_errorCount :: nat
  st_reconnectCount :: nat

definition base_Status :: "nat \<Rightarrow> 'a base_driver_scheme \<Rightarrow> driver_status" where
  "base_Status tagCount d =
     \<lparr>st_name = bd_name d, st_type = bd_type d, st_state = bd_state d, st_lastRead = bd_lastRead d,
      st_lastError = bd_lastError d, st_tagCount = tagCount, st_readCount = bd_readCount d,
      st_errorCount = bd_errorCount d, st_reconnectCount = bd_reconnectCount d\<rparr>"

definition RecordError :: "'a base_driver_scheme \<Rightarrow> 'a base_driver_scheme" where
  "RecordError d = d\<lparr>bd_errorCount := bd_errorCount d + 1\<rparr>"

definition AddReadCount :: "nat \<Rightarrow> 'a base_driver_scheme \<Rightarrow> 'a base_driver_scheme" where
  "AddReadCount n d = d\<lparr>bd_readCount := bd_readCount d + n\<rparr>"

text \<open>What a successful \<^verbatim>\<open>connect\<close> of the drivers does under the lock, with the new connection \<open>c\<close>.\<close>

definition connected :: "nat \<Rightarrow> 'a base_driver_scheme \<Rightarrow> 'a base_driver_scheme" where
  "connected c d = d\<lparr>bd_conn := Some c, bd_state := StateConnected, bd_lastError := []\<rparr>"

text \<open>The locked part of \<^verbatim>\<open>HandleConnectionLost\<close>; the flag tells whether a reconnect loop is to be started.\<close>

definition HandleConnectionLost :: "'a base_driver_scheme \<Rightarrow> bool \<times> 'a base_driver_scheme" where
  "HandleConnectionLost d =
     (if bd_state d = StateConnecting \<or> bd_state d = StateError then (False, d)
      else (True, d\<lparr>bd_state := StateError, bd_conn := None\<rparr>))"

definition handleConnLostIfCurrent :: "nat \<Rightarrow> 'a base_driver_scheme \<Rightarrow> bool \<times> 'a base_driver_scheme" where
  "handleConnLostIfCurrent captured d =
     (if bd_conn d \<noteq> Some captured then (False, d) else HandleConnectionLost d)"

text \<open>The locked part of \<^verbatim>\<open>Stop\<close>.\<close>

definition stop_locked :: "'a base_driver_scheme \<Rightarrow> 'a base_driver_scheme" where
  "stop_locked d = d\<lparr>bd_conn := None, bd_state := StateDisconnected\<rparr>"

section \<open>The goroutines\<close>

text \<open>
  \<open>ds_checked\<close> counts the readers and writers that passed the guard of \<^verbatim>\<open>handleConnLostIfCurrent\<close>
  and have not yet entered \<^verbatim>\<open>HandleConnectionLost\<close>, \<open>ds_pending\<close> the calls between its locked part
  (or that of a failed \<^verbatim>\<open>Start\<close>) and \<^verbatim>\<open>startReconnectLoop\<close>. A reconnect goroutine is waiting for its
  backoff, attempting to connect, or leaving after a success; the wait group counts all three.
\<close>

record driver_sys =
  ds_driver :: base_driver
  ds_cancelled :: bool
  ds_stopped :: bool
  ds_checked :: nat
  ds_pending :: nat
  ds_waiting :: nat
  ds_attempting :: nat
  ds_leaving :: nat

text \<open>\<^verbatim>\<open>Start\<close>: a fresh context and the first attempt, with the connection or the error it yields.\<close>

definition base_Start :: "(string, nat) result \<Rightarrow> driver_sys \<Rightarrow> driver_sys" where
  "base_Start r s =
     (let s = s\<lparr>ds_cancelled := False, ds_stopped := False\<rparr>
      in case r of
           Inr c \<Rightarrow> s\<lparr>ds_driver := connected c (ds_driver s)\<rparr>
         | Inl err \<Rightarrow> s\<lparr>ds_driver := (ds_driver s)\<lparr>bd_state := StateConnecting, bd_lastError := err\<rparr>,
                        ds_pending := ds_pending s + 1\<rparr>)"

inductive driver_step :: "driver_sys \<Rightarrow> driver_sys \<Rightarrow> bool" where
  check: "bd_conn (ds_driver s) = Some c \<Longrightarrow> driver_step s (s\<lparr>ds_checked := ds_checked s + 1\<rparr>)"
| lost: "ds_checked s = Suc n \<Longrightarrow> HandleConnectionLost (ds_driver s) = (True, d) \<Longrightarrow>
    driver_step s (s\<lparr>ds_driver := d, ds_checked := n, ds_pending := ds_pending s + 1\<rparr>)"
| lost_already: "ds_checked s = Suc n \<Longrightarrow> HandleConnectionLost (ds_driver s) = (False, d) \<Longrightarrow>
    driver_step s (s\<lparr>ds_driver := d, ds_checked := n\<rparr>)"
| startReconnectLoop: "ds_pending s = Suc n \<Longrightarrow>
    driver_step s (s\<lparr>ds_pending := n, ds_waiting := ds_waiting s + 1\<rparr>)"
| wake: "ds_waiting s = Suc n \<Longrightarrow>
    driver_step s (s\<lparr>ds_driver := (ds_driver s)\<lparr>bd_reconnectCount := bd_reconnectCount (ds_driver s) + 1\<rparr>,
      ds_waiting := n, ds_attempting := ds_attempting s + 1\<rparr>)"
| attempt_fails: "ds_attempting s = Suc n \<Longrightarrow>
    driver_step s (s\<lparr>ds_attempting := n, ds_waiting := ds_waiting s + 1\<rparr>)"
| attempt_succeeds: "ds_attempting s = Suc n \<Longrightarrow>
    driver_step s (s\<lparr>ds_driver := connected c (ds_driver s), ds_attempting := n, ds_leaving := ds_leaving s + 1\<rparr>)"
| leave: "ds_leaving s = Suc n \<Longrightarrow> driver_step s (s\<lparr>ds_leaving := n\<rparr>)"
| give_up: "ds_cancelled s \<Longrightarrow> ds_waiting s = Suc n \<Longrightarrow> driver_step s (s\<lparr>ds_waiting := n\<rparr>)"
| stop_cancel: "driver_step s (s\<lparr>ds_cancelled := True\<rparr>)"
| stop_finish: "ds_cancelled s \<Longrightarrow> ds_waiting s = 0 \<Longrightarrow> ds_attempting s = 0 \<Longrightarrow> ds_leaving s = 0 \<Longrightarrow>
    driver_step s (s\<lparr>ds_driver := stop_locked (ds_driver s), ds_stopped := True\<rparr>)"

definition fresh_sys :: "base_driver \<Rightarrow> driver_sys" where
  "fresh_sys d = \<lparr>ds_driver = d, ds_cancelled = False, ds_stopped = False, ds_checked = 0, ds_pending = 0,
     ds_waiting = 0, ds_attempting = 0, ds_leaving = 0\<rparr>"

section \<open>The invariant\<close>

definition retrying :: "driver_sys \<Rightarrow> nat" where
  "retrying s = ds_pending s + ds_waiting s + ds_attempting s"

definition reconnecting :: "'a base_driver_scheme \<Rightarrow> bool" where
  "reconnecting d \<longleftrightarrow> bd_state d = StateConnecting \<or> bd_state d = StateError"

definition lifecycle_inv :: "driver_sys \<Rightarrow> bool" where
  "lifecycle_inv s \<longleftrightarrow>
     (bd_conn (ds_driver s) \<noteq> None \<longleftrightarrow> bd_state (ds_driver s) = StateConnected)
     \<and> (\<not> ds_cancelled s \<longrightarrow>
          bd_state (ds_driver s) \<noteq> StateDisconnected
          \<and> retrying s = (if reconnecting (ds_driver s) then 1 else 0))"

lemmas lifecycle_defs =
  lifecycle_inv_def retrying_def reconnecting_def HandleConnectionLost_def connected_def stop_locked_def

lemma lifecycle_step: "driver_step s s' \<Longrightarrow> lifecycle_inv s \<Longrightarrow> lifecycle_inv s'"
proof (induction rule: driver_step.induct)
  case (attempt_succeeds s n c)
  then show ?case by (simp add: lifecycle_defs split: if_splits)
qed (auto simp: lifecycle_defs split: if_splits)

lemma lifecycle_start:
  assumes "bd_conn d = None" "bd_state d = StateDisconnected"
  shows "lifecycle_inv (base_Start r (fresh_sys d))"
  using assms by (cases r) (auto simp: base_Start_def fresh_sys_def lifecycle_defs Let_def)

lemma lifecycle_reachable:
  assumes "driver_step\<^sup>*\<^sup>* s s'" "lifecycle_inv s"
  shows "lifecycle_inv s'"
  using assms by (induction rule: rtranclp_induct) (auto intro: lifecycle_step)

text \<open>From every state in which a loop is owed, a few steps of it reach the connected state.\<close>

lemma waiting_connects:
  assumes "ds_waiting s \<noteq> 0"
  shows "\<exists>s'. driver_step\<^sup>*\<^sup>* s s' \<and> bd_state (ds_driver s') = StateConnected"
proof -
  from assms obtain n where n: "ds_waiting s = Suc n" by (cases "ds_waiting s") auto
  define s1 where "s1 = s\<lparr>ds_driver := (ds_driver s)\<lparr>bd_reconnectCount := bd_reconnectCount (ds_driver s) + 1\<rparr>,
    ds_waiting := n, ds_attempting := ds_attempting s + 1\<rparr>"
  have 1: "driver_step s s1" unfolding s1_def by (rule wake) (rule n)
  have 2: "driver_step s1 (s1\<lparr>ds_driver := connected 0 (ds_driver s1), ds_attempting := ds_attempting s,
      ds_leaving := ds_leaving s1 + 1\<rparr>)"
    by (rule attempt_succeeds) (simp add: s1_def)
  from 1 2 have "driver_step\<^sup>*\<^sup>* s (s1\<lparr>ds_driver := connected 0 (ds_driver s1), ds_attempting := ds_attempting s,
      ds_leaving := ds_leaving s1 + 1\<rparr>)" by (meson converse_rtranclp_into_rtranclp rtranclp.rtrancl_refl)
  then show ?thesis by (intro exI conjI) (assumption, simp add: connected_def)
qed

lemma retrying_connects:
  assumes "retrying s \<noteq> 0"
  shows "\<exists>s'. driver_step\<^sup>*\<^sup>* s s' \<and> bd_state (ds_driver s') = StateConnected"
proof -
  consider "ds_waiting s \<noteq> 0" | n where "ds_pending s = Suc n" | n where "ds_attempting s = Suc n"
    using assms by (cases "ds_pending s"; cases "ds_attempting s") (auto simp: retrying_def)
  then show ?thesis
  proof cases
    case 1
    then show ?thesis by (rule waiting_connects)
  next
    case 2
    then have st: "driver_step s (s\<lparr>ds_pending := n, ds_waiting := ds_waiting s + 1\<rparr>)" by (rule startReconnectLoop)
    from waiting_connects [of "s\<lparr>ds_pending := n, ds_waiting := ds_waiting s + 1\<rparr>"] st
    show ?thesis by (auto intro: converse_rtranclp_into_rtranclp)
  next
    case 3
    then have st: "driver_step s (s\<lparr>ds_attempting := n, ds_waiting := ds_waiting s + 1\<rparr>)" by (rule attempt_fails)
    from waiting_connects [of "s\<lparr>ds_attempting := n, ds_waiting := ds_waiting s + 1\<rparr>"] st
    show ?thesis by (auto intro: converse_rtranclp_into_rtranclp)
  qed
qed

section \<open>Properties\<close>

text \<open>
  C26. Whatever the interleaving of readers, writers and reconnect goroutines after \<^verbatim>\<open>Start\<close>, the
  driver has a protocol client exactly when it reports the state connected; and until \<^verbatim>\<open>Stop\<close> cancels the
  context there is at most one reconnect loop, present exactly while the driver is connecting or in
  error: two loops never compete for the device, and the driver is never left without one.
\<close>

theorem one_reconnect_loop:
  assumes "bd_conn d = None" "bd_state d = StateDisconnected"
    and "driver_step\<^sup>*\<^sup>* (base_Start r (fresh_sys d)) s"
  shows "(bd_conn (ds_driver s) \<noteq> None \<longleftrightarrow> bd_state (ds_driver s) = StateConnected)
    \<and> (\<not> ds_cancelled s \<longrightarrow> retrying s = (if bd_state (ds_driver s) = StateConnected then 0 else 1))"
proof -
  have "lifecycle_inv s"
    using assms(3) lifecycle_start [OF assms(1,2)] by (rule lifecycle_reachable)
  then show ?thesis
    by (cases "bd_state (ds_driver s)") (auto simp: lifecycle_inv_def reconnecting_def)
qed

text \<open>
  C34. A running driver that has lost its connection can always get it back: from every state reached
  before \<^verbatim>\<open>Stop\<close>, some continuation of the goroutines leads to the state connected.
\<close>

theorem reconnect_always_possible:
  assumes "bd_conn d = None" "bd_state d = StateDisconnected"
    and "driver_step\<^sup>*\<^sup>* (base_Start r (fresh_sys d)) s" "\<not> ds_cancelled s"
  shows "\<exists>s'. driver_step\<^sup>*\<^sup>* s s' \<and> bd_state (ds_driver s') = StateConnected"
proof -
  have inv: "lifecycle_inv s"
    using assms(3) lifecycle_start [OF assms(1,2)] by (rule lifecycle_reachable)
  show ?thesis
  proof (cases "bd_state (ds_driver s) = StateConnected")
    case True
    then show ?thesis by blast
  next
    case False
    with inv assms(4) have "reconnecting (ds_driver s)"
      by (cases "bd_state (ds_driver s)") (auto simp: lifecycle_inv_def reconnecting_def)
    with inv assms(4) have "retrying s \<noteq> 0" by (simp add: lifecycle_inv_def)
    then show ?thesis by (rule retrying_connects)
  qed
qed

text \<open>A stopped driver with nothing in flight.\<close>

definition quiet :: "driver_sys \<Rightarrow> bool" where
  "quiet s \<longleftrightarrow> bd_conn (ds_driver s) = None \<and> bd_state (ds_driver s) = StateDisconnected
     \<and> ds_checked s = 0 \<and> retrying s = 0 \<and> ds_leaving s = 0"

lemma quiet_step: "driver_step s s' \<Longrightarrow> quiet s \<Longrightarrow> quiet s'"
  by (induction rule: driver_step.induct) (auto simp: quiet_def retrying_def stop_locked_def)

text \<open>
  \<^verbatim>\<open>Stop\<close> is final: once it has finished, with no read or write error still being handled, the driver
  is disconnected without a client, and no later step of any goroutine connects it again.
\<close>

theorem stop_is_final:
  assumes "ds_cancelled s" "ds_waiting s = 0" "ds_attempting s = 0" "ds_leaving s = 0"
    and "ds_checked s = 0" "ds_pending s = 0"
    and "driver_step\<^sup>*\<^sup>* (s\<lparr>ds_driver := stop_locked (ds_driver s), ds_stopped := True\<rparr>) s'"
  shows "bd_state (ds_driver s') = StateDisconnected \<and> bd_conn (ds_driver s') = None \<and> retrying s' = 0"
proof -
  have "quiet (s\<lparr>ds_driver := stop_locked (ds_driver s), ds_stopped := True\<rparr>)"
    using assms(2-6) by (simp add: quiet_def retrying_def stop_locked_def)
  with assms(7) have "quiet s'"
    by (induction rule: rtranclp_induct) (auto intro: quiet_step)
  then show ?thesis by (simp add: quiet_def)
qed

text \<open>
  The window between the locked part of \<^verbatim>\<open>HandleConnectionLost\<close> and the start of its goroutine is not
  covered by the wait group. When \<^verbatim>\<open>Restart\<close> falls into it, the new life starts connected and with the
  old life's reconnect loop, which replaces the live connection without closing it.
\<close>

lemma restart_race_leaks_connection:
  fixes d :: base_driver
  assumes "bd_state d = StateError" "bd_conn d = None"
  defines "s \<equiv> (fresh_sys d)\<lparr>ds_pending := 1, ds_cancelled := True\<rparr>"
  shows "\<exists>s1 s2. driver_step s s1 \<and> ds_stopped s1
    \<and> bd_conn (ds_driver (base_Start (Inr 1) s1)) = Some 1
    \<and> driver_step\<^sup>*\<^sup>* (base_Start (Inr 1) s1) s2 \<and> bd_conn (ds_driver s2) = Some 2"
proof -
  define s1 where "s1 = s\<lparr>ds_driver := stop_locked (ds_driver s), ds_stopped := True\<rparr>"
  define t where "t = base_Start (Inr 1) s1"
  define t1 where "t1 = t\<lparr>ds_pending := 0, ds_waiting := ds_waiting t + 1\<rparr>"
  define t2 where "t2 = t1\<lparr>ds_driver := (ds_driver t1)\<lparr>bd_reconnectCount := bd_reconnectCount (ds_driver t1) + 1\<rparr>,
    ds_waiting := 0, ds_attempting := ds_attempting t1 + 1\<rparr>"
  define t3 where "t3 = t2\<lparr>ds_driver := connected 2 (ds_driver t2), ds_attempting := 0, ds_leaving := ds_leaving t2 + 1\<rparr>"
  have a: "driver_step s s1" unfolding s1_def by (rule stop_finish) (simp_all add: s_def fresh_sys_def)
  have b: "driver_step t t1" unfolding t1_def
    by (rule startReconnectLoop) (simp add: t_def s1_def s_def base_Start_def fresh_sys_def)
  have c: "driver_step t1 t2" unfolding t2_def
    by (rule wake) (simp add: t1_def t_def s1_def s_def base_Start_def fresh_sys_def)
  have e: "driver_step t2 t3" unfolding t3_def
    by (rule attempt_succeeds) (simp add: t2_def t1_def t_def s1_def s_def base_Start_def fresh_sys_def)
  have "driver_step\<^sup>*\<^sup>* t t3" using b c e by (meson converse_rtranclp_into_rtranclp rtranclp.rtrancl_refl)
  moreover have "bd_conn (ds_driver t) = Some 1" by (simp add: t_def base_Start_def connected_def)
  moreover have "bd_conn (ds_driver t3) = Some 2" by (simp add: t3_def connected_def)
  moreover have "ds_stopped s1" by (simp add: s1_def)
  ultimately show ?thesis using a unfolding t_def by blast
qed

section \<open>Witnesses\<close>

definition idle_driver :: base_driver where
  "idle_driver = \<lparr>bd_name = ''plc1'', bd_type = ''s7'', bd_state = StateDisconnected, bd_conn = None, bd_lastRead = 0,
     bd_lastError = [], bd_readCount = 0, bd_errorCount = 0, bd_reconnectCount = 0,
     bd_reconnectBackoff = 2 * second, bd_maxReconnectBackoff = 30 * second, bd_maxReconnectFailures = 20\<rparr>"

text \<open>One reader of a connected driver has seen a connection error and is about to report it.\<close>

definition failing_sys :: driver_sys where
  "failing_sys = (base_Start (Inr 1) (fresh_sys idle_driver))\<lparr>ds_checked := 1\<rparr>"

lemma failing_sys_reached: "driver_step\<^sup>*\<^sup>* (base_Start (Inr 1) (fresh_sys idle_driver)) failing_sys"
proof -
  have "driver_step (base_Start (Inr 1) (fresh_sys idle_driver))
      ((base_Start (Inr 1) (fresh_sys idle_driver))
        \<lparr>ds_checked := ds_checked (base_Start (Inr 1) (fresh_sys idle_driver)) + 1\<rparr>)"
    by (rule check [of _ 1]) (simp add: base_Start_def connected_def)
  then show ?thesis by (simp add: failing_sys_def base_Start_def fresh_sys_def)
qed

theorem one_reconnect_loop_witness:
  "bd_conn (ds_driver failing_sys) \<noteq> None \<and> retrying failing_sys = 0"
  using one_reconnect_loop [OF _ _ failing_sys_reached]
  by (simp add: idle_driver_def failing_sys_def base_Start_def connected_def fresh_sys_def)

theorem reconnect_always_possible_witness:
  "\<exists>s'. driver_step\<^sup>*\<^sup>* failing_sys s' \<and> bd_state (ds_driver s') = StateConnected"
  using reconnect_always_possible [OF _ _ failing_sys_reached]
  by (simp add: idle_driver_def failing_sys_def base_Start_def fresh_sys_def)

theorem stop_is_final_witness:
  "bd_state (ds_driver ((fresh_sys (connected 1 idle_driver))
     \<lparr>ds_cancelled := True, ds_driver := stop_locked (connected 1 idle_driver), ds_stopped := True\<rparr>)) = StateDisconnected"
proof -
  let ?s = "(fresh_sys (connected 1 idle_driver))\<lparr>ds_cancelled := True\<rparr>"
  have "bd_state (ds_driver (?s\<lparr>ds_driver := stop_locked (ds_driver ?s), ds_stopped := True\<rparr>)) = StateDisconnected"
    using stop_is_final [of ?s "?s\<lparr>ds_driver := stop_locked (ds_driver ?s), ds_stopped := True\<rparr>"]
    by (simp add: fresh_sys_def)
  then show ?thesis by (simp add: fresh_sys_def)
qed

end
