(* ===== verification/S7_Driver.thy ===== *)
theory S7_Driver
  imports Driver_Base Regex "HOL-Library.Product_Lexorder"
begin

text \<open>
  The Siemens S7 driver, \<^verbatim>\<open>driver/s7\<close>: the address syntax (\<^verbatim>\<open>s7_address.go\<close>), the value codec
  (\<^verbatim>\<open>s7_codec.go\<close>), the planner that merges neighbouring tags into one area read and the batch
  reader (\<^verbatim>\<open>s7_merge.go\<close>), and \<^verbatim>\<open>Read\<close>, \<^verbatim>\<open>Write\<close> and the read-modify-write of a bit
  (\<^verbatim>\<open>s7.go\<close>).

  The protocol library gos7 is not part of the repository. A \<open>s7_client\<close> gives its area
  operations on the state \<open>'p\<close> of the controller, a \<open>s7_helper\<close> the byte helpers the code calls.
\<close>

section \<open>Addresses\<close>

datatype s7_area = AreaDB | AreaM | AreaI | AreaQ

fun s7_area_code :: "s7_area \<Rightarrow> nat" where
  "s7_area_code AreaDB = 0"
| "s7_area_code AreaM = 1"
| "s7_area_code AreaI = 2"
| "s7_area_code AreaQ = 3"

lemma s7_area_code_inj: "s7_area_code a = s7_area_code b \<longleftrightarrow> a = b"
  by (cases a; cases b) simp_all

instantiation s7_area :: linorder
begin

definition less_eq_s7_area :: "s7_area \<Rightarrow> s7_area \<Rightarrow> bool" where
  "less_eq_s7_area a b \<longleftrightarrow> s7_area_code a \<le> s7_area_code b"

definition less_s7_area :: "s7_area \<Rightarrow> s7_area \<Rightarrow> bool" where
  "less_s7_area a b \<longleftrightarrow> s7_area_code a < s7_area_code b"

instance
  by standard (auto simp: less_eq_s7_area_def less_s7_area_def s7_area_code_inj [symmetric])

end

record s7_address =
  sa_area :: s7_area
  sa_dbNumber :: int
  sa_start :: int
  sa_bit :: nat
  sa_size :: int
  sa_isBit :: bool

definition rx_digits :: rx where "rx_digits = RPlus (RClass is_digit)"

definition rx_kind :: "string \<Rightarrow> rx" where
  "rx_kind ks = RClass (\<lambda>c. to_upper_char c \<in> set ks)"

text \<open>\<^verbatim>\<open>(?i)^DB(\d+)\.DB([XBWD])(\d+)(?:\.(\d+))?$\<close>\<close>

definition reDB :: rx where
  "reDB = RSeqs [RLitFold ''DB'', RGroup 1 rx_digits, RChar CHR ''.'', RLitFold ''DB'', RGroup 2 (rx_kind ''XBWD''),
     RGroup 3 rx_digits, ROpt (RSeqs [RChar CHR ''.'', RGroup 4 rx_digits]), REnd]"

text \<open>\<^verbatim>\<open>(?i)^M([BWD]?)(\d+)(?:\.(\d+))?$\<close> and the same with \<^verbatim>\<open>[IE]\<close> and \<^verbatim>\<open>[QA]\<close>.\<close>

definition reMemory :: "string \<Rightarrow> rx" where
  "reMemory letters = RSeqs [rx_kind letters, RGroup 1 (ROpt (rx_kind ''BWD'')), RGroup 2 rx_digits,
     ROpt (RSeqs [RChar CHR ''.'', RGroup 3 rx_digits]), REnd]"

definition dataSizeForKind :: "string \<Rightarrow> data_type \<Rightarrow> int" where
  "dataSizeForKind kind dt =
     (if kind = ''X'' then 1 else if kind = ''B'' then 1 else if kind = ''W'' then 2 else if kind = ''D'' then 4
      else if dt = TypeBool then 1
      else if dt = TypeInt8 \<or> dt = TypeUint8 then 1
      else if dt = TypeInt16 \<or> dt = TypeUint16 then 2
      else if dt = TypeInt32 \<or> dt = TypeUint32 \<or> dt = TypeFloat32 then 4
      else if dt = TypeInt64 \<or> dt = TypeUint64 \<or> dt = TypeFloat64 then 8
      else 2)"

datatype address_error = BitOutOfRange int | Unrecognized string

definition validateBitOffset :: "int \<Rightarrow> address_error option" where
  "validateBitOffset b = (if b < 0 \<or> b > 7 then Some (BitOutOfRange b) else None)"

text \<open>The three branches for M, I and Q are the same up to the letters and the area.\<close>

definition parse_memory :: "s7_area \<Rightarrow> string \<Rightarrow> captures \<Rightarrow> data_type \<Rightarrow> (address_error, s7_address) result" where
  "parse_memory area s c dt =
     (let kind = to_upper (group_text s c 1); byteOffset = atoi_digits (group_text s c 2);
          bits = group_text s c 3;
          bitOffset = (if bits \<noteq> [] then atoi_digits bits else 0);
          isBit = (if bits \<noteq> [] then True else kind = [] \<and> dt = TypeBool)
      in case validateBitOffset bitOffset of
           Some err \<Rightarrow> Inl err
         | None \<Rightarrow> Inr \<lparr>sa_area = area, sa_dbNumber = 0, sa_start = byteOffset, sa_bit = nat bitOffset,
                        sa_size = dataSizeForKind kind dt, sa_isBit = isBit\<rparr>)"

definition parseS7Address :: "string \<Rightarrow> data_type \<Rightarrow> (address_error, s7_address) result" where
  "parseS7Address addrStr dt =
     (let s = trim_space addrStr
      in case find_anchored reDB s of
           Some (_, _, c) \<Rightarrow>
             (let dbNum = atoi_digits (group_text s c 1); kind = to_upper (group_text s c 2);
                  byteOffset = atoi_digits (group_text s c 3); bits = group_text s c 4;
                  bitOffset = (if bits \<noteq> [] then atoi_digits bits else 0)
              in case validateBitOffset bitOffset of
                   Some err \<Rightarrow> Inl err
                 | None \<Rightarrow> Inr \<lparr>sa_area = AreaDB, sa_dbNumber = dbNum, sa_start = byteOffset, sa_bit = nat bitOffset,
                                sa_size = dataSizeForKind kind dt, sa_isBit = (kind = ''X'')\<rparr>)
         | None \<Rightarrow>
           (case find_anchored (reMemory ''M'') s of
              Some (_, _, c) \<Rightarrow> parse_memory AreaM s c dt
            | None \<Rightarrow>
              (case find_anchored (reMemory ''IE'') s of
                 Some (_, _, c) \<Rightarrow> parse_memory AreaI s c dt
               | None \<Rightarrow>
                 (case find_anchored (reMemory ''QA'') s of
                    Some (_, _, c) \<Rightarrow> parse_memory AreaQ s c dt
                  | None \<Rightarrow> Inl (Unrecognized s)))))"

section \<open>Values\<close>

record s7_helper =
  GetBoolAt :: "u8 \<Rightarrow> nat \<Rightarrow> bool"
  SetBoolAt :: "u8 \<Rightarrow> nat \<Rightarrow> bool \<Rightarrow> u8"
  GetRealAt :: "u8 list \<Rightarrow> f32"
  GetLRealAt :: "u8 list \<Rightarrow> f64"
  GetStringAt :: "u8 list \<Rightarrow> string"
  SetRealAt :: "u8 list \<Rightarrow> f32 \<Rightarrow> u8 list"
  SetLRealAt :: "u8 list \<Rightarrow> f64 \<Rightarrow> u8 list"

text \<open>\<^verbatim>\<open>encoding/binary.BigEndian\<close>.\<close>

definition be_val :: "u8 list \<Rightarrow> nat" where
  "be_val bs = foldl (\<lambda>n b. n * 256 + unat b) 0 bs"

fun be_bytes :: "nat \<Rightarrow> nat \<Rightarrow> u8 list" where
  "be_bytes 0 n = []"
| "be_bytes (Suc k) n = be_bytes k (n div 256) @ [word_of_nat n]"

text \<open>\<^verbatim>\<open>binary.BigEndian.PutUintN(buf, v)\<close> writes the first bytes of \<open>buf\<close>.\<close>

definition put_bytes :: "u8 list \<Rightarrow> u8 list \<Rightarrow> u8 list" where
  "put_bytes buf bs = bs @ drop (length bs) buf"

definition s7RequiredSize :: "data_type \<Rightarrow> int" where
  "s7RequiredSize dt =
     (if dt = TypeBool \<or> dt = TypeUint8 \<or> dt = TypeInt8 \<or> dt = TypeString then 1
      else if dt = TypeUint16 \<or> dt = TypeInt16 then 2
      else if dt = TypeUint32 \<or> dt = TypeInt32 \<or> dt = TypeFloat32 then 4
      else if dt = TypeUint64 \<or> dt = TypeInt64 \<or> dt = TypeFloat64 then 8
      else 0)"

definition decodeS7TypedValue :: "s7_helper \<Rightarrow> u8 list \<Rightarrow> s7_address \<Rightarrow> data_type \<Rightarrow> (string, go_value) result" where
  "decodeS7TypedValue h buf addr dt =
     (if dt = TypeBool then Inr (VBool (GetBoolAt h (hd buf) (sa_bit addr)))
      else if dt = TypeUint8 then Inr (VUint8 (hd buf))
      else if dt = TypeInt8 then Inr (VInt8 (hd buf))
      else if dt = TypeUint16 then Inr (VUint16 (word_of_nat (be_val (take 2 buf))))
      else if dt = TypeInt16 then Inr (VInt16 (word_of_nat (be_val (take 2 buf))))
      else if dt = TypeUint32 then Inr (VUint32 (word_of_nat (be_val (take 4 buf))))
      else if dt = TypeInt32 then Inr (VInt32 (word_of_nat (be_val (take 4 buf))))
      else if dt = TypeFloat32 then Inr (VFloat32 (GetRealAt h buf))
      else if dt = TypeFloat64 then Inr (VFloat64 (GetLRealAt h buf))
      else if dt = TypeString then Inr (VString (GetStringAt h buf))
      else Inl (''s7: unsupported read data type: '' @ data_type_String dt))"

definition decodeS7Buffer :: "s7_helper \<Rightarrow> u8 list \<Rightarrow> s7_address \<Rightarrow> data_type \<Rightarrow> (string, go_value) result" where
  "decodeS7Buffer h buf addr dt =
     (if sa_isBit addr then Inr (VBool (GetBoolAt h (hd buf) (sa_bit addr)))
      else if s7RequiredSize dt > 0 \<and> int (length buf) < s7RequiredSize dt
      then Inl (''s7: buffer too small for type '' @ data_type_String dt @ '': have '' @ show_nat (length buf)
             @ '' bytes, need '' @ show_int (s7RequiredSize dt))
      else decodeS7TypedValue h buf addr dt)"

text \<open>The text \<^verbatim>\<open>%T\<close> prints for a value.\<close>

fun go_type_name :: "go_value \<Rightarrow> string" where
  "go_type_name VNil = ''<nil>''"
| "go_type_name (VBool _) = ''bool''"
| "go_type_name (VInt _) = ''int''" | "go_type_name (VInt8 _) = ''int8''" | "go_type_name (VInt16 _) = ''int16''"
| "go_type_name (VInt32 _) = ''int32''" | "go_type_name (VInt64 _) = ''int64''"
| "go_type_name (VUint _) = ''uint''" | "go_type_name (VUint8 _) = ''uint8''" | "go_type_name (VUint16 _) = ''uint16''"
| "go_type_name (VUint32 _) = ''uint32''" | "go_type_name (VUint64 _) = ''uint64''"
| "go_type_name (VFloat32 _) = ''float32''" | "go_type_name (VFloat64 _) = ''float64''"
| "go_type_name (VString _) = ''string''"
| "go_type_name (VBytes _) = ''[]uint8''"
| "go_type_name (VList _) = ''[]interface {}''"
| "go_type_name (VMap _) = ''map[string]interface {}''"

definition encodeS7Value ::
  "(f64 \<Rightarrow> int) \<Rightarrow> s7_helper \<Rightarrow> go_value \<Rightarrow> s7_address \<Rightarrow> data_type \<Rightarrow> (string, u8 list) result" where
  "encodeS7Value cv h v addr dt =
     (if s7RequiredSize dt > 0 \<and> sa_size addr < s7RequiredSize dt
      then Inl (''s7: address buffer too small for write type '' @ data_type_String dt @ '': have ''
             @ show_int (sa_size addr) @ '' bytes, need '' @ show_int (s7RequiredSize dt))
      else let buf = replicate (nat (sa_size addr)) 0
           in if dt = TypeBool then Inr (case v of VBool True \<Rightarrow> put_bytes buf [1] | _ \<Rightarrow> buf)
              else if dt = TypeUint8 \<or> dt = TypeInt8 then Inr (put_bytes buf [ucast (ToUint16 cv v)])
              else if dt = TypeUint16 \<or> dt = TypeInt16 then Inr (put_bytes buf (be_bytes 2 (unat (ToUint16 cv v))))
              else if dt = TypeUint32 \<or> dt = TypeInt32 then Inr (put_bytes buf (be_bytes 4 (unat (ToUint32 cv v))))
              else if dt = TypeUint64 \<or> dt = TypeInt64 then Inr (put_bytes buf (be_bytes 8 (unat (ToUint64 cv v))))
              else if dt = TypeFloat32 then Inr (SetRealAt h buf (ToFloat32 v))
              else if dt = TypeFloat64 then Inr (SetLRealAt h buf (ToFloat64 v))
              else if dt = TypeBytes
              then (case v of VBytes b \<Rightarrow> Inr (put_bytes buf (take (length buf) b))
                    | _ \<Rightarrow> Inl (''s7: bytes write requires []byte value, got '' @ go_type_name v))
              else if dt = TypeString then Inl ''s7: writing string is not supported''
              else Inl (''s7: unsupported write data type: '' @ data_type_String dt))"

section \<open>Planning merged reads\<close>

definition s7MergeGapLimit :: int where "s7MergeGapLimit = 32"
definition s7MaxPDUReadLen :: int where "s7MaxPDUReadLen = 480"
definition s7MaxBatchSize :: nat where "s7MaxBatchSize = 220"

record s7_read_tag =
  rt_index :: nat
  rt_name :: string
  rt_addr :: s7_address
  rt_dt :: data_type
  rt_scale :: f64
  rt_offset :: f64

record s7_segment =
  sg_area :: s7_area
  sg_dbNumber :: int
  sg_start :: int
  sg_length :: int
  sg_entries :: "s7_read_tag list"

definition new_segment :: "s7_read_tag \<Rightarrow> s7_segment" where
  "new_segment t = \<lparr>sg_area = sa_area (rt_addr t), sg_dbNumber = sa_dbNumber (rt_addr t),
     sg_start = sa_start (rt_addr t), sg_length = sa_size (rt_addr t), sg_entries = [t]\<rparr>"

text \<open>
  \<^verbatim>\<open>appendMergedSegment\<close>: the newest segment is the last one. The code passes area and DB number of
  the group, which are the tag's.
\<close>

definition appendMergedSegment :: "s7_read_tag \<Rightarrow> s7_segment list \<Rightarrow> s7_segment list" where
  "appendMergedSegment t segs =
     (if segs \<noteq> [] \<and> sg_area (last segs) = sa_area (rt_addr t) \<and> sg_dbNumber (last segs) = sa_dbNumber (rt_addr t)
      then let cur = last segs;
               gap = i64 (sa_start (rt_addr t) - i64 (sg_start cur + sg_length cur));
               mergedLen = i64 (i64 (sa_start (rt_addr t) + sa_size (rt_addr t)) - sg_start cur)
           in if gap \<le> s7MergeGapLimit \<and> mergedLen \<le> s7MaxPDUReadLen
              then butlast segs @ [cur\<lparr>sg_length := (if mergedLen > sg_length cur then mergedLen else sg_length cur),
                                       sg_entries := sg_entries cur @ [t]\<rparr>]
              else segs @ [new_segment t]
      else segs @ [new_segment t])"

definition tag_key :: "s7_read_tag \<Rightarrow> s7_area \<times> int" where
  "tag_key t = (sa_area (rt_addr t), sa_dbNumber (rt_addr t))"

text \<open>The tags in the order the planner visits them: groups by key, each stably sorted by start.\<close>

definition visit_order :: "s7_read_tag list \<Rightarrow> s7_read_tag list" where
  "visit_order tags =
     concat (map (\<lambda>k. sort_key (\<lambda>t. sa_start (rt_addr t)) (filter (\<lambda>t. tag_key t = k) tags))
       (sort (remdups (map tag_key tags))))"

definition planS7ReadSegments :: "s7_read_tag list \<Rightarrow> s7_segment list" where
  "planS7ReadSegments tags = fold appendMergedSegment (visit_order tags) []"

section \<open>Reading and writing\<close>

text \<open>
  The client of gos7: each call reads \<open>n\<close> bytes from \<open>start\<close> of one memory area, or writes bytes there,
  and may change the state \<open>'p\<close> of the controller and the connection.
\<close>

record 'p s7_client =
  AGReadDB :: "int \<Rightarrow> int \<Rightarrow> nat \<Rightarrow> 'p \<Rightarrow> (string, u8 list) result \<times> 'p"
  AGReadMB :: "int \<Rightarrow> nat \<Rightarrow> 'p \<Rightarrow> (string, u8 list) result \<times> 'p"
  AGReadEB :: "int \<Rightarrow> nat \<Rightarrow> 'p \<Rightarrow> (string, u8 list) result \<times> 'p"
  AGReadAB :: "int \<Rightarrow> nat \<Rightarrow> 'p \<Rightarrow> (string, u8 list) result \<times> 'p"
  AGWriteDB :: "int \<Rightarrow> int \<Rightarrow> u8 list \<Rightarrow> 'p \<Rightarrow> (string, unit) result \<times> 'p"
  AGWriteMB :: "int \<Rightarrow> u8 list \<Rightarrow> 'p \<Rightarrow> (string, unit) result \<times> 'p"
  AGWriteEB :: "int \<Rightarrow> u8 list \<Rightarrow> 'p \<Rightarrow> (string, unit) result \<times> 'p"
  AGWriteAB :: "int \<Rightarrow> u8 list \<Rightarrow> 'p \<Rightarrow> (string, unit) result \<times> 'p"

fun readS7Area ::
  "'p s7_client \<Rightarrow> s7_area \<Rightarrow> int \<Rightarrow> int \<Rightarrow> nat \<Rightarrow> 'p \<Rightarrow> (string, u8 list) result \<times> 'p" where
  "readS7Area cl AreaDB db start n p = AGReadDB cl db start n p"
| "readS7Area cl AreaM db start n p = AGReadMB cl start n p"
| "readS7Area cl AreaI db start n p = AGReadEB cl start n p"
| "readS7Area cl AreaQ db start n p = AGReadAB cl start n p"

text \<open>The switch over the area at the end of \<^verbatim>\<open>writeAddress\<close>.\<close>

fun write_area ::
  "'p s7_client \<Rightarrow> s7_area \<Rightarrow> int \<Rightarrow> int \<Rightarrow> u8 list \<Rightarrow> 'p \<Rightarrow> (string, unit) result \<times> 'p" where
  "write_area cl AreaDB db start buf p = AGWriteDB cl db start buf p"
| "write_area cl AreaM db start buf p = AGWriteMB cl start buf p"
| "write_area cl AreaI db start buf p = AGWriteEB cl start buf p"
| "write_area cl AreaQ db start buf p = AGWriteAB cl start buf p"

record s7_driver = base_driver +
  sd_host :: string
  sd_port :: int
  sd_rack :: int
  sd_slot :: int
  sd_timeout :: time
  sd_idleTimeout :: time
  sd_tags :: "string \<rightharpoonup> tag_config"
  sd_addrs :: "string \<rightharpoonup> s7_address"

text \<open>
  The tag loop of \<^verbatim>\<open>Init\<close>: a tag with a bad address stops it, with the tag already recorded.
\<close>

fun init_tags :: "tag_config list \<Rightarrow> s7_driver \<Rightarrow> (string \<times> address_error) option \<times> s7_driver" where
  "init_tags [] d = (None, d)"
| "init_tags (tag # rest) d =
     (let d = d\<lparr>sd_tags := (sd_tags d)(tc_name tag \<mapsto> tag)\<rparr>
      in case parseS7Address (tc_address tag) (parse_data_type_or_zero (tc_type tag)) of
           Inl err \<Rightarrow> (Some (tc_name tag, err), d)
         | Inr addr \<Rightarrow> init_tags rest (d\<lparr>sd_addrs := (sd_addrs d)(tc_name tag \<mapsto> addr)\<rparr>))"

datatype s7_init_error = HostRequired | InvalidAddress string address_error

definition s7_Init ::
  "(f64 \<Rightarrow> int) \<Rightarrow> (string \<Rightarrow> time option) \<Rightarrow> string \<Rightarrow> settings \<Rightarrow> tag_config list \<Rightarrow> s7_driver \<Rightarrow> s7_init_error option \<times> s7_driver" where
  "s7_Init cv parse_duration name settings tags d =
     (let d = d\<lparr>bd_name := name, bd_type := ''s7''\<rparr>
      in case map_of settings ''host'' of
           Some (VString host) \<Rightarrow>
             (let d = d\<lparr>sd_host := host, sd_port := GetIntSetting cv settings ''port'' 102,
                        sd_rack := GetIntSetting cv settings ''rack'' 0, sd_slot := GetIntSetting cv settings ''slot'' 2\<rparr>;
                  d = (case map_of settings ''timeout'' of
                         Some (VString s) \<Rightarrow> (case parse_duration s of Some t \<Rightarrow> d\<lparr>sd_timeout := t\<rparr> | None \<Rightarrow> d)
                       | _ \<Rightarrow> d);
                  d = (if sd_timeout d = 0 then d\<lparr>sd_timeout := DefaultDriverTimeout\<rparr> else d);
                  d = d\<lparr>sd_idleTimeout := GetDurationSetting parse_duration settings ''idle-timeout'' DefaultIdleTimeout\<rparr>;
                  d = ParseReconnectSettings cv parse_duration settings d
              in case init_tags tags d of
                   (None, d) \<Rightarrow> (None, d)
                 | (Some (n, err), d) \<Rightarrow> (Some (InvalidAddress n err), d))
         | _ \<Rightarrow> (Some HostRequired, d))"

definition recordReadFailure :: "string \<Rightarrow> s7_driver \<Rightarrow> s7_driver" where
  "recordReadFailure err d = (RecordError d)\<lparr>bd_lastError := err\<rparr>"

text \<open>The failure of a round trip made with connection \<open>conn\<close>.\<close>

definition read_failed :: "nat \<Rightarrow> string \<Rightarrow> s7_driver \<Rightarrow> s7_driver" where
  "read_failed conn err d =
     (let d = recordReadFailure err d
      in if IsConnectionError (Some err) then snd (handleConnLostIfCurrent conn d) else d)"

text \<open>\<^verbatim>\<open>core.TagValue{}\<close>, what a slot holds before it is filled.\<close>

definition zero_value :: tag_value where
  "zero_value = \<lparr>tv_tag = [], tv_value = VNil, tv_type = TypeBool, tv_quality = QualityGood,
     tv_timestamp = 0, tv_error = None\<rparr>"

definition bad_value :: "string \<Rightarrow> time \<Rightarrow> string \<Rightarrow> tag_value" where
  "bad_value n now err = \<lparr>tv_tag = n, tv_value = VNil, tv_type = TypeBool, tv_quality = QualityBad,
     tv_timestamp = now, tv_error = Some err\<rparr>"

definition s7GoodTagValue :: "s7_read_tag \<Rightarrow> go_value \<Rightarrow> time \<Rightarrow> tag_value" where
  "s7GoodTagValue t val now = \<lparr>tv_tag = rt_name t, tv_value = ApplyTransform val (rt_scale t) (rt_offset t),
     tv_type = rt_dt t, tv_quality = QualityGood, tv_timestamp = now, tv_error = None\<rparr>"

definition s7_err :: "string \<Rightarrow> string" where "s7_err e = ''s7 read error: '' @ e"

text \<open>Decoding the tags of a segment out of the shared buffer.\<close>

definition decode_entry ::
  "s7_helper \<Rightarrow> time \<Rightarrow> s7_segment \<Rightarrow> u8 list \<Rightarrow> s7_read_tag \<Rightarrow> s7_driver \<times> tag_value list \<Rightarrow> s7_driver \<times> tag_value list" where
  "decode_entry h now seg buf t st =
     (let (d, values) = st;
          off = nat (sa_start (rt_addr t) - sg_start seg);
          sub = take (nat (sa_size (rt_addr t))) (drop off buf)
      in case decodeS7Buffer h sub (rt_addr t) (rt_dt t) of
           Inl derr \<Rightarrow> (recordReadFailure (s7_err derr) d, values[rt_index t := bad_value (rt_name t) now (s7_err derr)])
         | Inr val \<Rightarrow> (d, values[rt_index t := s7GoodTagValue t val now]))"

definition readMergedSegment ::
  "s7_helper \<Rightarrow> 'p s7_client \<Rightarrow> nat \<Rightarrow> time \<Rightarrow> s7_segment \<Rightarrow> s7_driver \<times> tag_value list \<times> 'p \<Rightarrow> s7_driver \<times> tag_value list \<times> 'p" where
  "readMergedSegment h cl conn now seg st =
     (case st of (d, values, p) \<Rightarrow>
        case readS7Area cl (sg_area seg) (sg_dbNumber seg) (sg_start seg) (nat (sg_length seg)) p of
          (Inl err, p') \<Rightarrow>
            (read_failed conn (s7_err err) d,
             fold (\<lambda>t vs. vs[rt_index t := bad_value (rt_name t) now (s7_err err)]) (sg_entries seg) values, p')
        | (Inr buf, p') \<Rightarrow>
            (case fold (decode_entry h now seg buf) (sg_entries seg) (d, values) of (d', values') \<Rightarrow> (d', values', p')))"

definition readAddress ::
  "s7_helper \<Rightarrow> 'p s7_client \<Rightarrow> s7_address \<Rightarrow> data_type \<Rightarrow> 'p \<Rightarrow> (string, go_value) result \<times> 'p" where
  "readAddress h cl addr dt p =
     (case readS7Area cl (sa_area addr) (sa_dbNumber addr) (sa_start addr) (nat (sa_size addr)) p of
        (Inl err, p') \<Rightarrow> (Inl (s7_err err), p')
      | (Inr buf, p') \<Rightarrow> (decodeS7Buffer h buf addr dt, p'))"

definition readBitTag ::
  "s7_helper \<Rightarrow> 'p s7_client \<Rightarrow> nat \<Rightarrow> time \<Rightarrow> s7_read_tag \<Rightarrow> s7_driver \<times> tag_value list \<times> 'p \<Rightarrow> s7_driver \<times> tag_value list \<times> 'p" where
  "readBitTag h cl conn now t st =
     (case st of (d, values, p) \<Rightarrow>
        case readAddress h cl (rt_addr t) (rt_dt t) p of
          (Inl err, p') \<Rightarrow> (read_failed conn err d, values[rt_index t := bad_value (rt_name t) now err], p')
        | (Inr val, p') \<Rightarrow> (d, values[rt_index t := s7GoodTagValue t val now], p'))"

text \<open>Phase 1 of a batch: the tag request at position \<open>i\<close>, unless the name is unknown.\<close>

definition resolve_tag :: "s7_driver \<Rightarrow> nat \<times> string \<Rightarrow> s7_read_tag option" where
  "resolve_tag d x =
     (case x of (i, n) \<Rightarrow>
        case (sd_tags d n, sd_addrs d n) of
          (Some cfg, Some addr) \<Rightarrow>
            Some \<lparr>rt_index = i, rt_name = n, rt_addr = addr, rt_dt = parse_data_type_or_zero (tc_type cfg),
                  rt_scale = tc_scale cfg, rt_offset = tc_offset cfg\<rparr>
        | _ \<Rightarrow> None)"

definition readS7Batch ::
  "s7_helper \<Rightarrow> 'p s7_client \<Rightarrow> nat \<Rightarrow> time \<Rightarrow> string list \<Rightarrow> s7_driver \<Rightarrow> 'p \<Rightarrow> s7_driver \<times> tag_value list \<times> 'p" where
  "readS7Batch h cl conn now batch d p =
     (let values = map (\<lambda>x. case resolve_tag d x of
                                None \<Rightarrow> bad_value (snd x) now (''tag not found: '' @ snd x)
                              | Some _ \<Rightarrow> zero_value) (enumerate 0 batch);
          tags = List.map_filter (resolve_tag d) (enumerate 0 batch);
          bitTags = filter (\<lambda>t. sa_isBit (rt_addr t)) tags;
          wordTags = filter (\<lambda>t. \<not> sa_isBit (rt_addr t)) tags
      in fold (readBitTag h cl conn now) bitTags
           (fold (readMergedSegment h cl conn now) (planS7ReadSegments wordTags) (d, values, p)))"

fun s7_batches :: "nat \<Rightarrow> string list \<Rightarrow> string list list" where
  "s7_batches 0 tags = []"
| "s7_batches (Suc n) tags =
     (if tags = [] then [] else take s7MaxBatchSize tags # s7_batches n (drop s7MaxBatchSize tags))"

fun read_batches ::
  "s7_helper \<Rightarrow> 'p s7_client \<Rightarrow> nat \<Rightarrow> time \<Rightarrow> string list list \<Rightarrow> s7_driver \<Rightarrow> 'p \<Rightarrow> tag_value list \<times> s7_driver \<times> 'p" where
  "read_batches h cl conn now [] d p = ([], d, p)"
| "read_batches h cl conn now (b # bs) d p =
     (let (d1, vs, p1) = readS7Batch h cl conn now b d p;
          (rest, d2, p2) = read_batches h cl conn now bs (AddReadCount (length b) d1) p1
      in (vs @ rest, d2, p2))"

definition s7_Read ::
  "s7_helper \<Rightarrow> 'p s7_client \<Rightarrow> time \<Rightarrow> string list \<Rightarrow> s7_driver \<Rightarrow> 'p \<Rightarrow>
   (string, tag_value list) result \<times> s7_driver \<times> 'p" where
  "s7_Read h cl now tags d p =
     (case bd_conn d of
        Some conn \<Rightarrow>
          if bd_state d \<noteq> StateConnected
          then (Inl (''driver '' @ bd_name d @ '' is not connected''), RecordError d, p)
          else (case read_batches h cl conn now (s7_batches (length tags) tags) d p of
                  (vs, d', p') \<Rightarrow> (Inr vs, d'\<lparr>bd_lastRead := now\<rparr>, p'))
      | None \<Rightarrow> (Inl (''driver '' @ bd_name d @ '' is not connected''), RecordError d, p))"

definition writeAddress ::
  "(f64 \<Rightarrow> int) \<Rightarrow> s7_helper \<Rightarrow> 'p s7_client \<Rightarrow> s7_address \<Rightarrow> write_command \<Rightarrow> 'p \<Rightarrow> (string, unit) result \<times> 'p" where
  "writeAddress cv h cl addr cmd p =
     (case encodeS7Value cv h (wc_value cmd) addr (wc_type cmd) of
        Inl err \<Rightarrow> (Inl (''s7 encode '' @ wc_tag cmd @ '': '' @ err), p)
      | Inr buf \<Rightarrow>
          if sa_isBit addr
          then case readS7Area cl (sa_area addr) (sa_dbNumber addr) (sa_start addr) 1 p of
                 (Inl err, p') \<Rightarrow> (Inl (''failed to read before bit-write: '' @ err), p')
               | (Inr cur, p') \<Rightarrow>
                   let valBool = (case wc_value cmd of VBool b \<Rightarrow> b | _ \<Rightarrow> False)
                   in write_area cl (sa_area addr) (sa_dbNumber addr) (sa_start addr)
                        [SetBoolAt h (hd cur) (sa_bit addr) valBool] p'
          else write_area cl (sa_area addr) (sa_dbNumber addr) (sa_start addr) buf p)"

text \<open>
  A tag without configuration has the zero \<^verbatim>\<open>TagConfig\<close>, whose scale and offset of zero leave the value as it is.
\<close>

fun write_commands ::
  "(f64 \<Rightarrow> int) \<Rightarrow> s7_helper \<Rightarrow> 'p s7_client \<Rightarrow> nat \<Rightarrow> write_command list \<Rightarrow> s7_driver \<Rightarrow> 'p \<Rightarrow>
   write_result list \<times> s7_driver \<times> 'p" where
  "write_commands cv h cl conn [] d p = ([], d, p)"
| "write_commands cv h cl conn (cmd # cmds) d p =
     (case sd_addrs d (wc_tag cmd) of
        None \<Rightarrow>
          (let (rs, d', p') = write_commands cv h cl conn cmds d p
           in (\<lparr>wr_success = False, wr_error = ''tag not found: '' @ wc_tag cmd\<rparr> # rs, d', p'))
      | Some addr \<Rightarrow>
          (let v = (case sd_tags d (wc_tag cmd) of
                      Some cfg \<Rightarrow> WriteValueForTag cmd cfg
                    | None \<Rightarrow> wc_value cmd);
               (r, p1) = writeAddress cv h cl addr (cmd\<lparr>wc_value := v\<rparr>) p
           in case r of
                Inl err \<Rightarrow>
                  (let d1 = RecordError d;
                       d2 = (if IsConnectionError (Some err) then snd (handleConnLostIfCurrent conn d1) else d1);
                       (rs, d', p') = write_commands cv h cl conn cmds d2 p1
                   in (\<lparr>wr_success = False, wr_error = err\<rparr> # rs, d', p'))
              | Inr _ \<Rightarrow>
                  (let (rs, d', p') = write_commands cv h cl conn cmds d p1
                   in (\<lparr>wr_success = True, wr_error = []\<rparr> # rs, d', p'))))"

definition s7_Write ::
  "(f64 \<Rightarrow> int) \<Rightarrow> s7_helper \<Rightarrow> 'p s7_client \<Rightarrow> write_command list \<Rightarrow> s7_driver \<Rightarrow> 'p \<Rightarrow>
   (string, write_result list) result \<times> s7_driver \<times> 'p" where
  "s7_Write cv h cl cmds d p =
     (case bd_conn d of
        Some conn \<Rightarrow>
          if bd_state d \<noteq> StateConnected then (Inl (''driver '' @ bd_name d @ '' is not connected''), d, p)
          else (case write_commands cv h cl conn cmds d p of (rs, d', p') \<Rightarrow> (Inr rs, d', p'))
      | None \<Rightarrow> (Inl (''driver '' @ bd_name d @ '' is not connected''), d, p))"

end
