(* ===== verification/S7_Props.thy ===== *)
theory S7_Props
  imports S7_Driver "HOL-Library.Multiset"
begin

text \<open>
  Correctness of the S7 driver: the planner covers every tag exactly once within the telegram limit,
  and a merged, batched read returns for every tag what a read of its own bytes would.
\<close>

section \<open>The planner\<close>

lemma mset_concat_filter:
  "distinct ks \<Longrightarrow> mset (concat (map (\<lambda>k. filter (\<lambda>x. f x = k) xs) ks)) = mset (filter (\<lambda>x. f x \<in> set ks) xs)"
proof (induction ks)
  case (Cons k ks)
  then have "mset (concat (map (\<lambda>k. filter (\<lambda>x. f x = k) xs) (k # ks))) =
      filter_mset (\<lambda>x. f x = k) (mset xs) + filter_mset (\<lambda>x. f x \<in> set ks) (mset xs)" by simp
  also have "\<dots> = filter_mset (\<lambda>x. f x \<in> set (k # ks)) (mset xs)"
    using Cons.prems by (induction xs) auto
  finally show ?case by simp
qed simp

lemma mset_concat_sort: "mset (concat (map (\<lambda>k. sort_key g (h k)) ks)) = mset (concat (map h ks))"
  by (induction ks) simp_all

lemma mset_visit_order: "mset (visit_order tags) = mset tags"
proof -
  let ?ks = "sort (remdups (map tag_key tags))"
  have "mset (visit_order tags) = mset (filter (\<lambda>t. tag_key t \<in> set ?ks) tags)"
    unfolding visit_order_def mset_concat_sort by (rule mset_concat_filter) simp
  also have "filter (\<lambda>t. tag_key t \<in> set ?ks) tags = tags" by (simp add: filter_id_conv)
  finally show ?thesis .
qed

text \<open>Of two tags in the same memory block, the planner visits the one that starts first, first.\<close>

definition visits :: "s7_read_tag \<Rightarrow> s7_read_tag \<Rightarrow> bool" where
  "visits t u \<longleftrightarrow> (tag_key t = tag_key u \<longrightarrow> sa_start (rt_addr t) \<le> sa_start (rt_addr u))"

lemma visits_groups:
  "distinct ks \<Longrightarrow> sorted_wrt visits
     (concat (map (\<lambda>k. sort_key (\<lambda>t. sa_start (rt_addr t)) (filter (\<lambda>t. tag_key t = k) tags)) ks))"
proof (induction ks)
  case (Cons k ks)
  have "sorted_wrt (\<lambda>t u. sa_start (rt_addr t) \<le> sa_start (rt_addr u))
      (sort_key (\<lambda>t. sa_start (rt_addr t)) (filter (\<lambda>t. tag_key t = k) tags))"
    using sorted_sort_key [of "\<lambda>t. sa_start (rt_addr t)"] by (simp only: sorted_map)
  then have "sorted_wrt visits (sort_key (\<lambda>t. sa_start (rt_addr t)) (filter (\<lambda>t. tag_key t = k) tags))"
    by (rule sorted_wrt_mono_rel [rotated]) (simp add: visits_def)
  moreover have "visits t u" if "tag_key t = k" "tag_key u \<in> set ks" for t u
    using Cons.prems that by (auto simp: visits_def)
  ultimately show ?case using Cons by (auto simp: sorted_wrt_append)
qed simp

lemma visits_order: "sorted_wrt visits (visit_order tags)"
  unfolding visit_order_def by (rule visits_groups) simp

text \<open>Addresses whose end is a Go \<^verbatim>\<open>int\<close>.\<close>

definition addr_ok :: "s7_address \<Rightarrow> bool" where
  "addr_ok a \<longleftrightarrow> 0 \<le> sa_start a \<and> 1 \<le> sa_size a \<and> sa_size a \<le> 8 \<and> sa_start a + sa_size a < 2 ^ 63"

definition covers :: "s7_segment \<Rightarrow> s7_read_tag \<Rightarrow> bool" where
  "covers seg t \<longleftrightarrow> tag_key t = (sg_area seg, sg_dbNumber seg) \<and> sg_start seg \<le> sa_start (rt_addr t)
     \<and> sa_start (rt_addr t) + sa_size (rt_addr t) \<le> sg_start seg + sg_length seg"

definition seg_ok :: "s7_segment \<Rightarrow> bool" where
  "seg_ok seg \<longleftrightarrow> sg_entries seg \<noteq> [] \<and> sg_start seg = sa_start (rt_addr (hd (sg_entries seg)))
     \<and> 0 \<le> sg_start seg \<and> 1 \<le> sg_length seg \<and> sg_length seg \<le> s7MaxPDUReadLen
     \<and> sg_start seg + sg_length seg < 2 ^ 63 \<and> (\<forall>t\<in>set (sg_entries seg). covers seg t)"

lemma new_segment_ok: "addr_ok (rt_addr t) \<Longrightarrow> seg_ok (new_segment t)"
  by (simp add: addr_ok_def seg_ok_def new_segment_def covers_def tag_key_def s7MaxPDUReadLen_def)

lemma merge_ok:
  assumes seg: "seg_ok seg" and a: "addr_ok (rt_addr t)" and k: "tag_key t = (sg_area seg, sg_dbNumber seg)"
    and v: "sg_start seg \<le> sa_start (rt_addr t)"
    and m: "m = i64 (i64 (sa_start (rt_addr t) + sa_size (rt_addr t)) - sg_start seg)" "m \<le> s7MaxPDUReadLen"
  shows "seg_ok (seg\<lparr>sg_length := (if m > sg_length seg then m else sg_length seg),
                     sg_entries := sg_entries seg @ [t]\<rparr>)"
proof -
  have m': "m = sa_start (rt_addr t) + sa_size (rt_addr t) - sg_start seg"
    using a seg v unfolding m(1) by (simp add: addr_ok_def seg_ok_def i64_id)
  have "\<forall>u\<in>set (sg_entries seg). covers seg u" using seg by (simp add: seg_ok_def)
  then show ?thesis
    using seg a k v m(2) m' by (auto simp: seg_ok_def addr_ok_def covers_def)
qed

definition plan_inv :: "s7_read_tag list \<Rightarrow> s7_segment list \<Rightarrow> bool" where
  "plan_inv ts segs \<longleftrightarrow> concat (map sg_entries segs) = ts \<and> (\<forall>seg\<in>set segs. seg_ok seg)"

lemma appendMergedSegment_inv:
  assumes inv: "plan_inv ts segs" and a: "addr_ok (rt_addr t)" and v: "\<forall>u\<in>set ts. visits u t"
  shows "plan_inv (ts @ [t]) (appendMergedSegment t segs)"
proof -
  have new: "plan_inv (ts @ [t]) (segs @ [new_segment t])"
    using inv new_segment_ok [OF a] by (auto simp: plan_inv_def new_segment_def)
  show ?thesis
  proof (cases "segs \<noteq> [] \<and> sg_area (last segs) = sa_area (rt_addr t) \<and> sg_dbNumber (last segs) = sa_dbNumber (rt_addr t)")
    case False
    then show ?thesis using new unfolding appendMergedSegment_def by (simp only: if_False)
  next
    case True
    define cur where "cur = last segs"
    define m where "m = i64 (i64 (sa_start (rt_addr t) + sa_size (rt_addr t)) - sg_start cur)"
    have segs: "segs = butlast segs @ [cur]" using True by (simp add: cur_def)
    have cur: "seg_ok cur" using inv segs unfolding plan_inv_def by (metis in_set_conv_decomp)
    have k: "tag_key t = (sg_area cur, sg_dbNumber cur)" using True by (simp add: tag_key_def cur_def)
    let ?h = "hd (sg_entries cur)"
    have h: "?h \<in> set (sg_entries cur)" using cur by (simp add: seg_ok_def)
    have "ts = concat (map sg_entries (butlast segs)) @ sg_entries cur"
      using inv by (subst (asm) segs) (simp add: plan_inv_def)
    with h v have "visits ?h t" by simp
    then have st: "sg_start cur \<le> sa_start (rt_addr t)"
      using cur h k by (auto simp: visits_def seg_ok_def covers_def)
    have eq: "appendMergedSegment t segs =
      (if i64 (sa_start (rt_addr t) - i64 (sg_start cur + sg_length cur)) \<le> s7MergeGapLimit \<and> m \<le> s7MaxPDUReadLen
       then butlast segs @ [cur\<lparr>sg_length := (if m > sg_length cur then m else sg_length cur),
                                sg_entries := sg_entries cur @ [t]\<rparr>]
       else segs @ [new_segment t])"
      using True by (simp add: appendMergedSegment_def Let_def cur_def m_def)
    have "plan_inv (ts @ [t]) (butlast segs @ [cur\<lparr>sg_length := (if m > sg_length cur then m else sg_length cur),
        sg_entries := sg_entries cur @ [t]\<rparr>])" if "m \<le> s7MaxPDUReadLen"
      using inv merge_ok [OF cur a k st m_def that]
      by (subst (asm) segs) (auto simp: plan_inv_def)
    then show ?thesis using new by (simp add: eq)
  qed
qed

lemma plan_fold_inv:
  "sorted_wrt visits ts \<Longrightarrow> \<forall>t\<in>set ts. addr_ok (rt_addr t) \<Longrightarrow> plan_inv ts (fold appendMergedSegment ts [])"
proof (induction ts rule: rev_induct)
  case Nil
  then show ?case by (simp add: plan_inv_def)
next
  case (snoc t ts)
  then show ?case by (auto simp: sorted_wrt_append intro: appendMergedSegment_inv)
qed

lemma plan_ok:
  assumes "\<forall>t\<in>set tags. addr_ok (rt_addr t)"
  shows "concat (map sg_entries (planS7ReadSegments tags)) = visit_order tags"
    and "\<forall>seg\<in>set (planS7ReadSegments tags). seg_ok seg"
proof -
  have "set (visit_order tags) = set tags" using mset_visit_order by (rule mset_eq_setD)
  then have "plan_inv (visit_order tags) (planS7ReadSegments tags)"
    using assms visits_order [of tags] plan_fold_inv [of "visit_order tags"] by (simp add: planS7ReadSegments_def)
  then show "concat (map sg_entries (planS7ReadSegments tags)) = visit_order tags"
    and "\<forall>seg\<in>set (planS7ReadSegments tags). seg_ok seg" by (simp_all add: plan_inv_def)
qed

section \<open>Reading\<close>

text \<open>The bytes of a controller memory \<open>mem\<close>, and a client that reads them or reports an error.\<close>

type_synonym plc_memory = "s7_area \<Rightarrow> int \<Rightarrow> int \<Rightarrow> u8"

definition mem_bytes :: "plc_memory \<Rightarrow> s7_area \<Rightarrow> int \<Rightarrow> int \<Rightarrow> nat \<Rightarrow> u8 list" where
  "mem_bytes mem area db start n = map (\<lambda>i. mem area db (start + int i)) [0..<n]"

definition serves :: "bool \<Rightarrow> 'p s7_client \<Rightarrow> plc_memory \<Rightarrow> bool" where
  "serves fails cl mem \<longleftrightarrow>
     (\<forall>area db start n p.
        fst (readS7Area cl area db start n p) = Inr (mem_bytes mem area db start n)
        \<or> fails \<and> isl (fst (readS7Area cl area db start n p)))"

lemma serves_cases:
  assumes "serves fails cl mem"
  obtains (ok) p' where "readS7Area cl area db start n p = (Inr (mem_bytes mem area db start n), p')"
  | (failed) err p' where "fails" "readS7Area cl area db start n p = (Inl err, p')"
proof (cases "readS7Area cl area db start n p")
  case (Pair r p')
  with assms have "r = Inr (mem_bytes mem area db start n) \<or> fails \<and> isl r"
    unfolding serves_def by (metis fst_conv)
  then show ?thesis using Pair that by (cases r) auto
qed

lemma mem_bytes_slice:
  assumes "start \<le> a" "a + int k \<le> start + int n"
  shows "take k (drop (nat (a - start)) (mem_bytes mem area db start n)) = mem_bytes mem area db a k"
  using assms by (intro nth_equalityI) (auto simp: mem_bytes_def add.assoc [symmetric])

text \<open>What a tag reads as on its own.\<close>

definition own_value :: "s7_helper \<Rightarrow> plc_memory \<Rightarrow> time \<Rightarrow> s7_read_tag \<Rightarrow> tag_value" where
  "own_value h mem now t =
     (case decodeS7Buffer h (mem_bytes mem (sa_area (rt_addr t)) (sa_dbNumber (rt_addr t)) (sa_start (rt_addr t))
             (nat (sa_size (rt_addr t)))) (rt_addr t) (rt_dt t) of
        Inl e \<Rightarrow> bad_value (rt_name t) now (s7_err e)
      | Inr v \<Rightarrow> s7GoodTagValue t v now)"

definition allowed :: "bool \<Rightarrow> s7_helper \<Rightarrow> plc_memory \<Rightarrow> time \<Rightarrow> s7_read_tag \<Rightarrow> tag_value \<Rightarrow> bool" where
  "allowed fails h mem now t v \<longleftrightarrow> v = own_value h mem now t \<or> fails \<and> (\<exists>e. v = bad_value (rt_name t) now e)"

text \<open>\<open>fills R ts vs vs'\<close>: the slots of \<open>ts\<close> are filled with values allowed by \<open>R\<close>, the others kept.\<close>

definition fills :: "(s7_read_tag \<Rightarrow> tag_value \<Rightarrow> bool) \<Rightarrow> s7_read_tag list \<Rightarrow> tag_value list \<Rightarrow> tag_value list \<Rightarrow> bool" where
  "fills R ts vs vs' \<longleftrightarrow> length vs' = length vs
     \<and> (\<forall>i. i \<notin> rt_index ` set ts \<longrightarrow> vs' ! i = vs ! i) \<and> (\<forall>t\<in>set ts. R t (vs' ! rt_index t))"

lemma fills_Nil [simp]: "fills R [] vs vs"
  by (simp add: fills_def)

lemma fills_single: "rt_index t < length vs \<Longrightarrow> R t v \<Longrightarrow> fills R [t] vs (vs[rt_index t := v])"
  by (simp add: fills_def)

lemma fills_append:
  assumes "fills R ts vs vs'" "fills R us vs' vs''" "rt_index ` set ts \<inter> rt_index ` set us = {}"
  shows "fills R (ts @ us) vs vs''"
  using assms unfolding fills_def by (auto simp: image_iff) (metis IntI emptyE imageI)

lemma fills_length: "fills R ts vs vs' \<Longrightarrow> length vs' = length vs"
  by (simp add: fills_def)

text \<open>A loop whose body fills the slots of one item fills the slots of all items.\<close>

lemma fills_fold:
  assumes "\<And>x d vs p d' vs' p'. x \<in> set xs \<Longrightarrow> Q d \<Longrightarrow> length vs = n \<Longrightarrow> f x (d, vs, p) = (d', vs', p') \<Longrightarrow>
      fills R (slots x) vs vs' \<and> Q d'"
    and "distinct (map rt_index (concat (map slots xs)))"
    and "Q d" "length vs = n" "fold f xs (d, vs, p) = (d', vs', p')"
  shows "fills R (concat (map slots xs)) vs vs' \<and> Q d'"
  using assms
proof (induction xs arbitrary: d vs p)
  case Nil
  then show ?case by simp
next
  case (Cons x xs)
  obtain d1 vs1 p1 where f: "f x (d, vs, p) = (d1, vs1, p1)" by (rule prod_cases3)
  have 1: "fills R (slots x) vs vs1 \<and> Q d1"
    by (rule Cons.prems(1) [of x d vs p d1 vs1 p1]) (use Cons.prems(3,4) f in simp_all)
  have 2: "fills R (concat (map slots xs)) vs1 vs' \<and> Q d'"
  proof (rule Cons.IH [of d1 vs1 p1])
    show "\<And>x d vs p d' vs' p'. x \<in> set xs \<Longrightarrow> Q d \<Longrightarrow> length vs = n \<Longrightarrow> f x (d, vs, p) = (d', vs', p') \<Longrightarrow>
      fills R (slots x) vs vs' \<and> Q d'" by (rule Cons.prems(1)) simp_all
    show "distinct (map rt_index (concat (map slots xs)))" using Cons.prems(2) by simp
    show "Q d1" using 1 by simp
    show "length vs1 = n" using fills_length [OF conjunct1 [OF 1]] Cons.prems(4) by simp
    show "fold f xs (d1, vs1, p1) = (d', vs', p')" using Cons.prems(5) f by simp
  qed
  have "rt_index ` set (slots x) \<inter> rt_index ` set (concat (map slots xs)) = {}"
    using Cons.prems(2) by (simp only: list.map concat.simps map_append distinct_append set_map)
  then show ?case using fills_append [OF conjunct1 [OF 1] conjunct1 [OF 2]] 2 by simp
qed

definition same_config :: "s7_driver \<Rightarrow> s7_driver \<Rightarrow> bool" where
  "same_config d d' \<longleftrightarrow> sd_tags d' = sd_tags d \<and> sd_addrs d' = sd_addrs d"

lemma same_config_read_failed [simp]: "same_config d (read_failed conn e d') \<longleftrightarrow> same_config d d'"
  by (simp add: same_config_def read_failed_def recordReadFailure_def RecordError_def handleConnLostIfCurrent_def
      HandleConnectionLost_def Let_def)

lemma same_config_recordReadFailure [simp]: "same_config d (recordReadFailure e d') \<longleftrightarrow> same_config d d'"
  by (simp add: same_config_def recordReadFailure_def RecordError_def)

lemma same_config_AddReadCount [simp]: "same_config d (AddReadCount n d') \<longleftrightarrow> same_config d d'"
  by (simp add: same_config_def AddReadCount_def)

text \<open>Decoding out of the shared buffer gives every tag its own bytes.\<close>

lemma decode_entry_own:
  assumes "covers seg t" "addr_ok (rt_addr t)" "rt_index t < length vs" "same_config d0 d"
    and "decode_entry h now seg (mem_bytes mem (sg_area seg) (sg_dbNumber seg) (sg_start seg) (nat (sg_length seg))) t (d, vs)
         = (d', vs')"
  shows "fills (allowed fails h mem now) [t] vs vs' \<and> same_config d0 d'"
proof -
  let ?a = "rt_addr t"
  let ?buf = "mem_bytes mem (sg_area seg) (sg_dbNumber seg) (sg_start seg) (nat (sg_length seg))"
  have k: "sa_area ?a = sg_area seg" "sa_dbNumber ?a = sg_dbNumber seg"
    using assms(1) by (simp_all add: covers_def tag_key_def)
  have "take (nat (sa_size ?a)) (drop (nat (sa_start ?a - sg_start seg)) ?buf) =
      mem_bytes mem (sa_area ?a) (sa_dbNumber ?a) (sa_start ?a) (nat (sa_size ?a))"
    unfolding k using assms(1,2) by (intro mem_bytes_slice) (simp_all add: covers_def addr_ok_def)
  then have "vs' = vs[rt_index t := own_value h mem now t] \<and> same_config d0 d'"
    using assms(4,5) by (auto simp: decode_entry_def own_value_def Let_def split: sum.splits)
  then show ?thesis using fills_single [OF assms(3), of "allowed fails h mem now"] by (simp add: allowed_def)
qed

lemma decode_entries_own:
  assumes "\<forall>t\<in>set ts. covers seg t \<and> addr_ok (rt_addr t) \<and> rt_index t < length vs"
    and "distinct (map rt_index ts)" "same_config d0 d"
    and "fold (decode_entry h now seg (mem_bytes mem (sg_area seg) (sg_dbNumber seg) (sg_start seg) (nat (sg_length seg)))) ts (d, vs)
         = (d', vs')"
  shows "fills (allowed fails h mem now) ts vs vs' \<and> same_config d0 d'"
  using assms
proof (induction ts arbitrary: d vs)
  case Nil
  then show ?case by simp
next
  case (Cons t ts)
  let ?buf = "mem_bytes mem (sg_area seg) (sg_dbNumber seg) (sg_start seg) (nat (sg_length seg))"
  obtain d1 vs1 where e: "decode_entry h now seg ?buf t (d, vs) = (d1, vs1)" by (rule prod.exhaust)
  have 1: "fills (allowed fails h mem now) [t] vs vs1 \<and> same_config d0 d1"
    using Cons.prems by (intro decode_entry_own [OF _ _ _ _ e]) simp_all
  have len: "length vs1 = length vs" using 1 by (auto dest: fills_length)
  have 2: "fills (allowed fails h mem now) ts vs1 vs' \<and> same_config d0 d'"
    by (rule Cons.IH [of vs1 d1]) (use Cons.prems 1 len e in simp_all)
  have "rt_index ` set [t] \<inter> rt_index ` set ts = {}" using Cons.prems(2) by auto
  from fills_append [OF conjunct1 [OF 1] conjunct1 [OF 2] this] 2 show ?case by simp
qed

lemma fail_entries:
  assumes "\<forall>t\<in>set ts. rt_index t < length vs" "distinct (map rt_index ts)" "\<And>t. R t (g t)"
  shows "fills R ts vs (fold (\<lambda>t vs. vs[rt_index t := g t]) ts vs)"
  using assms(1,2)
proof (induction ts arbitrary: vs)
  case (Cons t ts)
  have "fills R [t] vs (vs[rt_index t := g t])" using Cons.prems(1) assms(3) by (intro fills_single) simp_all
  moreover have "fills R ts (vs[rt_index t := g t]) (fold (\<lambda>t vs. vs[rt_index t := g t]) ts (vs[rt_index t := g t]))"
    using Cons.prems by (intro Cons.IH) simp_all
  moreover have "rt_index ` set [t] \<inter> rt_index ` set ts = {}" using Cons.prems(2) by auto
  ultimately have "fills R ([t] @ ts) vs (fold (\<lambda>t vs. vs[rt_index t := g t]) ts (vs[rt_index t := g t]))"
    by (rule fills_append)
  then show ?case by simp
qed simp

lemma readMergedSegment_fills:
  assumes srv: "serves fails cl mem" and seg: "seg_ok seg"
    and ts: "\<forall>t\<in>set (sg_entries seg). addr_ok (rt_addr t) \<and> rt_index t < length vs" "distinct (map rt_index (sg_entries seg))"
    and d: "same_config d0 d" and r: "readMergedSegment h cl conn now seg (d, vs, p) = (d', vs', p')"
  shows "fills (allowed fails h mem now) (sg_entries seg) vs vs' \<and> same_config d0 d'"
  using srv
proof (cases rule: serves_cases [where area = "sg_area seg" and db = "sg_dbNumber seg" and start = "sg_start seg"
      and n = "nat (sg_length seg)" and p = p])
  case (ok q)
  obtain d1 vs1 where f: "fold (decode_entry h now seg (mem_bytes mem (sg_area seg) (sg_dbNumber seg) (sg_start seg)
      (nat (sg_length seg)))) (sg_entries seg) (d, vs) = (d1, vs1)" by (rule prod.exhaust)
  with r ok have "d' = d1" "vs' = vs1" by (auto simp: readMergedSegment_def)
  moreover have "\<forall>t\<in>set (sg_entries seg). covers seg t" using seg by (simp add: seg_ok_def)
  ultimately show ?thesis using decode_entries_own [OF _ ts(2) d f] ts(1) by simp
next
  case (failed err q)
  then have "vs' = fold (\<lambda>t vs. vs[rt_index t := bad_value (rt_name t) now (s7_err err)]) (sg_entries seg) vs"
    and d': "d' = read_failed conn (s7_err err) d"
    using r by (auto simp: readMergedSegment_def)
  moreover have "fills (allowed fails h mem now) (sg_entries seg) vs
      (fold (\<lambda>t vs. vs[rt_index t := bad_value (rt_name t) now (s7_err err)]) (sg_entries seg) vs)"
    using ts failed(1) by (intro fail_entries) (auto simp: allowed_def)
  ultimately show ?thesis using d by simp
qed

lemma readBitTag_fills:
  assumes srv: "serves fails cl mem" and t: "sa_isBit (rt_addr t)" "rt_index t < length vs"
    and d: "same_config d0 d" and r: "readBitTag h cl conn now t (d, vs, p) = (d', vs', p')"
  shows "fills (allowed fails h mem now) [t] vs vs' \<and> same_config d0 d'"
  using srv
proof (cases rule: serves_cases [where area = "sa_area (rt_addr t)" and db = "sa_dbNumber (rt_addr t)"
      and start = "sa_start (rt_addr t)" and n = "nat (sa_size (rt_addr t))" and p = p])
  case (ok q)
  then have "vs' = vs[rt_index t := own_value h mem now t] \<and> d' = d"
    using r t(1) by (auto simp: readBitTag_def readAddress_def own_value_def decodeS7Buffer_def)
  then show ?thesis using fills_single [OF t(2), of "allowed fails h mem now"] d by (simp add: allowed_def)
next
  case (failed err q)
  then have "vs' = vs[rt_index t := bad_value (rt_name t) now (s7_err err)] \<and> d' = read_failed conn (s7_err err) d"
    using r by (auto simp: readBitTag_def readAddress_def)
  then show ?thesis using fills_single [OF t(2), of "allowed fails h mem now"] failed(1) d by (auto simp: allowed_def)
qed

section \<open>A batch\<close>

lemma resolve_tag_index: "resolve_tag d (i, n) = Some t \<Longrightarrow> rt_index t = i \<and> rt_name t = n \<and> sd_addrs d n = Some (rt_addr t)"
  by (auto simp: resolve_tag_def split: option.splits)

lemma set_map_filter: "set (List.map_filter f xs) = {y. \<exists>x\<in>set xs. f x = Some y}"
  by (induction xs) (auto simp: List.map_filter_def)

lemma resolved_indexes:
  "map rt_index (List.map_filter (resolve_tag d) (enumerate k batch)) =
   map fst (filter (\<lambda>x. resolve_tag d x \<noteq> None) (enumerate k batch))"
  by (induction batch arbitrary: k) (auto simp: List.map_filter_def dest: resolve_tag_index)

lemma distinct_resolved: "distinct (map rt_index (List.map_filter (resolve_tag d) (enumerate 0 batch)))"
  unfolding resolved_indexes by (simp add: distinct_map_filter distinct_enumerate)

text \<open>The result a caller expects for a name: the tag's own value, or "tag not found".\<close>

definition expected :: "bool \<Rightarrow> s7_helper \<Rightarrow> plc_memory \<Rightarrow> time \<Rightarrow> s7_driver \<Rightarrow> string \<Rightarrow> tag_value \<Rightarrow> bool" where
  "expected fails h mem now d n v \<longleftrightarrow>
     (case resolve_tag d (0, n) of
        None \<Rightarrow> v = bad_value n now (''tag not found: '' @ n)
      | Some t \<Rightarrow> allowed fails h mem now t v)"

lemma resolve_tag_any_index:
  "resolve_tag d (i, n) = map_option (\<lambda>t. t\<lparr>rt_index := i\<rparr>) (resolve_tag d (0, n))"
  by (auto simp: resolve_tag_def split: option.splits)

lemma allowed_index [simp]: "allowed fails h mem now (t\<lparr>rt_index := i\<rparr>) v \<longleftrightarrow> allowed fails h mem now t v"
  by (simp add: allowed_def own_value_def s7GoodTagValue_def split: sum.split)

lemma expected_same_config: "same_config d d' \<Longrightarrow> expected fails h mem now d' n v \<longleftrightarrow> expected fails h mem now d n v"
  by (simp add: expected_def resolve_tag_def same_config_def)

definition addrs_ok :: "s7_driver \<Rightarrow> bool" where
  "addrs_ok d \<longleftrightarrow> (\<forall>n a. sd_addrs d n = Some a \<longrightarrow> addr_ok a)"

lemma readS7Batch_expected:
  assumes srv: "serves fails cl mem" and ok: "addrs_ok d"
    and r: "readS7Batch h cl conn now batch d p = (d', vs, p')"
  shows "list_all2 (expected fails h mem now d) batch vs \<and> same_config d d'"
proof -
  define tags where "tags = List.map_filter (resolve_tag d) (enumerate 0 batch)"
  define bits where "bits = filter (\<lambda>t. sa_isBit (rt_addr t)) tags"
  define words where "words = filter (\<lambda>t. \<not> sa_isBit (rt_addr t)) tags"
  define vs0 where "vs0 = map (\<lambda>x. case resolve_tag d x of
      None \<Rightarrow> bad_value (snd x) now (''tag not found: '' @ snd x) | Some _ \<Rightarrow> zero_value) (enumerate 0 batch)"
  let ?R = "allowed fails h mem now"
  have tags: "addr_ok (rt_addr t) \<and> rt_index t < length batch" if "t \<in> set tags" for t
    using that ok
    by (auto simp: tags_def set_map_filter in_set_enumerate_eq addrs_ok_def dest!: resolve_tag_index)
  have dist: "distinct (map rt_index tags)" unfolding tags_def by (rule distinct_resolved)
  have words_ok: "\<forall>t\<in>set words. addr_ok (rt_addr t)" using tags by (simp add: words_def)
  note plan = plan_ok [OF words_ok]
  have dw: "distinct (map rt_index (visit_order words))"
  proof -
    have "mset (map rt_index (visit_order words)) = mset (map rt_index words)" by (simp add: mset_visit_order)
    then show ?thesis using dist distinct_map_filter [of rt_index tags] mset_eq_imp_distinct_iff
      unfolding words_def by metis
  qed
  have vset: "set (visit_order words) = set words" using mset_visit_order by (rule mset_eq_setD)
  obtain d1 vs1 p1 where f1: "fold (readMergedSegment h cl conn now) (planS7ReadSegments words) (d, vs0, p) = (d1, vs1, p1)"
    by (rule prod_cases3)
  have f2: "fold (readBitTag h cl conn now) bits (d1, vs1, p1) = (d', vs, p')"
    using r f1 by (simp add: readS7Batch_def Let_def tags_def bits_def words_def vs0_def)
  have len0: "length vs0 = length batch" by (simp add: vs0_def)
  have 1: "fills ?R (concat (map sg_entries (planS7ReadSegments words))) vs0 vs1 \<and> same_config d d1"
  proof (rule fills_fold [OF _ _ _ len0 f1])
    fix seg d2 vs2 p2 d3 vs3 p3
    assume seg: "seg \<in> set (planS7ReadSegments words)" "same_config d d2" "length vs2 = length batch"
      "readMergedSegment h cl conn now seg (d2, vs2, p2) = (d3, vs3, p3)"
    have "set (sg_entries seg) \<subseteq> set (concat (map sg_entries (planS7ReadSegments words)))" using seg(1) by auto
    then have sub: "set (sg_entries seg) \<subseteq> set words" by (simp only: plan(1) vset)
    have "distinct (map rt_index (sg_entries seg))"
      using dw seg(1) unfolding plan(1) [symmetric] map_concat by (auto simp: distinct_concat_iff)
    with seg sub plan(2) tags show "fills ?R (sg_entries seg) vs2 vs3 \<and> same_config d d3"
      by (intro readMergedSegment_fills [OF srv, of seg vs2 d d2 h conn now p2 d3 vs3 p3])
        (auto simp: words_def)
  qed (use dw plan(1) in \<open>simp_all add: same_config_def\<close>)
  have len1: "length vs1 = length batch" using 1 len0 by (auto dest: fills_length)
  have db: "distinct (map rt_index (concat (map (\<lambda>t. [t]) bits)))" using dist by (simp add: bits_def distinct_map_filter)
  have 2: "fills ?R (concat (map (\<lambda>t. [t]) bits)) vs1 vs \<and> same_config d d'"
  proof (rule fills_fold [where Q = "same_config d", OF _ db conjunct2 [OF 1] len1 f2])
    fix t d2 vs2 p2 d3 vs3 p3
    assume "t \<in> set bits" "same_config d d2" "length vs2 = length batch"
      "readBitTag h cl conn now t (d2, vs2, p2) = (d3, vs3, p3)"
    then show "fills ?R [t] vs2 vs3 \<and> same_config d d3"
      using tags by (intro readBitTag_fills [OF srv]) (simp_all add: bits_def)
  qed
  have disj: "rt_index ` set words \<inter> rt_index ` set bits = {}"
    using dist unfolding words_def bits_def distinct_map by (auto simp: inj_on_def)
  have "fills ?R (visit_order words @ bits) vs0 vs"
    using 1 2 disj vset unfolding plan(1) by (intro fills_append [of _ _ _ vs1]) simp_all
  moreover have "set (visit_order words @ bits) = set tags" using vset by (auto simp: words_def bits_def)
  ultimately have fin: "length vs = length batch" "\<And>i. i \<notin> rt_index ` set tags \<Longrightarrow> vs ! i = vs0 ! i"
    "\<And>t. t \<in> set tags \<Longrightarrow> ?R t (vs ! rt_index t)"
    using len0 unfolding fills_def by simp_all
  have "expected fails h mem now d (batch ! i) (vs ! i)" if i: "i < length batch" for i
  proof (cases "resolve_tag d (i, batch ! i)")
    case None
    have "i \<notin> rt_index ` set tags"
    proof
      assume "i \<in> rt_index ` set tags"
      then obtain t j where "resolve_tag d (j, batch ! j) = Some t" "rt_index t = i"
        by (auto simp: tags_def set_map_filter in_set_enumerate_eq)
      with None resolve_tag_index show False by fastforce
    qed
    then have "vs ! i = vs0 ! i" by (rule fin(2))
    then show ?thesis using None i
      by (simp add: vs0_def expected_def nth_enumerate_eq) (simp add: resolve_tag_any_index [of _ i])
  next
    case (Some t)
    then have "t \<in> set tags" and idx: "rt_index t = i"
      using i by (auto simp: tags_def set_map_filter in_set_enumerate_eq dest: resolve_tag_index)
    then have "?R t (vs ! i)" using fin(3) by metis
    with Some show ?thesis by (auto simp: expected_def resolve_tag_any_index [of _ i] split: option.splits)
  qed
  with fin(1) 2 show ?thesis by (simp add: list_all2_conv_all_nth)
qed

section \<open>A whole read\<close>

lemma concat_batches: "length tags \<le> n \<Longrightarrow> concat (s7_batches n tags) = tags"
proof (induction n arbitrary: tags)
  case (Suc n)
  then have "concat (s7_batches n (drop s7MaxBatchSize tags)) = drop s7MaxBatchSize tags"
    by (intro Suc.IH) (simp add: s7MaxBatchSize_def)
  then show ?case by simp
qed simp

lemma read_batches_expected:
  assumes "serves fails cl mem"
  shows "addrs_ok d \<Longrightarrow> read_batches h cl conn now bs d p = (vs, d', p') \<Longrightarrow>
    list_all2 (expected fails h mem now d) (concat bs) vs"
proof (induction bs arbitrary: d p vs d' p')
  case (Cons b bs)
  obtain d1 vs1 p1 where b: "readS7Batch h cl conn now b d p = (d1, vs1, p1)" by (rule prod_cases3)
  obtain vs2 d2 p2 where r: "read_batches h cl conn now bs (AddReadCount (length b) d1) p1 = (vs2, d2, p2)"
    by (rule prod_cases3)
  have 1: "list_all2 (expected fails h mem now d) b vs1 \<and> same_config d d1"
    by (rule readS7Batch_expected [OF assms Cons.prems(1) b])
  then have sc: "same_config d (AddReadCount (length b) d1)" by simp
  then have "addrs_ok (AddReadCount (length b) d1)" using Cons.prems(1) by (simp add: addrs_ok_def same_config_def)
  from Cons.IH [OF this r] have "list_all2 (expected fails h mem now d) (concat bs) vs2"
    using expected_same_config [OF sc] by (simp add: list_all2_iff)
  moreover have "vs = vs1 @ vs2" using Cons.prems(2) b r by simp
  ultimately show ?case using 1 by (simp add: list_all2_appendI)
qed simp

text \<open>The value a name reads as when no round trip fails.\<close>

definition single_read :: "s7_helper \<Rightarrow> plc_memory \<Rightarrow> time \<Rightarrow> s7_driver \<Rightarrow> string \<Rightarrow> tag_value" where
  "single_read h mem now d n =
     (case resolve_tag d (0, n) of
        None \<Rightarrow> bad_value n now (''tag not found: '' @ n)
      | Some t \<Rightarrow> own_value h mem now t)"

lemma expected_iff:
  "expected fails h mem now d n v \<longleftrightarrow>
     v = single_read h mem now d n \<or> fails \<and> resolve_tag d (0, n) \<noteq> None \<and> (\<exists>e. v = bad_value n now e)"
  by (auto simp: expected_def single_read_def allowed_def split: option.splits dest: resolve_tag_index)

lemma s7_Read_expected:
  assumes "serves fails cl mem" "addrs_ok d" "bd_state d = StateConnected" "bd_conn d = Some conn"
  obtains vs d' p' where "s7_Read h cl now tags d p = (Inr vs, d', p')"
    and "list_all2 (expected fails h mem now d) tags vs"
proof -
  obtain vs d1 p' where r: "read_batches h cl conn now (s7_batches (length tags) tags) d p = (vs, d1, p')"
    by (rule prod_cases3)
  have "s7_Read h cl now tags d p = (Inr vs, d1\<lparr>bd_lastRead := now\<rparr>, p')"
    using assms(3,4) r by (simp add: s7_Read_def)
  moreover have "list_all2 (expected fails h mem now d) tags vs"
    using read_batches_expected [OF assms(1,2) r] by (simp add: concat_batches)
  ultimately show ?thesis by (rule that)
qed

text \<open>
  The planner of merged reads is correct: for tags whose addresses end below the top of the integer
  range, the segments hold every tag exactly once, no segment is longer than 480 bytes, and every tag of
  a segment lies, in its memory area and data block, inside the bytes the segment reads.
\<close>

theorem plan_covers_every_tag_once:
  assumes "\<forall>t\<in>set tags. addr_ok (rt_addr t)"
  shows "mset (concat (map sg_entries (planS7ReadSegments tags))) = mset tags
    \<and> (\<forall>seg\<in>set (planS7ReadSegments tags). 1 \<le> sg_length seg \<and> sg_length seg \<le> 480
         \<and> (\<forall>t\<in>set (sg_entries seg). covers seg t))"
  using plan_ok [OF assms] by (simp add: mset_visit_order seg_ok_def s7MaxPDUReadLen_def)

text \<open>
  C3. Merging and batching are invisible to the caller: when the controller answers every round trip
  with its memory, \<^verbatim>\<open>Read\<close> on a connected driver returns, in the order of the request and whatever
  its length, exactly what one read per tag would, and "tag not found" for the unknown names.
\<close>

theorem merged_read_is_single_reads:
  assumes "serves False cl mem" "addrs_ok d" "bd_state d = StateConnected" "bd_conn d = Some conn"
  shows "\<exists>d' p'. s7_Read h cl now tags d p = (Inr (map (single_read h mem now d) tags), d', p')"
proof -
  obtain vs d' p' where r: "s7_Read h cl now tags d p = (Inr vs, d', p')"
    and e: "list_all2 (expected False h mem now d) tags vs"
    by (rule s7_Read_expected [OF assms])
  from e have "vs = map (single_read h mem now d) tags"
    by (induction rule: list_all2_induct) (simp_all add: expected_iff)
  with r show ?thesis by auto
qed

text \<open>
  C35. When round trips fail, a read still answers every requested name in order, and no value is wrong:
  each is the one the tag's own bytes give, or is marked bad with the error of its segment.
\<close>

theorem failed_segments_never_corrupt:
  assumes "serves True cl mem" "addrs_ok d" "bd_state d = StateConnected" "bd_conn d = Some conn"
  shows "\<exists>vs d' p'. s7_Read h cl now tags d p = (Inr vs, d', p')
    \<and> list_all2 (\<lambda>n v. v = single_read h mem now d n \<or> (\<exists>e. v = bad_value n now e)) tags vs"
proof -
  obtain vs d' p' where r: "s7_Read h cl now tags d p = (Inr vs, d', p')"
    and e: "list_all2 (expected True h mem now d) tags vs"
    by (rule s7_Read_expected [OF assms])
  from e have "list_all2 (\<lambda>n v. v = single_read h mem now d n \<or> (\<exists>e. v = bad_value n now e)) tags vs"
    by (rule list_all2_mono) (auto simp: expected_iff)
  with r show ?thesis by auto
qed

end
