(* ===== verification/S7_Wire.thy ===== *)
theory S7_Wire
  imports S7_Props
begin

text \<open>
  The S7 address syntax and the value codec: printed addresses parse back, parsed addresses are in
  range, encoded values decode to themselves, and a bit write changes one bit.
\<close>

section \<open>The preferred match of a pattern\<close>

definition first :: "rx \<Rightarrow> string \<Rightarrow> nat \<Rightarrow> captures \<Rightarrow> rx_result \<Rightarrow> bool" where
  "first r s i c res \<longleftrightarrow> (\<exists>t. rx_match r s i c = res # t)"

named_theorems first_intros

lemma first_seqs_Nil [first_intros]: "first (RSeqs []) s i c (s, i, c)"
  by (simp add: first_def RSeqs_def)

lemma first_seqs_Cons [first_intros]:
  assumes "first r s i c (s1, i1, c1)" "first (RSeqs rs) s1 i1 c1 res"
  shows "first (RSeqs (r # rs)) s i c res"
proof -
  from assms obtain t u where "rx_match r s i c = (s1, i1, c1) # t" "rx_match (RSeqs rs) s1 i1 c1 = res # u"
    by (auto simp: first_def)
  then have "rx_match (RSeqs (r # rs)) s i c =
      res # (u @ concat (map (\<lambda>(s', i', c'). rx_match (RSeqs rs) s' i' c') t))"
    by (simp add: RSeqs_def)
  then show ?thesis unfolding first_def by blast
qed

lemma first_class [first_intros]: "P x \<Longrightarrow> first (RClass P) (x # s) i c (s, i + 1, c)"
  by (simp add: first_def)

lemma first_kind [first_intros]: "to_upper_char x \<in> set ks \<Longrightarrow> first (rx_kind ks) (x # s) i c (s, i + 1, c)"
  unfolding rx_kind_def by (rule first_class)

lemma first_char [first_intros]: "first (RChar x) (x # s) i c (s, i + 1, c)"
  unfolding RChar_def by (rule first_class) (rule refl)

lemma first_group [first_intros]:
  "first r s i c (s', i', c') \<Longrightarrow> first (RGroup g r) s i c (s', i', (g, i, i') # c')"
  by (auto simp: first_def)

lemma first_end [first_intros]: "first REnd [] i c ([], i, c)"
  by (simp add: first_def)

lemma first_opt_some: "first r s i c res \<Longrightarrow> first (ROpt r) s i c res"
  by (auto simp: first_def ROpt_def)

lemma first_opt_none: "rx_match r s i c = [] \<Longrightarrow> first (ROpt r) s i c (s, i, c)"
  by (simp add: first_def ROpt_def)

lemma star_first:
  assumes f: "\<And>s i c. f s i c = rx_match (RClass P) s i c"
  shows "\<forall>x\<in>set ds. P x \<Longrightarrow> rest = [] \<or> \<not> P (hd rest) \<Longrightarrow> length ds \<le> n \<Longrightarrow>
    \<exists>t. star_match n f (ds @ rest) i c = (rest, i + length ds, c) # t"
proof (induction ds arbitrary: n i)
  case Nil
  have "f rest i c = []" using Nil by (cases rest) (auto simp: f)
  then show ?case by (cases n) simp_all
next
  case (Cons x ds)
  then obtain m where n: "n = Suc m" by (cases n) auto
  have "\<exists>t. star_match m f (ds @ rest) (i + 1) c = (rest, (i + 1) + length ds, c) # t"
    using Cons.prems n by (intro Cons.IH) auto
  then obtain t where "star_match m f (ds @ rest) (i + 1) c = (rest, (i + 1) + length ds, c) # t" ..
  moreover have "f (x # ds @ rest) i c = [(ds @ rest, i + 1, c)]" using Cons.prems by (simp add: f)
  ultimately show ?case by (simp add: n)
qed

lemma first_digits:
  assumes "\<forall>x\<in>set ds. is_digit x" "ds \<noteq> []" "rest = [] \<or> \<not> is_digit (hd rest)"
  shows "first rx_digits (ds @ rest) i c (rest, i + length ds, c)"
proof -
  from assms obtain x xs where ds: "ds = x # xs" by (cases ds) auto
  have "\<exists>t. star_match (length (xs @ rest)) (rx_match (RClass is_digit)) (xs @ rest) (i + 1) c = (rest, (i + 1) + length xs, c) # t"
    using assms ds by (intro star_first [of _ is_digit]) auto
  then show ?thesis using assms(1) by (auto simp: first_def rx_digits_def RPlus_def ds)
qed

lemma first_number [first_intros]:
  "rest = [] \<or> \<not> is_digit (hd rest) \<Longrightarrow> first rx_digits (show_nat n @ rest) i c (rest, i + length (show_nat n), c)"
  by (rule first_digits) (auto intro: show_nat_digits)

lemma first_last_number [first_intros]: "first rx_digits (show_nat n) i c ([], i + length (show_nat n), c)"
  using first_number [of "[]" n] by simp

lemma find_first_match: "first r s 0 [] (s', j, c) \<Longrightarrow> find_anchored r s = Some (0, j, c)"
  by (auto simp: first_def find_anchored_def match_here_def)

lemma slice_mid: "length u = a \<Longrightarrow> length v = b - a \<Longrightarrow> a \<le> b \<Longrightarrow> slice (u @ v @ w) a b = v"
  by (auto simp: slice_def)

section \<open>Addresses\<close>

text \<open>The usual notation of an address: \<^verbatim>\<open>DB1.DBX0.3\<close>, \<^verbatim>\<open>DB5.DBW2\<close>, \<^verbatim>\<open>M0.0\<close>, \<^verbatim>\<open>QD4\<close>.\<close>

definition bit_suffix :: "bool \<Rightarrow> nat \<Rightarrow> string" where
  "bit_suffix isBit b = (if isBit then CHR ''.'' # show_nat b else [])"

definition print_db :: "nat \<Rightarrow> char \<Rightarrow> nat \<Rightarrow> nat \<Rightarrow> string" where
  "print_db db kind start b =
     ''DB'' @ show_nat db @ ''.DB'' @ [kind] @ show_nat start @ bit_suffix (kind = CHR ''X'') b"

lemma not_digit_chars [simp]: "\<not> is_digit CHR ''.''" "\<not> is_digit CHR ''D''"
  by (simp_all add: is_digit_def)

lemma upper_kinds [simp]: "to_upper_char CHR ''X'' = CHR ''X''" "to_upper_char CHR ''B'' = CHR ''B''"
  "to_upper_char CHR ''W'' = CHR ''W''" "to_upper_char CHR ''D'' = CHR ''D''"
  by (simp_all add: to_upper_char_def)

lemma trim_space_id:
  assumes "s \<noteq> []" "\<not> is_space (hd s)" "\<not> is_space (last s)"
  shows "trim_space s = s"
proof -
  have "dropWhile is_space s = s" using assms(1,2) by (cases s) auto
  moreover have "dropWhile is_space (rev s) = rev s" using assms(1,3) by (cases s rule: rev_cases) auto
  ultimately show ?thesis by (simp add: trim_space_def)
qed

lemma digit_not_space: "is_digit c \<Longrightarrow> \<not> is_space c"
  by (auto simp: is_digit_def is_space_def)

lemma last_show_nat: "is_digit (last (show_nat n))"
  by (rule show_nat_digits [of _ n]) simp

lemma last_bit_suffix: "is_digit (last (show_nat n @ bit_suffix isBit b))"
  using last_show_nat by (auto simp: bit_suffix_def)

lemma first_db_prefix [first_intros]: "first (RLitFold ''DB'') (CHR ''D'' # CHR ''B'' # s) i c (s, i + 2, c)"
  by (simp add: first_def RLitFold_def RSeqs_def)

lemma first_bit_suffix:
  "first (ROpt (RSeqs [RChar CHR ''.'', RGroup g rx_digits])) (bit_suffix isBit b) i c
     ([], i + length (bit_suffix isBit b), if isBit then (g, i + 1, i + 1 + length (show_nat b)) # c else c)"
proof (cases isBit)
  case True
  have "first (RSeqs [RChar CHR ''.'', RGroup g rx_digits]) (CHR ''.'' # show_nat b) i c
      ([], i + 1 + length (show_nat b), (g, i + 1, i + 1 + length (show_nat b)) # c)"
    by (rule first_intros)+
  then show ?thesis using True by (simp add: bit_suffix_def first_opt_some)
next
  case False
  then show ?thesis by (auto simp: bit_suffix_def RSeqs_def RChar_def intro: first_opt_none)
qed

lemma dot_not_digit [first_intros]: "CHR ''.'' # s = [] \<or> \<not> is_digit (hd (CHR ''.'' # s))"
  by simp

lemma bit_suffix_not_digit: "bit_suffix isBit b = [] \<or> \<not> is_digit (hd (bit_suffix isBit b))"
  by (simp add: bit_suffix_def)

lemma reDB_match:
  assumes k: "kind \<in> set ''XBWD''"
  shows "find_anchored reDB (print_db db kind start b) =
    Some (0, 2 + length (show_nat db) + 4 + length (show_nat start) + length (bit_suffix (kind = CHR ''X'') b),
      (let n = length (show_nat db); m = length (show_nat start)
       in (if kind = CHR ''X'' then [(4, 2 + n + 4 + m + 1, 2 + n + 4 + m + 1 + length (show_nat b))] else [])
          @ [(3, 2 + n + 4, 2 + n + 4 + m), (2, 2 + n + 1 + 2, 2 + n + 1 + 2 + 1), (1, 2, 2 + n)]))"
proof -
  let ?n = "length (show_nat db)" and ?m = "length (show_nat start)"
  have k': "to_upper_char kind \<in> set ''XBWD''" using k by auto
  have "first reDB (CHR ''D'' # CHR ''B'' # (show_nat db @ CHR ''.'' # CHR ''D'' # CHR ''B'' # kind #
        (show_nat start @ bit_suffix (kind = CHR ''X'') b))) 0 []
      ([], 0 + 2 + ?n + 1 + 2 + 1 + ?m + length (bit_suffix (kind = CHR ''X'') b),
       if kind = CHR ''X'' then (4, 0 + 2 + ?n + 1 + 2 + 1 + ?m + 1, 0 + 2 + ?n + 1 + 2 + 1 + ?m + 1 + length (show_nat b))
           # [(3, 0 + 2 + ?n + 1 + 2 + 1, 0 + 2 + ?n + 1 + 2 + 1 + ?m), (2, 0 + 2 + ?n + 1 + 2, 0 + 2 + ?n + 1 + 2 + 1), (1, 0 + 2, 0 + 2 + ?n)]
       else [(3, 0 + 2 + ?n + 1 + 2 + 1, 0 + 2 + ?n + 1 + 2 + 1 + ?m), (2, 0 + 2 + ?n + 1 + 2, 0 + 2 + ?n + 1 + 2 + 1), (1, 0 + 2, 0 + 2 + ?n)])"
    unfolding reDB_def
    by (rule first_intros first_bit_suffix bit_suffix_not_digit k')+
  from find_first_match [OF this] show ?thesis by (simp add: print_db_def Let_def)
qed

lemma group_text_mid: "map_of c g = Some (length u, length u + length v) \<Longrightarrow> s = u @ v @ w \<Longrightarrow> group_text s c g = v"
  by (simp add: group_text_def slice_mid)

lemma group_text_none: "map_of c g = None \<Longrightarrow> group_text s c g = []"
  by (simp add: group_text_def)

lemma atoi_show_nat: "n < 2 ^ 63 \<Longrightarrow> atoi_digits (show_nat n) = int n"
proof -
  assume "n < 2 ^ 63"
  then have "int n < 2 ^ 63" by (metis of_nat_less_iff of_nat_numeral of_nat_power)
  then show ?thesis by (simp add: atoi_digits_def maxInt64_def)
qed

lemma bit_offset_ok: "b < 8 \<Longrightarrow> validateBitOffset (int b) = None"
  by (simp add: validateBitOffset_def)

lemma print_db_trim: "trim_space (print_db db kind start b) = print_db db kind start b"
proof (rule trim_space_id)
  show "\<not> is_space (last (print_db db kind start b))"
    using digit_not_space [OF last_bit_suffix] by (simp add: print_db_def)
qed (simp_all add: print_db_def is_space_def)

lemma parse_print_db:
  assumes kind: "kind \<in> set ''XBWD''" and n: "db < 2 ^ 63" "start < 2 ^ 63" "b < 8"
  shows "parseS7Address (print_db db kind start b) dt =
    Inr \<lparr>sa_area = AreaDB, sa_dbNumber = int db, sa_start = int start, sa_bit = (if kind = CHR ''X'' then b else 0),
         sa_size = dataSizeForKind [kind] dt, sa_isBit = (kind = CHR ''X'')\<rparr>"
proof -
  let ?s = "print_db db kind start b" and ?n = "length (show_nat db)" and ?m = "length (show_nat start)"
  define c where "c = (if kind = CHR ''X'' then [(4::nat, 2 + ?n + 4 + ?m + 1, 2 + ?n + 4 + ?m + 1 + length (show_nat b))] else [])
    @ [(3, 2 + ?n + 4, 2 + ?n + 4 + ?m), (2, 2 + ?n + 1 + 2, 2 + ?n + 1 + 2 + 1), (1, 2, 2 + ?n)]"
  obtain j where m: "find_anchored reDB ?s = Some (0, j, c)"
    using reDB_match [OF kind, of db start b] unfolding c_def Let_def by blast
  have g1: "group_text ?s c 1 = show_nat db"
    by (rule group_text_mid [of _ _ "''DB''" _ _ "''.DB'' @ [kind] @ show_nat start @ bit_suffix (kind = CHR ''X'') b"])
      (simp_all add: c_def print_db_def)
  have g2: "group_text ?s c 2 = [kind]"
    by (rule group_text_mid [of _ _ "''DB'' @ show_nat db @ ''.DB''" _ _ "show_nat start @ bit_suffix (kind = CHR ''X'') b"])
      (simp_all add: c_def print_db_def)
  have g3: "group_text ?s c 3 = show_nat start"
    by (rule group_text_mid [of _ _ "''DB'' @ show_nat db @ ''.DB'' @ [kind]" _ _ "bit_suffix (kind = CHR ''X'') b"])
      (simp_all add: c_def print_db_def)
  have g4: "group_text ?s c 4 = (if kind = CHR ''X'' then show_nat b else [])"
  proof (cases "kind = CHR ''X''")
    case True
    have "group_text ?s c 4 = show_nat b"
      by (rule group_text_mid [of _ _ "''DB'' @ show_nat db @ ''.DB'' @ [kind] @ show_nat start @ ''.''" _ _ "[]"])
        (simp_all add: c_def print_db_def True bit_suffix_def)
    then show ?thesis using True by simp
  qed (simp add: group_text_none c_def)
  have k: "to_upper [kind] = [kind]" using kind by (auto simp: to_upper_def)
  have b: "b < 2 ^ 63" using n(3) by simp
  show ?thesis
    unfolding parseS7Address_def print_db_trim Let_def m option.case prod.case g1 g2 g3 g4 k
    using n b bit_offset_ok [OF n(3)] bit_offset_ok [of 0] by (simp add: atoi_show_nat)
qed

text \<open>The notation of the other areas, with an optional size letter and an optional bit.\<close>

definition print_memory :: "char \<Rightarrow> string \<Rightarrow> nat \<Rightarrow> bool \<Rightarrow> nat \<Rightarrow> string" where
  "print_memory letter kind start isBit b = letter # kind @ show_nat start @ bit_suffix isBit b"

lemma digit_not_kind: "is_digit x \<Longrightarrow> to_upper_char x \<notin> set ''BWD''"
proof -
  assume d: "is_digit x"
  then have "to_upper_char x = x" by (simp add: is_digit_def to_upper_char_def)
  with d show ?thesis by (auto simp: is_digit_def)
qed

lemma first_size_letter:
  assumes "kind \<in> {'''', ''B'', ''W'', ''D''}"
  shows "first (ROpt (rx_kind ''BWD'')) (kind @ show_nat start @ rest) i c (show_nat start @ rest, i + length kind, c)"
proof (cases "kind = []")
  case True
  obtain x xs where x: "show_nat start = x # xs" by (cases "show_nat start") auto
  then have "is_digit x" using show_nat_digits [of x start] by simp
  then have "rx_match (rx_kind ''BWD'') (show_nat start @ rest) i c = []"
    using digit_not_kind [of x] by (simp add: x rx_kind_def)
  then show ?thesis using True by (simp add: first_opt_none)
next
  case False
  then obtain x where "kind = [x]" "x = CHR ''B'' \<or> x = CHR ''W'' \<or> x = CHR ''D''" using assms by blast
  then have x: "kind = [x]" "to_upper_char x \<in> set ''BWD''" by auto
  from first_opt_some [OF first_kind [OF x(2)]] show ?thesis by (simp add: x(1))
qed

lemma reMemory_match:
  assumes "kind \<in> {'''', ''B'', ''W'', ''D''}" "to_upper_char letter \<in> set letters"
  shows "find_anchored (reMemory letters) (print_memory letter kind start isBit b) =
    Some (0, 1 + length kind + length (show_nat start) + length (bit_suffix isBit b),
      (if isBit then [(3, 1 + length kind + length (show_nat start) + 1,
                          1 + length kind + length (show_nat start) + 1 + length (show_nat b))] else [])
      @ [(2, 1 + length kind, 1 + length kind + length (show_nat start)), (1, 1, 1 + length kind)])"
proof -
  let ?m = "length (show_nat start)" and ?k = "length kind"
  have "first (reMemory letters) (letter # (kind @ show_nat start @ bit_suffix isBit b)) 0 []
    ([], 0 + 1 + ?k + ?m + length (bit_suffix isBit b),
     if isBit then (3, 0 + 1 + ?k + ?m + 1, 0 + 1 + ?k + ?m + 1 + length (show_nat b))
         # [(2, 0 + 1 + ?k, 0 + 1 + ?k + ?m), (1, 0 + 1, 0 + 1 + ?k)]
     else [(2, 0 + 1 + ?k, 0 + 1 + ?k + ?m), (1, 0 + 1, 0 + 1 + ?k)])"
    unfolding reMemory_def
    by (rule first_seqs_Cons first_seqs_Nil first_group first_kind first_size_letter [OF assms(1)] first_number
        first_end first_bit_suffix bit_suffix_not_digit assms(2))+
  from find_first_match [OF this] show ?thesis by (simp add: print_memory_def)
qed

lemma reMemory_fails: "to_upper_char letter \<notin> set letters \<Longrightarrow> find_anchored (reMemory letters) (letter # s) = None"
  by (simp add: find_anchored_def match_here_def reMemory_def rx_kind_def RSeqs_def)

lemma reDB_fails: "to_lower_char letter \<noteq> to_lower_char CHR ''D'' \<Longrightarrow> find_anchored reDB (letter # s) = None"
  by (simp add: find_anchored_def match_here_def reDB_def RLitFold_def RSeqs_def)

definition area_letters :: "(char \<times> s7_area) list" where
  "area_letters = [(CHR ''M'', AreaM), (CHR ''I'', AreaI), (CHR ''E'', AreaI), (CHR ''Q'', AreaQ), (CHR ''A'', AreaQ)]"

lemma parse_memory_print:
  assumes kind: "kind \<in> {'''', ''B'', ''W'', ''D''}" and n: "start < 2 ^ 63" "b < 8"
    and m: "find_anchored (reMemory letters) (print_memory letter kind start isBit b) = Some (0, j, c)"
    and l: "to_upper_char letter \<in> set letters"
  shows "parse_memory area (print_memory letter kind start isBit b) c dt =
    Inr \<lparr>sa_area = area, sa_dbNumber = 0, sa_start = int start, sa_bit = (if isBit then b else 0),
         sa_size = dataSizeForKind kind dt, sa_isBit = (isBit \<or> kind = [] \<and> dt = TypeBool)\<rparr>"
proof -
  let ?s = "print_memory letter kind start isBit b" and ?m = "length (show_nat start)" and ?k = "length kind"
  have c: "c = (if isBit then [(3, 1 + ?k + ?m + 1, 1 + ?k + ?m + 1 + length (show_nat b))] else [])
      @ [(2, 1 + ?k, 1 + ?k + ?m), (1, 1, 1 + ?k)]"
    using m reMemory_match [OF kind l, of start isBit b] by simp
  have g1: "group_text ?s c 1 = kind"
    by (rule group_text_mid [of _ _ "[letter]" _ _ "show_nat start @ bit_suffix isBit b"])
      (simp_all add: c print_memory_def)
  have g2: "group_text ?s c 2 = show_nat start"
    by (rule group_text_mid [of _ _ "letter # kind" _ _ "bit_suffix isBit b"]) (simp_all add: c print_memory_def)
  have g3: "group_text ?s c 3 = (if isBit then show_nat b else [])"
  proof (cases isBit)
    case True
    have "group_text ?s c 3 = show_nat b"
      by (rule group_text_mid [of _ _ "letter # kind @ show_nat start @ ''.''" _ _ "[]"])
        (simp_all add: c print_memory_def True bit_suffix_def)
    then show ?thesis using True by simp
  qed (simp add: group_text_none c)
  have k: "to_upper kind = kind" using kind by (auto simp: to_upper_def)
  have b: "b < 2 ^ 63" using n(2) by simp
  show ?thesis
    using n b bit_offset_ok [OF n(2)] bit_offset_ok [of 0]
    by (simp add: parse_memory_def g1 g2 g3 k atoi_show_nat Let_def del: One_nat_def)
qed

lemma print_memory_trim:
  "(letter, area) \<in> set area_letters \<Longrightarrow> trim_space (print_memory letter kind start isBit b) = print_memory letter kind start isBit b"
proof (rule trim_space_id)
  show "\<not> is_space (last (print_memory letter kind start isBit b))"
    using digit_not_space [OF last_bit_suffix, of start isBit b] by (simp add: print_memory_def last_append)
qed (auto simp: print_memory_def is_space_def area_letters_def)

lemma letter_chars [simp]: "to_upper_char CHR ''M'' = CHR ''M''" "to_upper_char CHR ''I'' = CHR ''I''"
  "to_upper_char CHR ''E'' = CHR ''E''" "to_upper_char CHR ''Q'' = CHR ''Q''" "to_upper_char CHR ''A'' = CHR ''A''"
  "to_lower_char CHR ''M'' = CHR ''m''" "to_lower_char CHR ''I'' = CHR ''i''"
  "to_lower_char CHR ''E'' = CHR ''e''" "to_lower_char CHR ''Q'' = CHR ''q''" "to_lower_char CHR ''A'' = CHR ''a''"
  "to_lower_char CHR ''D'' = CHR ''d''"
  by code_simp+

lemma parse_print_memory:
  assumes kind: "kind \<in> {'''', ''B'', ''W'', ''D''}" and n: "start < 2 ^ 63" "b < 8"
    and l: "(letter, area) \<in> set area_letters"
  shows "parseS7Address (print_memory letter kind start isBit b) dt =
    Inr \<lparr>sa_area = area, sa_dbNumber = 0, sa_start = int start, sa_bit = (if isBit then b else 0),
         sa_size = dataSizeForKind kind dt, sa_isBit = (isBit \<or> kind = [] \<and> dt = TypeBool)\<rparr>"
proof -
  let ?s = "print_memory letter kind start isBit b"
  have db: "find_anchored reDB ?s = None"
    unfolding print_memory_def by (rule reDB_fails) (use l in \<open>auto simp: area_letters_def\<close>)
  note t = print_memory_trim [OF l, of kind start isBit b]
  have fails: "to_upper_char letter \<notin> set letters \<Longrightarrow> find_anchored (reMemory letters) ?s = None" for letters
    unfolding print_memory_def by (rule reMemory_fails)
  have m: "\<exists>j c. find_anchored (reMemory letters) ?s = Some (0, j, c) \<and> parse_memory area ?s c dt =
      Inr \<lparr>sa_area = area, sa_dbNumber = 0, sa_start = int start, sa_bit = (if isBit then b else 0),
           sa_size = dataSizeForKind kind dt, sa_isBit = (isBit \<or> kind = [] \<and> dt = TypeBool)\<rparr>"
    if "to_upper_char letter \<in> set letters" for letters
    using reMemory_match [OF kind that, of start isBit b] parse_memory_print [OF kind n _ that, of isBit _ _ area dt] by blast
  consider "letter = CHR ''M''" "area = AreaM" | "letter \<in> set ''IE''" "area = AreaI" | "letter \<in> set ''QA''" "area = AreaQ"
    using l by (auto simp: area_letters_def)
  then show ?thesis
  proof cases
    case 1
    then have "to_upper_char letter \<in> set ''M''" by simp
    from m [OF this] show ?thesis unfolding parseS7Address_def t Let_def db using 1(2) by auto
  next
    case 2
    then have k: "to_upper_char letter \<in> set ''IE''" and f: "to_upper_char letter \<notin> set ''M''" by auto
    from m [OF k] show ?thesis unfolding parseS7Address_def t Let_def db fails [OF f] using 2(2) by auto
  next
    case 3
    then have k: "to_upper_char letter \<in> set ''QA''" and f: "to_upper_char letter \<notin> set ''M''"
      and g: "to_upper_char letter \<notin> set ''IE''" by auto
    from m [OF k] show ?thesis
      unfolding parseS7Address_def t Let_def db fails [OF f] fails [OF g] using 3(2) by auto
  qed
qed

text \<open>What every parsed address satisfies.\<close>

definition valid_size :: "int \<Rightarrow> bool" where
  "valid_size n \<longleftrightarrow> n \<in> {1, 2, 4, 8}"

definition addr_range :: "s7_address \<Rightarrow> bool" where
  "addr_range a \<longleftrightarrow> sa_bit a \<le> 7 \<and> valid_size (sa_size a) \<and> 0 \<le> sa_start a \<and> sa_start a < 2 ^ 63
     \<and> 0 \<le> sa_dbNumber a \<and> (sa_area a \<noteq> AreaDB \<longrightarrow> sa_dbNumber a = 0)"

lemma dataSizeForKind_valid [simp]: "valid_size (dataSizeForKind kind dt)"
  by (simp add: dataSizeForKind_def valid_size_def)

lemma atoi_range: "0 \<le> atoi_digits s \<and> atoi_digits s < 2 ^ 63"
  by (simp add: atoi_digits_def maxInt64_def)

lemma parse_memory_range: "parse_memory area s c dt = Inr a \<Longrightarrow> addr_range a"
  using atoi_range
  by (auto simp: parse_memory_def addr_range_def Let_def validateBitOffset_def split: if_splits)

lemma parse_range:
  assumes "parseS7Address s dt = Inr a"
  shows "addr_range a"
proof (cases "find_anchored reDB (trim_space s)")
  case None
  then show ?thesis
    using assms by (auto simp: parseS7Address_def Let_def intro: parse_memory_range split: option.splits)
next
  case (Some m)
  then show ?thesis
    using assms atoi_range
    by (cases m) (auto simp: parseS7Address_def Let_def addr_range_def validateBitOffset_def split: if_splits)
qed

definition tags_inv :: "s7_driver \<Rightarrow> bool" where
  "tags_inv d \<longleftrightarrow> dom (sd_addrs d) = dom (sd_tags d) \<and> (\<forall>a\<in>ran (sd_addrs d). addr_range a)"

lemma tags_inv_add:
  assumes "tags_inv d" "addr_range a"
  shows "tags_inv (d\<lparr>sd_tags := (sd_tags d)(n \<mapsto> t), sd_addrs := (sd_addrs d)(n \<mapsto> a)\<rparr>)"
proof -
  have "ran ((sd_addrs d)(n \<mapsto> a)) \<subseteq> insert a (ran (sd_addrs d))" by (auto simp: ran_def)
  with assms show ?thesis unfolding tags_inv_def by (simp add: subset_iff) blast
qed

lemma init_tags_ok:
  "init_tags tags d = (None, d') \<Longrightarrow> tags_inv d \<Longrightarrow>
   tags_inv d' \<and> dom (sd_addrs d') = dom (sd_addrs d) \<union> tc_name ` set tags"
proof (induction tags arbitrary: d)
  case (Cons tag tags)
  show ?case
  proof (cases "parseS7Address (tc_address tag) (parse_data_type_or_zero (tc_type tag))")
    case (Inl e)
    with Cons.prems(1) show ?thesis by simp
  next
    case (Inr a)
    have "tags_inv (d\<lparr>sd_tags := (sd_tags d)(tc_name tag \<mapsto> tag), sd_addrs := (sd_addrs d)(tc_name tag \<mapsto> a)\<rparr>)"
      using Cons.prems(2) parse_range [OF Inr] by (rule tags_inv_add)
    from Cons.IH [OF _ this] Cons.prems(1) Inr show ?thesis by auto
  qed
qed simp

section \<open>The codec\<close>

lemma be_bytes_length [simp]: "length (be_bytes k n) = k"
  by (induction k arbitrary: n) simp_all

lemma be_val_bytes: "be_val (be_bytes k n) = n mod 256 ^ k"
proof (induction k arbitrary: n)
  case 0
  then show ?case by (simp add: be_val_def)
next
  case (Suc k)
  have "be_val (be_bytes (Suc k) n) = be_val (be_bytes k (n div 256)) * 256 + n mod 256"
    by (simp add: be_val_def unat_of_nat)
  also have "\<dots> = n mod (256 * 256 ^ k)" by (simp add: Suc.IH mod_mult2_eq mult.commute)
  finally show ?case by simp
qed

lemma be_val_put: "be_val (take k (put_bytes buf (be_bytes k n))) = n mod 256 ^ k"
  by (simp add: put_bytes_def be_val_bytes)

text \<open>The documented behaviour of the byte helpers of gos7 that the codec relies on.\<close>

definition helper_ok :: "s7_helper \<Rightarrow> bool" where
  "helper_ok h \<longleftrightarrow>
     (\<forall>b k. k < 8 \<longrightarrow> GetBoolAt h b k = bit b k)
     \<and> (\<forall>b k v. k < 8 \<longrightarrow> SetBoolAt h b k v = (if v then set_bit k b else unset_bit k b))
     \<and> (\<forall>buf x. 4 \<le> length buf \<longrightarrow> length (SetRealAt h buf x) = length buf \<and> GetRealAt h (SetRealAt h buf x) = x)
     \<and> (\<forall>buf x. 8 \<le> length buf \<longrightarrow> length (SetLRealAt h buf x) = length buf \<and> GetLRealAt h (SetLRealAt h buf x) = x)"

text \<open>The values a read of a type can produce, for the types that are both readable and writable.\<close>

definition value_of_type :: "data_type \<Rightarrow> go_value \<Rightarrow> bool" where
  "value_of_type dt v \<longleftrightarrow>
     (case v of
        VBool _ \<Rightarrow> dt = TypeBool
      | VUint16 _ \<Rightarrow> dt = TypeUint16 | VInt16 _ \<Rightarrow> dt = TypeInt16
      | VUint32 _ \<Rightarrow> dt = TypeUint32 | VInt32 _ \<Rightarrow> dt = TypeInt32
      | VFloat32 _ \<Rightarrow> dt = TypeFloat32 | VFloat64 _ \<Rightarrow> dt = TypeFloat64
      | _ \<Rightarrow> False)"

lemma unat16_mod [simp]: "unat (w :: u16) mod 65536 = unat w"
  using unsigned_less [of w, where ?'a = nat] by simp

lemma unat32_mod [simp]: "unat (w :: u32) mod 4294967296 = unat w"
  using unsigned_less [of w, where ?'a = nat] by simp

lemma put_bytes_length: "length bs \<le> length buf \<Longrightarrow> length (put_bytes buf bs) = length buf"
  by (simp add: put_bytes_def)

lemmas codec_simps =
  encodeS7Value_def decodeS7Buffer_def decodeS7TypedValue_def s7RequiredSize_def Let_def put_bytes_length be_val_put

section \<open>Properties\<close>

text \<open>
  C37. The address syntax round-trips: the notation of a data block address (with size letter X, B, W or D)
  and of a merker, input or output address, in either of the two national spellings and with or without
  size letter and bit, parses to that area, block, byte and bit, with the size its letter or data type gives.
\<close>

theorem s7_address_roundtrip:
  assumes "db < 2 ^ 63" "start < 2 ^ 63" "b < 8"
  shows "(kind \<in> set ''XBWD'' \<longrightarrow>
      parseS7Address (print_db db kind start b) dt =
        Inr \<lparr>sa_area = AreaDB, sa_dbNumber = int db, sa_start = int start, sa_bit = (if kind = CHR ''X'' then b else 0),
             sa_size = dataSizeForKind [kind] dt, sa_isBit = (kind = CHR ''X'')\<rparr>)
    \<and> (letter_size \<in> {'''', ''B'', ''W'', ''D''} \<longrightarrow> (letter, area) \<in> set area_letters \<longrightarrow>
      parseS7Address (print_memory letter letter_size start isBit b) dt =
        Inr \<lparr>sa_area = area, sa_dbNumber = 0, sa_start = int start, sa_bit = (if isBit then b else 0),
             sa_size = dataSizeForKind letter_size dt, sa_isBit = (isBit \<or> letter_size = [] \<and> dt = TypeBool)\<rparr>)"
  using parse_print_db [OF _ assms] parse_print_memory [OF _ assms(2,3)] by blast

text \<open>
  \<^verbatim>\<open>Init\<close> of an S7 driver resolves its whole configuration or fails: when it succeeds, exactly the
  configured tags have an address, and every address has a bit below 8 (what the byte helpers can shift
  by), a size of 1, 2, 4 or 8 bytes and a start in range.
\<close>

theorem s7_init_resolves_every_tag:
  assumes "sd_addrs d = Map.empty" "sd_tags d = Map.empty"
    and "s7_Init cv parse_duration name settings tags d = (None, d')"
  shows "dom (sd_addrs d') = tc_name ` set tags \<and> dom (sd_tags d') = tc_name ` set tags
    \<and> (\<forall>n a. sd_addrs d' n = Some a \<longrightarrow> addr_range a)"
proof -
  obtain d1 where d1: "init_tags tags d1 = (None, d')" "sd_addrs d1 = sd_addrs d" "sd_tags d1 = sd_tags d"
    using assms(3)
    by (auto simp: s7_Init_def Let_def ParseReconnectSettings_def split: option.splits go_value.splits prod.splits if_splits)
  have "tags_inv d1" using assms(1,2) d1(2,3) by (simp add: tags_inv_def)
  from init_tags_ok [OF d1(1) this] have inv: "tags_inv d'" and dom: "dom (sd_addrs d') = tc_name ` set tags"
    using assms(1) d1(2) by simp_all
  from inv have "dom (sd_tags d') = dom (sd_addrs d')" "\<forall>n a. sd_addrs d' n = Some a \<longrightarrow> addr_range a"
    by (auto simp: tags_inv_def intro: ranI)
  then show ?thesis unfolding dom by simp
qed


text \<open>
  \<^verbatim>\<open>ToUint16\<close> has no case for the two 8-bit types, so a byte tag written with a value of its own type
  receives zero.
\<close>

lemma encode_uint8_writes_zero:
  "1 \<le> sa_size addr \<Longrightarrow> encodeS7Value cv h (VUint8 w) addr TypeUint8 = Inr (put_bytes (replicate (nat (sa_size addr)) 0) [0])"
  by (simp add: encodeS7Value_def s7RequiredSize_def Let_def)

text \<open>A memory with one byte changed.\<close>

definition poke :: "plc_memory \<Rightarrow> s7_area \<Rightarrow> int \<Rightarrow> int \<Rightarrow> u8 \<Rightarrow> plc_memory" where
  "poke m area db i x = (\<lambda>a d j. if a = area \<and> d = db \<and> j = i then x else m a d j)"

text \<open>
  Writing a bit changes that bit and nothing else: on a controller that reads and writes the addressed
  byte, the read-modify-write of \<^verbatim>\<open>writeAddress\<close> succeeds, gives the bit the value of the command, and
  keeps the other seven bits of the byte and every other byte of the memory.
\<close>

theorem bit_write_changes_one_bit:
  assumes "helper_ok h" "sa_isBit addr" "sa_bit addr < 8" "1 \<le> sa_size addr"
    and "wc_type cmd = TypeBool" "wc_value cmd = VBool v"
    and "readS7Area cl (sa_area addr) (sa_dbNumber addr) (sa_start addr) 1 m =
         (Inr [m (sa_area addr) (sa_dbNumber addr) (sa_start addr)], m)"
    and "\<And>x. write_area cl (sa_area addr) (sa_dbNumber addr) (sa_start addr) [x] m =
         (Inr (), poke m (sa_area addr) (sa_dbNumber addr) (sa_start addr) x)"
  shows "\<exists>m'. writeAddress cv h cl addr cmd m = (Inr (), m')
    \<and> (\<forall>a d i k. bit (m' a d i) k \<longleftrightarrow>
        (if (a, d, i, k) = (sa_area addr, sa_dbNumber addr, sa_start addr, sa_bit addr) then v else bit (m a d i) k))"
proof -
  let ?b = "m (sa_area addr) (sa_dbNumber addr) (sa_start addr)"
  let ?x = "if v then set_bit (sa_bit addr) ?b else unset_bit (sa_bit addr) ?b"
  have "\<exists>buf. encodeS7Value cv h (VBool v) addr TypeBool = Inr buf"
    using assms(4) by (simp add: encodeS7Value_def s7RequiredSize_def Let_def)
  then have "writeAddress cv h cl addr cmd m = (Inr (), poke m (sa_area addr) (sa_dbNumber addr) (sa_start addr) ?x)"
    using assms by (auto simp: writeAddress_def helper_ok_def)
  moreover have "bit ?x k \<longleftrightarrow> (if k = sa_bit addr then v else bit ?b k)" for k
    using assms(3) by (auto simp: bit_simps possible_bit_def)
  ultimately show ?thesis by (auto simp: poke_def)
qed

section \<open>Witnesses\<close>

definition demo_mem :: plc_memory where
  "demo_mem = (\<lambda>area db i. if area = AreaDB then word_of_int (i + db) else 0)"

definition demo_client :: "unit s7_client" where
  "demo_client = \<lparr>AGReadDB = (\<lambda>db start n p. (Inr (mem_bytes demo_mem AreaDB db start n), p)),
     AGReadMB = (\<lambda>start n p. (Inr (mem_bytes demo_mem AreaM 0 start n), p)),
     AGReadEB = (\<lambda>start n p. (Inr (mem_bytes demo_mem AreaI 0 start n), p)),
     AGReadAB = (\<lambda>start n p. (Inr (mem_bytes demo_mem AreaQ 0 start n), p)),
     AGWriteDB = (\<lambda>db start buf p. (Inr (), p)), AGWriteMB = (\<lambda>start buf p. (Inr (), p)),
     AGWriteEB = (\<lambda>start buf p. (Inr (), p)), AGWriteAB = (\<lambda>start buf p. (Inr (), p))\<rparr>"

definition demo_helper :: s7_helper where
  "demo_helper = \<lparr>GetBoolAt = (\<lambda>b k. bit b k), SetBoolAt = (\<lambda>b k v. if v then set_bit k b else unset_bit k b),
     GetRealAt = (\<lambda>buf. word_of_nat (be_val (take 4 buf))), GetLRealAt = (\<lambda>buf. word_of_nat (be_val (take 8 buf))),
     GetStringAt = (\<lambda>buf. []),
     SetRealAt = (\<lambda>buf x. put_bytes buf (be_bytes 4 (unat x))), SetLRealAt = (\<lambda>buf x. put_bytes buf (be_bytes 8 (unat x)))\<rparr>"

definition word_addr :: "int \<Rightarrow> s7_address" where
  "word_addr start = \<lparr>sa_area = AreaDB, sa_dbNumber = 1, sa_start = start, sa_bit = 0, sa_size = 2, sa_isBit = False\<rparr>"

definition demo_tag :: "string \<Rightarrow> tag_config" where
  "demo_tag n = \<lparr>tc_name = n, tc_address = ''DB1.DBW2'', tc_type = ''uint16'', tc_group = [], tc_interval = [],
     tc_scale = 0, tc_offset = 0, tc_deadband = 0, tc_enforce_interval = [], tc_read_timeout = [], tc_protect = [],
     tc_trigger_group = [], tc_triggers = []\<rparr>"

definition demo_s7 :: s7_driver where
  "demo_s7 = \<lparr>bd_name = ''plc1'', bd_type = ''s7'', bd_state = StateConnected, bd_conn = Some 1, bd_lastRead = 0,
     bd_lastError = [], bd_readCount = 0, bd_errorCount = 0, bd_reconnectCount = 0,
     bd_reconnectBackoff = 2 * second, bd_maxReconnectBackoff = 30 * second, bd_maxReconnectFailures = 20,
     sd_host = ''h'', sd_port = 102, sd_rack = 0, sd_slot = 2, sd_timeout = second, sd_idleTimeout = minute,
     sd_tags = [''a'' \<mapsto> demo_tag ''a'', ''b'' \<mapsto> demo_tag ''b''],
     sd_addrs = [''a'' \<mapsto> word_addr 2, ''b'' \<mapsto> word_addr 10]\<rparr>"

lemma demo_serves: "serves fails demo_client demo_mem"
proof -
  have "fst (readS7Area demo_client area db start n p) = Inr (mem_bytes demo_mem area db start n)" for area db start n p
    by (cases area) (simp_all add: demo_client_def mem_bytes_def demo_mem_def)
  then show ?thesis by (simp add: serves_def)
qed

lemma demo_addrs_ok: "addrs_ok demo_s7"
  by (simp add: addrs_ok_def demo_s7_def addr_ok_def word_addr_def)

lemma demo_helper_ok: "helper_ok demo_helper"
proof -
  have "word_of_nat (unat x mod 256 ^ 4) = x" for x :: f32
    using unsigned_less [of x, where ?'a = nat] by simp
  moreover have "word_of_nat (unat x mod 256 ^ 8) = x" for x :: f64
    using unsigned_less [of x, where ?'a = nat] by simp
  ultimately show ?thesis
    by (simp add: helper_ok_def demo_helper_def put_bytes_length be_val_put)
qed

definition demo_read_tag :: "nat \<Rightarrow> int \<Rightarrow> s7_read_tag" where
  "demo_read_tag i start = \<lparr>rt_index = i, rt_name = ''t'', rt_addr = word_addr start, rt_dt = TypeUint16, rt_scale = 0, rt_offset = 0\<rparr>"

theorem plan_covers_every_tag_once_witness:
  "mset (concat (map sg_entries (planS7ReadSegments [demo_read_tag 0 10, demo_read_tag 1 2]))) =
   mset [demo_read_tag 0 10, demo_read_tag 1 2]"
  using plan_covers_every_tag_once [of "[demo_read_tag 0 10, demo_read_tag 1 2]"]
  by (simp add: demo_read_tag_def word_addr_def addr_ok_def)

theorem merged_read_is_single_reads_witness:
  "\<exists>d' p'. s7_Read demo_helper demo_client 5 [''b'', ''x'', ''a''] demo_s7 () =
     (Inr (map (single_read demo_helper demo_mem 5 demo_s7) [''b'', ''x'', ''a'']), d', p')"
  by (rule merged_read_is_single_reads [OF demo_serves demo_addrs_ok, of 1]) (simp_all add: demo_s7_def)

theorem failed_segments_never_corrupt_witness:
  "\<exists>vs d' p'. s7_Read demo_helper demo_client 5 [''b'', ''x'', ''a''] demo_s7 () = (Inr vs, d', p')
    \<and> list_all2 (\<lambda>n v. v = single_read demo_helper demo_mem 5 demo_s7 n \<or> (\<exists>e. v = bad_value n 5 e)) [''b'', ''x'', ''a''] vs"
  by (rule failed_segments_never_corrupt [OF demo_serves demo_addrs_ok, of 1]) (simp_all add: demo_s7_def)

theorem s7_address_roundtrip_witness:
  "parseS7Address (print_db 1 CHR ''W'' 2 0) TypeUint16 =
     Inr \<lparr>sa_area = AreaDB, sa_dbNumber = 1, sa_start = 2, sa_bit = 0, sa_size = 2, sa_isBit = False\<rparr>"
  using s7_address_roundtrip [of 1 2 0 "CHR ''W''" TypeUint16] by (simp add: dataSizeForKind_def)

definition empty_s7 :: s7_driver where
  "empty_s7 = demo_s7\<lparr>sd_tags := Map.empty, sd_addrs := Map.empty\<rparr>"

lemma demo_address: "print_db 1 CHR ''W'' 2 0 = ''DB1.DBW2''"
  by (simp add: print_db_def bit_suffix_def show_nat.simps) code_simp

theorem s7_init_resolves_every_tag_witness:
  "\<exists>d'. s7_Init (\<lambda>_. 0) (\<lambda>_. None) ''plc1'' [(''host'', VString ''h'')] [demo_tag ''a''] empty_s7 = (None, d')
     \<and> dom (sd_addrs d') = {''a''}"
proof -
  have a: "parseS7Address ''DB1.DBW2'' (parse_data_type_or_zero ''uint16'') = Inr (word_addr 2)"
    using parse_print_db [of "CHR ''W''" 1 2 0 TypeUint16, unfolded demo_address]
    by (simp add: dataSizeForKind_def word_addr_def parse_data_type_or_zero_def ParseDataType_def dataTypeFromString_def)
  obtain d' where i: "s7_Init (\<lambda>_. 0) (\<lambda>_. None) ''plc1'' [(''host'', VString ''h'')] [demo_tag ''a''] empty_s7 = (None, d')"
    by (simp add: s7_Init_def Let_def demo_tag_def a)
  have "dom (sd_addrs d') = tc_name ` set [demo_tag ''a'']"
    using s7_init_resolves_every_tag [OF _ _ i] by (simp add: empty_s7_def)
  with i show ?thesis by (simp add: demo_tag_def)
qed


text \<open>A controller with one addressable byte, merker byte 3.\<close>

definition bit_client :: "plc_memory s7_client" where
  "bit_client = \<lparr>AGReadDB = (\<lambda>db start n p. (Inl [], p)), AGReadMB = (\<lambda>start n p. (Inr [p AreaM 0 start], p)),
     AGReadEB = (\<lambda>start n p. (Inl [], p)), AGReadAB = (\<lambda>start n p. (Inl [], p)),
     AGWriteDB = (\<lambda>db start buf p. (Inl [], p)), AGWriteMB = (\<lambda>start buf p. (Inr (), poke p AreaM 0 start (hd buf))),
     AGWriteEB = (\<lambda>start buf p. (Inl [], p)), AGWriteAB = (\<lambda>start buf p. (Inl [], p))\<rparr>"

definition bit_addr :: s7_address where
  "bit_addr = \<lparr>sa_area = AreaM, sa_dbNumber = 0, sa_start = 3, sa_bit = 5, sa_size = 1, sa_isBit = True\<rparr>"

definition bit_command :: write_command where
  "bit_command = \<lparr>wc_driver = ''plc1'', wc_device = [], wc_tag = ''m'', wc_value = VBool True, wc_type = TypeBool,
     wc_source = [], wc_remote = [], wc_raw = False\<rparr>"

theorem bit_write_changes_one_bit_witness:
  "\<exists>m'. writeAddress (\<lambda>_. 0) demo_helper bit_client bit_addr bit_command demo_mem = (Inr (), m')
    \<and> bit (m' AreaM 0 3) 5 \<and> \<not> bit (m' AreaM 0 3) 4"
proof -
  have "\<exists>m'. writeAddress (\<lambda>_. 0) demo_helper bit_client bit_addr bit_command demo_mem = (Inr (), m')
    \<and> (\<forall>a d i k. bit (m' a d i) k \<longleftrightarrow>
        (if (a, d, i, k) = (sa_area bit_addr, sa_dbNumber bit_addr, sa_start bit_addr, sa_bit bit_addr) then True
         else bit (demo_mem a d i) k))"
    by (rule bit_write_changes_one_bit [OF demo_helper_ok]) (simp_all add: bit_addr_def bit_command_def bit_client_def)
  then show ?thesis by (auto simp: bit_addr_def demo_mem_def)
qed

end
