(* ===== verification/Modbus_Driver.thy ===== *)
theory Modbus_Driver
  imports Driver_Base
begin

unbundle bit_operations_syntax

text \<open>
  The Modbus drivers, \<^verbatim>\<open>driver/modbus\<close>: address convention (\<^verbatim>\<open>modbus_address.go\<close>), the shared base
  (\<^verbatim>\<open>modbus_base.go\<close>), batched and single reads with retry (\<^verbatim>\<open>modbus_read.go\<close>) and writes
  (\<^verbatim>\<open>modbus_write.go\<close>). Register addresses and quantities are 16-bit words, as in the code, so
  that the arithmetic wraps where the code's does.

  The protocol library simonvetter/modbus is a parameter: \<open>mb_client\<close> gives its calls on a client,
  identified by its number, and the state \<open>'p\<close> of the devices. Waiting for the retry backoff is the
  parameter \<open>await\<close>: the context may end, or other goroutines may have replaced the client meanwhile.
\<close>

section \<open>Addresses\<close>

datatype mb_area = AreaCoil | AreaDiscreteInput | AreaInputRegister | AreaHoldingRegister

record mb_addr =
  ma_area :: mb_area
  ma_addr :: u16

datatype reg_type = HOLDING_REGISTER | INPUT_REGISTER

definition regType :: "mb_area \<Rightarrow> reg_type" where
  "regType a = (if a = AreaInputRegister then INPUT_REGISTER else HOLDING_REGISTER)"

fun areaName :: "mb_area \<Rightarrow> string" where
  "areaName AreaCoil = ''coil''"
| "areaName AreaDiscreteInput = ''discrete-input''"
| "areaName AreaInputRegister = ''input-register''"
| "areaName AreaHoldingRegister = ''holding-register''"

definition modbusMaxBatchSize :: u16 where "modbusMaxBatchSize = 125"

datatype mb_address_error = InvalidNumber string | AboveMaximum string

text \<open>\<^verbatim>\<open>strconv.ParseUint(s, 10, 32)\<close>.\<close>

definition parse_uint32 :: "string \<Rightarrow> nat option" where
  "parse_uint32 s = (if s \<noteq> [] \<and> list_all is_digit s \<and> digits_val s < 2 ^ 32 then Some (digits_val s) else None)"

definition parseModbusAddress :: "string \<Rightarrow> (mb_address_error, mb_addr) result" where
  "parseModbusAddress addr =
     (case parse_uint32 addr of
        None \<Rightarrow> Inl (InvalidNumber addr)
      | Some num \<Rightarrow>
          if 40001 \<le> num \<and> num \<le> 49999 then Inr \<lparr>ma_area = AreaHoldingRegister, ma_addr = word_of_nat (num - 40001)\<rparr>
          else if 30001 \<le> num \<and> num \<le> 39999 then Inr \<lparr>ma_area = AreaInputRegister, ma_addr = word_of_nat (num - 30001)\<rparr>
          else if 10001 \<le> num \<and> num \<le> 19999 then Inr \<lparr>ma_area = AreaDiscreteInput, ma_addr = word_of_nat (num - 10001)\<rparr>
          else if 1 \<le> num \<and> num \<le> 9999 then Inr \<lparr>ma_area = AreaCoil, ma_addr = word_of_nat (num - 1)\<rparr>
          else if num > 65535 then Inl (AboveMaximum addr)
          else Inr \<lparr>ma_area = AreaHoldingRegister, ma_addr = word_of_nat num\<rparr>)"

section \<open>Errors\<close>

text \<open>
  The nine exception responses of the protocol are sentinel values of the library; \<open>EWrap\<close> is
  \<^verbatim>\<open>fmt.Errorf("...: %w", err)\<close>.
\<close>

datatype mb_exception = IllegalFunction | IllegalDataAddress | IllegalDataValue | ServerDeviceFailure | Acknowledge
  | ServerDeviceBusy | MemoryParityError | GWPathUnavailable | GWTargetFailedToRespond

datatype mb_error = EException mb_exception | EMsg string | EWrap string mb_error

fun exception_code :: "mb_exception \<Rightarrow> string" where
  "exception_code IllegalFunction = ''illegal-function''"
| "exception_code IllegalDataAddress = ''illegal-data-address''"
| "exception_code IllegalDataValue = ''illegal-data-value''"
| "exception_code ServerDeviceFailure = ''server-device-failure''"
| "exception_code Acknowledge = ''acknowledge''"
| "exception_code ServerDeviceBusy = ''server-device-busy''"
| "exception_code MemoryParityError = ''memory-parity-error''"
| "exception_code GWPathUnavailable = ''gateway-path-unavailable''"
| "exception_code GWTargetFailedToRespond = ''gateway-target-failed-to-respond''"

definition errModbusNotConnected :: mb_error where
  "errModbusNotConnected = EMsg ''modbus: client is not connected (connection lost)''"

record 'p mb_client =
  exception_text :: "mb_exception \<Rightarrow> string"
  ReadCoils :: "nat \<Rightarrow> u16 \<Rightarrow> u16 \<Rightarrow> 'p \<Rightarrow> (mb_error, bool list) result \<times> 'p"
  ReadDiscreteInputs :: "nat \<Rightarrow> u16 \<Rightarrow> u16 \<Rightarrow> 'p \<Rightarrow> (mb_error, bool list) result \<times> 'p"
  ReadCoil :: "nat \<Rightarrow> u16 \<Rightarrow> 'p \<Rightarrow> (mb_error, bool) result \<times> 'p"
  ReadDiscreteInput :: "nat \<Rightarrow> u16 \<Rightarrow> 'p \<Rightarrow> (mb_error, bool) result \<times> 'p"
  ReadRegister :: "nat \<Rightarrow> u16 \<Rightarrow> reg_type \<Rightarrow> 'p \<Rightarrow> (mb_error, u16) result \<times> 'p"
  ReadRegisters :: "nat \<Rightarrow> u16 \<Rightarrow> u16 \<Rightarrow> reg_type \<Rightarrow> 'p \<Rightarrow> (mb_error, u16 list) result \<times> 'p"
  ReadFloat32 :: "nat \<Rightarrow> u16 \<Rightarrow> reg_type \<Rightarrow> 'p \<Rightarrow> (mb_error, f32) result \<times> 'p"
  WriteCoil :: "nat \<Rightarrow> u16 \<Rightarrow> bool \<Rightarrow> 'p \<Rightarrow> (mb_error, unit) result \<times> 'p"
  WriteRegister :: "nat \<Rightarrow> u16 \<Rightarrow> u16 \<Rightarrow> 'p \<Rightarrow> (mb_error, unit) result \<times> 'p"
  WriteRegisters :: "nat \<Rightarrow> u16 \<Rightarrow> u16 list \<Rightarrow> 'p \<Rightarrow> (mb_error, unit) result \<times> 'p"
  WriteFloat32 :: "nat \<Rightarrow> u16 \<Rightarrow> f32 \<Rightarrow> 'p \<Rightarrow> (mb_error, unit) result \<times> 'p"

fun err_text :: "(mb_exception \<Rightarrow> string) \<Rightarrow> mb_error \<Rightarrow> string" where
  "err_text tx (EException e) = tx e"
| "err_text tx (EMsg s) = s"
| "err_text tx (EWrap s e) = s @ '': '' @ err_text tx e"

definition conn_error :: "'p mb_client \<Rightarrow> mb_error \<Rightarrow> bool" where
  "conn_error cl e = IsConnectionError (Some (err_text (exception_text cl) e))"

section \<open>The driver\<close>

record modbus_driver = base_driver +
  md_slaveID :: u8
  md_timeout :: time
  md_maxRetry :: int
  md_tags :: "string \<rightharpoonup> tag_config"
  md_addrs :: "string \<rightharpoonup> mb_addr"
  md_exceptions :: "string list"

text \<open>The counter \<^verbatim>\<open>modbus_exception_total\<close>, as the list of codes it was incremented for.\<close>

definition recordException :: "mb_error \<Rightarrow> modbus_driver \<Rightarrow> modbus_driver" where
  "recordException err d =
     (case err of
        EException e \<Rightarrow> d\<lparr>md_exceptions := md_exceptions d @ [exception_code e]\<rparr>
      | _ \<Rightarrow> d)"

fun mb_init_tags :: "tag_config list \<Rightarrow> modbus_driver \<Rightarrow> (string \<times> mb_address_error) option \<times> modbus_driver" where
  "mb_init_tags [] d = (None, d)"
| "mb_init_tags (tag # rest) d =
     (let d = d\<lparr>md_tags := (md_tags d)(tc_name tag \<mapsto> tag)\<rparr>
      in case parseModbusAddress (tc_address tag) of
           Inl err \<Rightarrow> (Some (tc_name tag, err), d)
         | Inr ai \<Rightarrow> mb_init_tags rest (d\<lparr>md_addrs := (md_addrs d)(tc_name tag \<mapsto> ai)\<rparr>))"

definition initCommon ::
  "(f64 \<Rightarrow> int) \<Rightarrow> (string \<Rightarrow> time option) \<Rightarrow> string \<Rightarrow> string \<Rightarrow> settings \<Rightarrow> tag_config list \<Rightarrow> modbus_driver \<Rightarrow>
   (string \<times> mb_address_error) option \<times> modbus_driver" where
  "initCommon cv parse_duration driverType name settings tags d =
     (let d = d\<lparr>bd_name := name, bd_type := driverType\<rparr>;
          d = ParseReconnectSettings cv parse_duration settings d;
          d = d\<lparr>md_slaveID := word_of_int (GetIntSetting cv settings ''slave-id'' 1),
                md_maxRetry := GetIntSetting cv settings ''retry'' 3\<rparr>;
          d = (case map_of settings ''timeout'' of
                 Some (VString s) \<Rightarrow> (case parse_duration s of Some t \<Rightarrow> d\<lparr>md_timeout := t\<rparr> | None \<Rightarrow> d)
               | _ \<Rightarrow> d);
          d = (if md_timeout d = 0 then d\<lparr>md_timeout := 3 * second\<rparr> else d)
      in mb_init_tags tags d)"

section \<open>Single reads\<close>

definition wrap_err :: "string \<Rightarrow> (mb_error, 'a) result \<times> 'p \<Rightarrow> (mb_error, 'a) result \<times> 'p" where
  "wrap_err msg r = (case r of (Inl e, p) \<Rightarrow> (Inl (EWrap msg e), p) | (Inr v, p) \<Rightarrow> (Inr v, p))"

definition join2 :: "u16 \<Rightarrow> u16 \<Rightarrow> u32" where
  "join2 a b = push_bit 16 (ucast a) OR ucast b"

definition join4 :: "u16 \<Rightarrow> u16 \<Rightarrow> u16 \<Rightarrow> u16 \<Rightarrow> u64" where
  "join4 a b c d = push_bit 48 (ucast a) OR push_bit 32 (ucast b) OR push_bit 16 (ucast c) OR ucast d"

definition readSingleRegister ::
  "'p mb_client \<Rightarrow> nat \<Rightarrow> mb_addr \<Rightarrow> data_type \<Rightarrow> 'p \<Rightarrow> (mb_error, go_value) result \<times> 'p" where
  "readSingleRegister cl c ai dt p =
     (case wrap_err (''read '' @ data_type_String dt) (ReadRegister cl c (ma_addr ai) (regType (ma_area ai)) p) of
        (Inl e, p) \<Rightarrow> (Inl e, p)
      | (Inr v, p) \<Rightarrow> (Inr (if dt = TypeInt16 then VInt16 v else VUint16 v), p))"

definition readDoubleRegister ::
  "'p mb_client \<Rightarrow> nat \<Rightarrow> mb_addr \<Rightarrow> data_type \<Rightarrow> 'p \<Rightarrow> (mb_error, go_value) result \<times> 'p" where
  "readDoubleRegister cl c ai dt p =
     (case wrap_err (''read '' @ data_type_String dt) (ReadRegisters cl c (ma_addr ai) 2 (regType (ma_area ai)) p) of
        (Inl e, p) \<Rightarrow> (Inl e, p)
      | (Inr regs, p) \<Rightarrow>
          let v = join2 (regs ! 0) (regs ! 1) in (Inr (if dt = TypeInt32 then VInt32 v else VUint32 v), p))"

definition readQuadRegister ::
  "'p mb_client \<Rightarrow> nat \<Rightarrow> mb_addr \<Rightarrow> data_type \<Rightarrow> 'p \<Rightarrow> (mb_error, go_value) result \<times> 'p" where
  "readQuadRegister cl c ai dt p =
     (case wrap_err (''read '' @ data_type_String dt) (ReadRegisters cl c (ma_addr ai) 4 (regType (ma_area ai)) p) of
        (Inl e, p) \<Rightarrow> (Inl e, p)
      | (Inr regs, p) \<Rightarrow>
          let v = join4 (regs ! 0) (regs ! 1) (regs ! 2) (regs ! 3)
          in (Inr (if dt = TypeInt64 then VInt64 v else VUint64 v), p))"

definition readBoolTag :: "'p mb_client \<Rightarrow> nat \<Rightarrow> mb_addr \<Rightarrow> 'p \<Rightarrow> (mb_error, go_value) result \<times> 'p" where
  "readBoolTag cl c ai p =
     (if ma_area ai = AreaCoil
      then (case wrap_err ''read coil'' (ReadCoil cl c (ma_addr ai) p) of
              (Inl e, p) \<Rightarrow> (Inl e, p) | (Inr v, p) \<Rightarrow> (Inr (VBool v), p))
      else if ma_area ai = AreaDiscreteInput
      then (case wrap_err ''read discrete input'' (ReadDiscreteInput cl c (ma_addr ai) p) of
              (Inl e, p) \<Rightarrow> (Inl e, p) | (Inr v, p) \<Rightarrow> (Inr (VBool v), p))
      else (case wrap_err ''read bool register'' (ReadRegister cl c (ma_addr ai) (regType (ma_area ai)) p) of
              (Inl e, p) \<Rightarrow> (Inl e, p) | (Inr v, p) \<Rightarrow> (Inr (VBool (v \<noteq> 0)), p)))"

text \<open>Eight bytes in big-endian order are the four registers, high word first.\<close>

definition readFloat64Tag :: "'p mb_client \<Rightarrow> nat \<Rightarrow> mb_addr \<Rightarrow> 'p \<Rightarrow> (mb_error, go_value) result \<times> 'p" where
  "readFloat64Tag cl c ai p =
     (case wrap_err ''read float64'' (ReadRegisters cl c (ma_addr ai) 4 (regType (ma_area ai)) p) of
        (Inl e, p) \<Rightarrow> (Inl e, p)
      | (Inr regs, p) \<Rightarrow> (Inr (VFloat64 (join4 (regs ! 0) (regs ! 1) (regs ! 2) (regs ! 3))), p))"

definition bit_area :: "mb_area \<Rightarrow> bool" where
  "bit_area a \<longleftrightarrow> a = AreaCoil \<or> a = AreaDiscreteInput"

definition not_supported :: "string \<Rightarrow> data_type \<Rightarrow> mb_area \<Rightarrow> mb_error" where
  "not_supported n dt a = EMsg (''tag '' @ n @ '': type '' @ data_type_String dt @ '' is not supported on '' @ areaName a
     @ '' area (only bool is supported on coil/discrete-input areas)'')"

definition readTag ::
  "'p mb_client \<Rightarrow> nat option \<Rightarrow> mb_addr \<Rightarrow> data_type \<Rightarrow> string \<Rightarrow> 'p \<Rightarrow> (mb_error, go_value) result \<times> 'p" where
  "readTag cl client ai dt tagName p =
     (case client of
        None \<Rightarrow> (Inl errModbusNotConnected, p)
      | Some c \<Rightarrow>
          if bit_area (ma_area ai) \<and> dt \<noteq> TypeBool then (Inl (not_supported tagName dt (ma_area ai)), p)
          else if dt = TypeBool then readBoolTag cl c ai p
          else if dt = TypeUint16 \<or> dt = TypeInt16 then readSingleRegister cl c ai dt p
          else if dt = TypeUint32 \<or> dt = TypeInt32 then readDoubleRegister cl c ai dt p
          else if dt = TypeFloat32
          then (case wrap_err ''read float32'' (ReadFloat32 cl c (ma_addr ai) (regType (ma_area ai)) p) of
                  (Inl e, p) \<Rightarrow> (Inl e, p) | (Inr v, p) \<Rightarrow> (Inr (VFloat32 v), p))
          else if dt = TypeFloat64 then readFloat64Tag cl c ai p
          else if dt = TypeUint64 \<or> dt = TypeInt64 then readQuadRegister cl c ai dt p
          else (Inl (EMsg (''unsupported data type: '' @ data_type_String dt)), p))"

section \<open>Batches\<close>

record batch_req =
  rq_name :: string
  rq_cfg :: tag_config
  rq_ai :: mb_addr
  rq_dt :: data_type
  rq_qty :: u16
  rq_batchable :: bool

definition batchQuantity :: "mb_addr \<Rightarrow> data_type \<Rightarrow> u16 \<times> bool" where
  "batchQuantity ai dt =
     (if bit_area (ma_area ai) then (if dt \<noteq> TypeBool then (0, False) else (1, True))
      else if dt = TypeBool \<or> dt = TypeUint16 \<or> dt = TypeInt16 then (1, True)
      else if dt = TypeUint32 \<or> dt = TypeInt32 \<or> dt = TypeFloat32 then (2, True)
      else if dt = TypeFloat64 \<or> dt = TypeUint64 \<or> dt = TypeInt64 then (4, True)
      else (0, False))"

record read_batch =
  rb_area :: mb_area
  rb_start :: u16
  rb_qty :: u16
  rb_reqs :: "(nat \<times> batch_req) list"

text \<open>
  The loop of \<^verbatim>\<open>mergeBatches\<close> over the requests, each with its index, after the first one. The code
  carries the indices and looks the requests up.
\<close>

fun merge_loop :: "u16 \<Rightarrow> (nat \<times> batch_req) list \<Rightarrow> read_batch \<Rightarrow> u16 \<Rightarrow> read_batch list" where
  "merge_loop maxBatch [] cur curEnd = [cur]"
| "merge_loop maxBatch (x # xs) cur curEnd =
     (let tStart = ma_addr (rq_ai (snd x));
          tEnd = tStart + rq_qty (snd x);
          mergedEnd = (if tEnd > curEnd then tEnd else curEnd);
          mergedQty = mergedEnd - rb_start cur
      in if tStart \<le> curEnd \<and> mergedQty \<le> maxBatch
         then merge_loop maxBatch xs (cur\<lparr>rb_reqs := rb_reqs cur @ [x], rb_qty := mergedQty\<rparr>) mergedEnd
         else cur # merge_loop maxBatch xs
                \<lparr>rb_area = rb_area cur, rb_start = tStart, rb_qty = rq_qty (snd x), rb_reqs = [x]\<rparr> tEnd)"

definition mergeBatches :: "u16 \<Rightarrow> mb_area \<Rightarrow> (nat \<times> batch_req) list \<Rightarrow> read_batch list" where
  "mergeBatches maxBatch area xs =
     (case xs of
        [] \<Rightarrow> []
      | x # rest \<Rightarrow>
          merge_loop maxBatch rest
            \<lparr>rb_area = area, rb_start = ma_addr (rq_ai (snd x)), rb_qty = rq_qty (snd x), rb_reqs = [x]\<rparr>
            (ma_addr (rq_ai (snd x)) + rq_qty (snd x)))"

text \<open>Decoding a batch: \<open>EIndex\<close> is Go's index-out-of-range panic.\<close>

datatype extract_error = EIndex | EUnsupported data_type

definition reg_at :: "u16 list \<Rightarrow> nat \<Rightarrow> nat \<Rightarrow> (u16 list \<Rightarrow> go_value) \<Rightarrow> (extract_error, go_value) result" where
  "reg_at regs off n f = (if off + n \<le> length regs then Inr (f (take n (drop off regs))) else Inl EIndex)"

definition extractRegisterValue :: "u16 list \<Rightarrow> nat \<Rightarrow> data_type \<Rightarrow> (extract_error, go_value) result" where
  "extractRegisterValue regs off dt =
     (if dt = TypeBool then reg_at regs off 1 (\<lambda>r. VBool (r ! 0 \<noteq> 0))
      else if dt = TypeUint16 then reg_at regs off 1 (\<lambda>r. VUint16 (r ! 0))
      else if dt = TypeInt16 then reg_at regs off 1 (\<lambda>r. VInt16 (r ! 0))
      else if dt = TypeUint32 then reg_at regs off 2 (\<lambda>r. VUint32 (join2 (r ! 0) (r ! 1)))
      else if dt = TypeInt32 then reg_at regs off 2 (\<lambda>r. VInt32 (join2 (r ! 0) (r ! 1)))
      else if dt = TypeFloat32 then reg_at regs off 2 (\<lambda>r. VFloat32 (join2 (r ! 0) (r ! 1)))
      else if dt = TypeFloat64 then reg_at regs off 4 (\<lambda>r. VFloat64 (join4 (r ! 0) (r ! 1) (r ! 2) (r ! 3)))
      else if dt = TypeUint64 then reg_at regs off 4 (\<lambda>r. VUint64 (join4 (r ! 0) (r ! 1) (r ! 2) (r ! 3)))
      else if dt = TypeInt64 then reg_at regs off 4 (\<lambda>r. VInt64 (join4 (r ! 0) (r ! 1) (r ! 2) (r ! 3)))
      else Inl (EUnsupported dt))"

datatype batch_outcome = BPanic | BErr mb_error | BOk "(nat \<times> go_value) list"

definition extract_bit :: "bool list \<Rightarrow> nat \<Rightarrow> (extract_error, go_value) result" where
  "extract_bit bits off = (if off < length bits then Inr (VBool (bits ! off)) else Inl EIndex)"

fun decode_batch ::
  "(nat \<Rightarrow> data_type \<Rightarrow> (extract_error, go_value) result) \<Rightarrow> u16 \<Rightarrow> (nat \<times> batch_req) list \<Rightarrow> batch_outcome" where
  "decode_batch extract start [] = BOk []"
| "decode_batch extract start (x # xs) =
     (case extract (unat (ma_addr (rq_ai (snd x)) - start)) (rq_dt (snd x)) of
        Inl EIndex \<Rightarrow> BPanic
      | Inl (EUnsupported dt) \<Rightarrow>
          BErr (EWrap (''batch decode tag '' @ rq_name (snd x)) (EMsg (''unsupported data type: '' @ data_type_String dt)))
      | Inr v \<Rightarrow> (case decode_batch extract start xs of BOk vs \<Rightarrow> BOk ((fst x, v) # vs) | r \<Rightarrow> r))"

definition readBatch :: "'p mb_client \<Rightarrow> nat option \<Rightarrow> read_batch \<Rightarrow> 'p \<Rightarrow> batch_outcome \<times> 'p" where
  "readBatch cl client b p =
     (case client of
        None \<Rightarrow> (BErr errModbusNotConnected, p)
      | Some c \<Rightarrow>
          if bit_area (rb_area b)
          then (case wrap_err (''batch read '' @ areaName (rb_area b))
                  (if rb_area b = AreaCoil then ReadCoils cl c (rb_start b) (rb_qty b) p
                   else ReadDiscreteInputs cl c (rb_start b) (rb_qty b) p) of
                  (Inl e, p) \<Rightarrow> (BErr e, p)
                | (Inr bits, p) \<Rightarrow> (decode_batch (\<lambda>off _. extract_bit bits off) (rb_start b) (rb_reqs b), p))
          else (case wrap_err (''batch read '' @ areaName (rb_area b))
                  (ReadRegisters cl c (rb_start b) (rb_qty b) (regType (rb_area b)) p) of
                  (Inl e, p) \<Rightarrow> (BErr e, p)
                | (Inr regs, p) \<Rightarrow> (decode_batch (extractRegisterValue regs) (rb_start b) (rb_reqs b), p)))"

section \<open>Retry\<close>

text \<open>
  What a wait for the backoff ends with: the context's error, or a driver whose client other goroutines
  may have replaced.
\<close>

datatype 'p await_result = CtxDone string modbus_driver 'p | Elapsed modbus_driver 'p

type_synonym 'p await = "modbus_driver \<Rightarrow> 'p \<Rightarrow> 'p await_result"

text \<open>The attempts of \<^verbatim>\<open>readBatchWithRetry\<close>; \<open>n\<close> of them are left.\<close>

fun batch_attempts ::
  "'p mb_client \<Rightarrow> 'p await \<Rightarrow> read_batch \<Rightarrow> nat \<Rightarrow> nat option \<Rightarrow> modbus_driver \<Rightarrow> 'p \<Rightarrow>
   batch_outcome \<times> nat option \<times> modbus_driver \<times> 'p" where
  "batch_attempts cl await b 0 client d p = (BOk [], client, d, p)"
| "batch_attempts cl await b (Suc n) client d p =
     (case readBatch cl client b p of
        (BErr e, p) \<Rightarrow>
          if n > 0 \<and> conn_error cl e
          then (case await d p of
                  CtxDone msg d p \<Rightarrow> (BErr (EMsg msg), client, d, p)
                | Elapsed d p \<Rightarrow>
                    if bd_conn d = None then (BErr e, None, d, p)
                    else batch_attempts cl await b n (bd_conn d) d p)
          else (BErr e, client, d, p)
      | (r, p) \<Rightarrow> (r, client, d, p))"

definition readBatchWithRetry ::
  "'p mb_client \<Rightarrow> 'p await \<Rightarrow> read_batch \<Rightarrow> nat option \<Rightarrow> modbus_driver \<Rightarrow> 'p \<Rightarrow>
   batch_outcome \<times> nat option \<times> modbus_driver \<times> 'p" where
  "readBatchWithRetry cl await b client d p = batch_attempts cl await b (nat (md_maxRetry d + 1)) client d p"

text \<open>The result of the batch phase: None after a panic; a lost client ends the phase.\<close>

fun read_all_batches ::
  "'p mb_client \<Rightarrow> 'p await \<Rightarrow> read_batch list \<Rightarrow> (nat \<times> go_value) list \<Rightarrow> nat option \<Rightarrow> modbus_driver \<Rightarrow> 'p \<Rightarrow>
   ((nat \<times> go_value) list \<times> nat option \<times> modbus_driver \<times> 'p) option" where
  "read_all_batches cl await [] vals client d p = Some (vals, client, d, p)"
| "read_all_batches cl await (b # bs) vals client d p =
     (case readBatchWithRetry cl await b client d p of
        (BPanic, _) \<Rightarrow> None
      | (BErr e, client, d, p) \<Rightarrow>
          if client = None then Some (vals, None, d, p) else read_all_batches cl await bs vals client d p
      | (BOk vs, client, d, p) \<Rightarrow> read_all_batches cl await bs (vs @ vals) client d p)"

text \<open>The batchable requests of one area, sorted by address.\<close>

definition area_group :: "batch_req option list \<Rightarrow> mb_area \<Rightarrow> (nat \<times> batch_req) list" where
  "area_group reqs area =
     sort_key (\<lambda>x. ma_addr (rq_ai (snd x)))
       (List.map_filter (\<lambda>(i, r). case r of
            Some r \<Rightarrow> if rq_batchable r \<and> ma_area (rq_ai r) = area then Some (i, r) else None
          | None \<Rightarrow> None) (enumerate 0 reqs))"

text \<open>
  The code ranges over a Go map of the areas: \<open>order\<close> is the order in which the runtime yields them.
  An area without batchable requests is not in the map, and has no batches.
\<close>

definition performBatchReads ::
  "'p mb_client \<Rightarrow> 'p await \<Rightarrow> mb_area list \<Rightarrow> batch_req option list \<Rightarrow> nat option \<Rightarrow> modbus_driver \<Rightarrow> 'p \<Rightarrow>
   ((nat \<times> go_value) list \<times> nat option \<times> modbus_driver \<times> 'p) option" where
  "performBatchReads cl await order reqs client d p =
     read_all_batches cl await
       (concat (map (\<lambda>area. mergeBatches modbusMaxBatchSize area (area_group reqs area)) order)) [] client d p"

datatype single_outcome = SAbort string | SErr mb_error | SOk go_value

fun tag_attempts ::
  "'p mb_client \<Rightarrow> 'p await \<Rightarrow> batch_req \<Rightarrow> nat \<Rightarrow> nat option \<Rightarrow> modbus_driver \<Rightarrow> 'p \<Rightarrow>
   single_outcome \<times> nat option \<times> modbus_driver \<times> 'p" where
  "tag_attempts cl await r 0 client d p = (SOk VNil, client, d, p)"
| "tag_attempts cl await r (Suc n) client d p =
     (case readTag cl client (rq_ai r) (rq_dt r) (rq_name r) p of
        (Inr v, p) \<Rightarrow> (SOk v, client, d, p)
      | (Inl e, p) \<Rightarrow>
          if n > 0 \<and> conn_error cl e
          then (case await d p of
                  CtxDone msg d p \<Rightarrow>
                    (SAbort msg, client,
                     (case client of Some c \<Rightarrow> snd (handleConnLostIfCurrent c d)
                      | None \<Rightarrow> if bd_conn d = None then snd (HandleConnectionLost d) else d), p)
                | Elapsed d p \<Rightarrow>
                    if bd_conn d = None then (SErr e, None, d, p)
                    else tag_attempts cl await r n (bd_conn d) d p)
          else (SErr e, client, d, p))"

definition readTagWithRetry ::
  "'p mb_client \<Rightarrow> 'p await \<Rightarrow> batch_req \<Rightarrow> nat option \<Rightarrow> modbus_driver \<Rightarrow> 'p \<Rightarrow>
   single_outcome \<times> nat option \<times> modbus_driver \<times> 'p" where
  "readTagWithRetry cl await r client d p = tag_attempts cl await r (nat (md_maxRetry d + 1)) client d p"

section \<open>Read\<close>

definition mb_bad :: "string \<Rightarrow> time \<Rightarrow> string \<Rightarrow> tag_value" where
  "mb_bad n now err = \<lparr>tv_tag = n, tv_value = VNil, tv_type = TypeBool, tv_quality = QualityBad,
     tv_timestamp = now, tv_error = Some err\<rparr>"

definition mb_good :: "batch_req \<Rightarrow> go_value \<Rightarrow> time \<Rightarrow> tag_value" where
  "mb_good r v now = \<lparr>tv_tag = rq_name r, tv_value = ApplyTransform v (tc_scale (rq_cfg r)) (tc_offset (rq_cfg r)),
     tv_type = rq_dt r, tv_quality = QualityGood, tv_timestamp = now, tv_error = None\<rparr>"

definition resolve_req :: "modbus_driver \<Rightarrow> string \<Rightarrow> batch_req option" where
  "resolve_req d n =
     (case (md_tags d n, md_addrs d n) of
        (Some cfg, Some ai) \<Rightarrow>
          let dt = parse_data_type_or_zero (tc_type cfg); (qty, ok) = batchQuantity ai dt
          in Some \<lparr>rq_name = n, rq_cfg = cfg, rq_ai = ai, rq_dt = dt, rq_qty = qty, rq_batchable = ok\<rparr>
      | _ \<Rightarrow> None)"

definition tag_failed :: "'p mb_client \<Rightarrow> mb_error \<Rightarrow> nat option \<Rightarrow> modbus_driver \<Rightarrow> modbus_driver" where
  "tag_failed cl e client d =
     (let d = recordException e (RecordError d);
          d = d\<lparr>bd_lastError := err_text (exception_text cl) e\<rparr>
      in if conn_error cl e \<and> bd_conn d = client then snd (HandleConnectionLost d) else d)"

text \<open>Phase 3 over the tags from index \<open>i\<close> on; an abort discards the results.\<close>

fun assemble ::
  "'p mb_client \<Rightarrow> 'p await \<Rightarrow> time \<Rightarrow> (nat \<times> go_value) list \<Rightarrow> nat \<Rightarrow> (string \<times> batch_req option) list \<Rightarrow>
   nat option \<Rightarrow> modbus_driver \<Rightarrow> 'p \<Rightarrow> (string, tag_value list) result \<times> modbus_driver \<times> 'p" where
  "assemble cl await now vals i [] client d p = (Inr [], d, p)"
| "assemble cl await now vals i ((n, None) # rest) client d p =
     (case assemble cl await now vals (i + 1) rest client d p of
        (Inr vs, d, p) \<Rightarrow> (Inr (mb_bad n now (''tag not found: '' @ n) # vs), d, p)
      | r \<Rightarrow> r)"
| "assemble cl await now vals i ((n, Some r) # rest) client d p =
     (case map_of vals i of
        Some v \<Rightarrow>
          (case assemble cl await now vals (i + 1) rest client d p of
             (Inr vs, d, p) \<Rightarrow> (Inr (mb_good r v now # vs), d, p)
           | x \<Rightarrow> x)
      | None \<Rightarrow>
          (case readTagWithRetry cl await r client d p of
             (SAbort msg, client, d, p) \<Rightarrow> (Inl msg, d, p)
           | (SErr e, client, d, p) \<Rightarrow>
               (case assemble cl await now vals (i + 1) rest client (tag_failed cl e client d) p of
                  (Inr vs, d, p) \<Rightarrow> (Inr (mb_bad n now (err_text (exception_text cl) e) # vs), d, p)
                | x \<Rightarrow> x)
           | (SOk v, client, d, p) \<Rightarrow>
               (case assemble cl await now vals (i + 1) rest client d p of
                  (Inr vs, d, p) \<Rightarrow> (Inr (mb_good r v now # vs), d, p)
                | x \<Rightarrow> x)))"

text \<open>\<^verbatim>\<open>Read\<close>: None is a panic of the process.\<close>

definition modbus_Read ::
  "'p mb_client \<Rightarrow> 'p await \<Rightarrow> mb_area list \<Rightarrow> time \<Rightarrow> string list \<Rightarrow> modbus_driver \<Rightarrow> 'p \<Rightarrow>
   ((string, tag_value list) result \<times> modbus_driver \<times> 'p) option" where
  "modbus_Read cl await order now tags d p =
     (if bd_state d \<noteq> StateConnected \<or> bd_conn d = None
      then Some (Inl (''driver '' @ bd_name d @ '' is not connected (state: '' @ conn_state_String (bd_state d) @ '')''),
                 RecordError d, p)
      else let reqs = map (resolve_req d) tags
           in case performBatchReads cl await order reqs (bd_conn d) d p of
                None \<Rightarrow> None
              | Some (vals, client, d, p) \<Rightarrow>
                  (case assemble cl await now vals 0 (zip tags reqs) client d p of
                     (Inl msg, d, p) \<Rightarrow> Some (Inl msg, d, p)
                   | (Inr vs, d, p) \<Rightarrow> Some (Inr vs, (AddReadCount (length tags) d)\<lparr>bd_lastRead := now\<rparr>, p)))"

section \<open>Write\<close>

definition writeTag ::
  "(f64 \<Rightarrow> int) \<Rightarrow> 'p mb_client \<Rightarrow> nat \<Rightarrow> mb_addr \<Rightarrow> write_command \<Rightarrow> 'p \<Rightarrow> (mb_error, unit) result \<times> 'p" where
  "writeTag cv cl c ai cmd p =
     (let dt = wc_type cmd
      in if bit_area (ma_area ai) \<and> dt \<noteq> TypeBool then (Inl (not_supported (wc_tag cmd) dt (ma_area ai)), p)
         else if dt = TypeBool
         then (case wc_value cmd of
                 VBool v \<Rightarrow> if ma_area ai = AreaCoil then WriteCoil cl c (ma_addr ai) v p
                            else WriteRegister cl c (ma_addr ai) (if v then 1 else 0) p
               | _ \<Rightarrow> (Inl (EMsg (''expected bool value for tag '' @ wc_tag cmd)), p))
         else if dt = TypeUint16 \<or> dt = TypeInt16 then WriteRegister cl c (ma_addr ai) (ToUint16 cv (wc_value cmd)) p
         else if dt = TypeFloat32 then WriteFloat32 cl c (ma_addr ai) (ToFloat32 (wc_value cmd)) p
         else if dt = TypeUint32 \<or> dt = TypeInt32
         then (let v = ToUint32 cv (wc_value cmd)
               in WriteRegisters cl c (ma_addr ai) [ucast (drop_bit 16 v), ucast (v AND 0xFFFF)] p)
         else (Inl (EMsg (''unsupported write type: '' @ data_type_String dt)), p))"

definition write_failed :: "'p mb_client \<Rightarrow> mb_error \<Rightarrow> nat \<Rightarrow> modbus_driver \<Rightarrow> modbus_driver" where
  "write_failed cl e c d =
     (let d = recordException e (RecordError d)
      in if conn_error cl e then snd (handleConnLostIfCurrent c d) else d)"

text \<open>A tag without configuration has scale and offset zero, which leave the value as it is.\<close>

fun mb_write_commands ::
  "(f64 \<Rightarrow> int) \<Rightarrow> 'p mb_client \<Rightarrow> nat \<Rightarrow> write_command list \<Rightarrow> modbus_driver \<Rightarrow> 'p \<Rightarrow>
   write_result list \<times> modbus_driver \<times> 'p" where
  "mb_write_commands cv cl c [] d p = ([], d, p)"
| "mb_write_commands cv cl c (cmd # cmds) d p =
     (case md_addrs d (wc_tag cmd) of
        None \<Rightarrow>
          (let (rs, d, p) = mb_write_commands cv cl c cmds d p
           in (\<lparr>wr_success = False, wr_error = ''tag not found: '' @ wc_tag cmd\<rparr> # rs, d, p))
      | Some ai \<Rightarrow>
          if ma_area ai = AreaDiscreteInput \<or> ma_area ai = AreaInputRegister
          then (let (rs, d, p) = mb_write_commands cv cl c cmds d p
                in (\<lparr>wr_success = False, wr_error = ''tag '' @ wc_tag cmd
                       @ '' is in a read-only area (discrete input/input register)''\<rparr> # rs, d, p))
          else (let v = (case md_tags d (wc_tag cmd) of Some cfg \<Rightarrow> WriteValueForTag cmd cfg | None \<Rightarrow> wc_value cmd);
                    (r, p) = writeTag cv cl c ai (cmd\<lparr>wc_value := v\<rparr>) p
                in case r of
                     Inl e \<Rightarrow>
                       (let (rs, d, p) = mb_write_commands cv cl c cmds (write_failed cl e c d) p
                        in (\<lparr>wr_success = False, wr_error = err_text (exception_text cl) e\<rparr> # rs, d, p))
                   | Inr _ \<Rightarrow>
                       (let (rs, d, p) = mb_write_commands cv cl c cmds d p
                        in (\<lparr>wr_success = True, wr_error = []\<rparr> # rs, d, p))))"

definition modbus_Write ::
  "(f64 \<Rightarrow> int) \<Rightarrow> 'p mb_client \<Rightarrow> write_command list \<Rightarrow> modbus_driver \<Rightarrow> 'p \<Rightarrow>
   (string, write_result list) result \<times> modbus_driver \<times> 'p" where
  "modbus_Write cv cl cmds d p =
     (case bd_conn d of
        Some c \<Rightarrow>
          if bd_state d \<noteq> StateConnected then (Inl (''driver '' @ bd_name d @ '' is not connected''), d, p)
          else (case mb_write_commands cv cl c cmds d p of (rs, d, p) \<Rightarrow> (Inr rs, d, p))
      | None \<Rightarrow> (Inl (''driver '' @ bd_name d @ '' is not connected''), d, p))"

section \<open>Settings\<close>

definition modbusSettingsKeys :: "string list" where
  "modbusSettingsKeys =
     [''slave-id'', ''retry'', ''timeout'', ''reconnect-interval'', ''reconnect-max-interval'', ''max-reconnect-failures'']"

definition tcp_ValidateSettings :: "settings \<Rightarrow> string option" where
  "tcp_ValidateSettings s = RejectUnknownSettings s (modbusSettingsKeys @ [''host'', ''port'']) ''modbus''"

definition rtu_ValidateSettings :: "settings \<Rightarrow> string option" where
  "rtu_ValidateSettings s =
     RejectUnknownSettings s (modbusSettingsKeys @ [''serial-device'', ''baud-rate'', ''data-bits'', ''parity'', ''stop-bits'']) ''modbus-rtu''"

definition tls_ValidateSettings :: "settings \<Rightarrow> string option" where
  "tls_ValidateSettings s =
     RejectUnknownSettings s (modbusSettingsKeys @ [''host'', ''port'', ''cert-file'', ''key-file'', ''ca-file'']) ''modbus-tls''"

end
