(* ===== verification/Modbus_Props.thy ===== *)
theory Modbus_Props
  imports Modbus_Driver
begin

text \<open>
  Correctness of the Modbus drivers: batches cover their tags, a batched read returns what single
  reads would, under failures no value is wrong, and writes never touch a read-only area.
\<close>

section \<open>Devices\<close>

record mb_memory =
  mm_coils :: "u16 \<Rightarrow> bool"
  mm_inputs :: "u16 \<Rightarrow> bool"
  mm_regs :: "reg_type \<Rightarrow> u16 \<Rightarrow> u16"

definition cells :: "(u16 \<Rightarrow> 'a) \<Rightarrow> u16 \<Rightarrow> nat \<Rightarrow> 'a list" where
  "cells f a n = map (\<lambda>i. f (a + word_of_nat i)) [0..<n]"

lemma cells_length [simp]: "length (cells f a n) = n"
  by (simp add: cells_def)

lemma cells_nth [simp]: "i < n \<Longrightarrow> cells f a n ! i = f (a + word_of_nat i)"
  by (simp add: cells_def)

definition answers :: "bool \<Rightarrow> 'a \<Rightarrow> (mb_error, 'a) result \<times> 'p \<Rightarrow> bool" where
  "answers fails v r \<longleftrightarrow> fst r = Inr v \<or> fails \<and> isl (fst r)"

text \<open>
  The documented behaviour of the library on a device with memory \<open>mem\<close>: every read call returns the
  cells it names, or, if \<open>fails\<close>, an error.
\<close>

definition mb_serves :: "bool \<Rightarrow> 'p mb_client \<Rightarrow> mb_memory \<Rightarrow> bool" where
  "mb_serves fails cl mem \<longleftrightarrow>
     (\<forall>c a q p. answers fails (cells (mm_coils mem) a (unat q)) (ReadCoils cl c a q p))
     \<and> (\<forall>c a q p. answers fails (cells (mm_inputs mem) a (unat q)) (ReadDiscreteInputs cl c a q p))
     \<and> (\<forall>c a p. answers fails (mm_coils mem a) (ReadCoil cl c a p))
     \<and> (\<forall>c a p. answers fails (mm_inputs mem a) (ReadDiscreteInput cl c a p))
     \<and> (\<forall>c a t p. answers fails (mm_regs mem t a) (ReadRegister cl c a t p))
     \<and> (\<forall>c a q t p. answers fails (cells (mm_regs mem t) a (unat q)) (ReadRegisters cl c a q t p))
     \<and> (\<forall>c a t p. answers fails (join2 (mm_regs mem t a) (mm_regs mem t (a + 1))) (ReadFloat32 cl c a t p))"

lemma wrap_answers: "answers fails v r \<Longrightarrow> answers fails v (wrap_err msg r)"
  by (cases r; cases "fst r") (auto simp: answers_def wrap_err_def)

lemma answers_cases:
  assumes "answers fails v r"
  obtains p where "r = (Inr v, p)" | e p where "fails" "r = (Inl e, p)"
  using assms by (cases r; cases "fst r") (auto simp: answers_def)

text \<open>What a tag of a supported type is worth on the device.\<close>

definition device_value :: "mb_memory \<Rightarrow> mb_addr \<Rightarrow> data_type \<Rightarrow> go_value" where
  "device_value mem ai dt =
     (let r = (\<lambda>i. mm_regs mem (regType (ma_area ai)) (ma_addr ai + word_of_nat i))
      in if ma_area ai = AreaCoil then VBool (mm_coils mem (ma_addr ai))
         else if ma_area ai = AreaDiscreteInput then VBool (mm_inputs mem (ma_addr ai))
         else if dt = TypeBool then VBool (r 0 \<noteq> 0)
         else if dt = TypeUint16 then VUint16 (r 0)
         else if dt = TypeInt16 then VInt16 (r 0)
         else if dt = TypeUint32 then VUint32 (join2 (r 0) (r 1))
         else if dt = TypeInt32 then VInt32 (join2 (r 0) (r 1))
         else if dt = TypeFloat32 then VFloat32 (join2 (r 0) (r 1))
         else if dt = TypeFloat64 then VFloat64 (join4 (r 0) (r 1) (r 2) (r 3))
         else if dt = TypeUint64 then VUint64 (join4 (r 0) (r 1) (r 2) (r 3))
         else VInt64 (join4 (r 0) (r 1) (r 2) (r 3)))"

section \<open>Single reads\<close>

definition supported :: "mb_addr \<Rightarrow> data_type \<Rightarrow> bool" where
  "supported ai dt \<longleftrightarrow> snd (batchQuantity ai dt)"

lemma supported_bits: "supported ai dt \<Longrightarrow> bit_area (ma_area ai) \<Longrightarrow> dt = TypeBool"
  by (simp add: supported_def batchQuantity_def split: if_splits)

lemma serves_reads:
  assumes "mb_serves fails cl mem"
  shows "answers fails (cells (mm_coils mem) a (unat q)) (ReadCoils cl c a q p)"
    and "answers fails (cells (mm_inputs mem) a (unat q)) (ReadDiscreteInputs cl c a q p)"
    and "answers fails (mm_coils mem a) (ReadCoil cl c a p)"
    and "answers fails (mm_inputs mem a) (ReadDiscreteInput cl c a p)"
    and "answers fails (mm_regs mem t a) (ReadRegister cl c a t p)"
    and "answers fails (cells (mm_regs mem t) a (unat q)) (ReadRegisters cl c a q t p)"
    and "answers fails (join2 (mm_regs mem t a) (mm_regs mem t (a + 1))) (ReadFloat32 cl c a t p)"
  using assms by (simp_all add: mb_serves_def)

lemmas answer_simps = wrap_err_def answers_def device_value_def Let_def bit_area_def

lemma readBoolTag_answers:
  assumes "mb_serves fails cl mem"
  shows "answers fails (device_value mem ai TypeBool) (readBoolTag cl c ai p)"
proof -
  let ?a = "ma_addr ai"
  consider "ma_area ai = AreaCoil" | "ma_area ai = AreaDiscreteInput" | "ma_area ai \<noteq> AreaCoil" "ma_area ai \<noteq> AreaDiscreteInput"
    by blast
  then show ?thesis
  proof cases
    case 1
    show ?thesis
      by (rule answers_cases [OF serves_reads(3) [OF assms, of ?a c p]])
        (use 1 in \<open>simp_all add: readBoolTag_def answer_simps\<close>)
  next
    case 2
    show ?thesis
      by (rule answers_cases [OF serves_reads(4) [OF assms, of ?a c p]])
        (use 2 in \<open>simp_all add: readBoolTag_def answer_simps\<close>)
  next
    case 3
    show ?thesis
      by (rule answers_cases [OF serves_reads(5) [OF assms, of "regType (ma_area ai)" ?a c p]])
        (use 3 in \<open>simp_all add: readBoolTag_def answer_simps\<close>)
  qed
qed

lemma readSingle_answers:
  assumes "mb_serves fails cl mem" "dt = TypeUint16 \<or> dt = TypeInt16" "\<not> bit_area (ma_area ai)"
  shows "answers fails (device_value mem ai dt) (readSingleRegister cl c ai dt p)"
  by (rule answers_cases [OF serves_reads(5) [OF assms(1), of "regType (ma_area ai)" "ma_addr ai" c p]])
    (use assms(2,3) in \<open>auto simp: readSingleRegister_def answer_simps\<close>)

lemma readDouble_answers:
  assumes "mb_serves fails cl mem" "dt = TypeUint32 \<or> dt = TypeInt32" "\<not> bit_area (ma_area ai)"
  shows "answers fails (device_value mem ai dt) (readDoubleRegister cl c ai dt p)"
  by (rule answers_cases [OF serves_reads(6) [OF assms(1), of "regType (ma_area ai)" "ma_addr ai" 2 c p]])
    (use assms(2,3) in \<open>auto simp: readDoubleRegister_def answer_simps\<close>)

lemma readQuad_answers:
  assumes "mb_serves fails cl mem" "dt = TypeUint64 \<or> dt = TypeInt64" "\<not> bit_area (ma_area ai)"
  shows "answers fails (device_value mem ai dt) (readQuadRegister cl c ai dt p)"
  by (rule answers_cases [OF serves_reads(6) [OF assms(1), of "regType (ma_area ai)" "ma_addr ai" 4 c p]])
    (use assms(2,3) in \<open>auto simp: readQuadRegister_def answer_simps\<close>)

lemma readFloat64_answers:
  assumes "mb_serves fails cl mem" "\<not> bit_area (ma_area ai)"
  shows "answers fails (device_value mem ai TypeFloat64) (readFloat64Tag cl c ai p)"
  by (rule answers_cases [OF serves_reads(6) [OF assms(1), of "regType (ma_area ai)" "ma_addr ai" 4 c p]])
    (use assms(2) in \<open>auto simp: readFloat64Tag_def answer_simps\<close>)

lemma readFloat32_answers:
  assumes "mb_serves fails cl mem" "\<not> bit_area (ma_area ai)"
  shows "answers fails (device_value mem ai TypeFloat32)
    (case wrap_err msg (ReadFloat32 cl c (ma_addr ai) (regType (ma_area ai)) p) of
       (Inl e, p) \<Rightarrow> (Inl e, p) | (Inr v, p) \<Rightarrow> (Inr (VFloat32 v), p))"
  by (rule answers_cases [OF serves_reads(7) [OF assms(1), of "regType (ma_area ai)" "ma_addr ai" c p]])
    (use assms(2) in \<open>auto simp: answer_simps\<close>)

lemma readTag_answers:
  assumes srv: "mb_serves fails cl mem" and sup: "supported ai dt" and c: "client \<noteq> None \<or> fails"
  shows "answers fails (device_value mem ai dt) (readTag cl client ai dt n p)"
proof (cases client)
  case None
  then show ?thesis using c by (simp add: readTag_def answers_def)
next
  case (Some k)
  show ?thesis
  proof (cases "dt = TypeBool")
    case True
    then show ?thesis using readBoolTag_answers [OF srv] by (simp add: readTag_def Some)
  next
    case False
    then have na: "\<not> bit_area (ma_area ai)" using supported_bits [OF sup] by blast
    then have "dt \<in> {TypeUint16, TypeInt16, TypeUint32, TypeInt32, TypeFloat32, TypeFloat64, TypeUint64, TypeInt64}"
      using sup False by (auto simp: supported_def batchQuantity_def split: if_splits)
    then show ?thesis
      using na readSingle_answers [OF srv _ na] readDouble_answers [OF srv _ na] readQuad_answers [OF srv _ na]
        readFloat64_answers [OF srv na] readFloat32_answers [OF srv na]
      by (auto simp: readTag_def Some)
  qed
qed

section \<open>Batches\<close>

abbreviation req_addr :: "nat \<times> batch_req \<Rightarrow> u16" where
  "req_addr x \<equiv> ma_addr (rq_ai (snd x))"

definition req_ok :: "nat \<times> batch_req \<Rightarrow> bool" where
  "req_ok x \<longleftrightarrow> batchQuantity (rq_ai (snd x)) (rq_dt (snd x)) = (rq_qty (snd x), True)
     \<and> unat (req_addr x) + unat (rq_qty (snd x)) < 2 ^ 16"

definition batch_covers :: "read_batch \<Rightarrow> nat \<times> batch_req \<Rightarrow> bool" where
  "batch_covers b x \<longleftrightarrow> ma_area (rq_ai (snd x)) = rb_area b \<and> rb_start b \<le> req_addr x
     \<and> unat (req_addr x) + unat (rq_qty (snd x)) \<le> unat (rb_start b) + unat (rb_qty b)"

definition batch_ok :: "read_batch \<Rightarrow> bool" where
  "batch_ok b \<longleftrightarrow> rb_reqs b \<noteq> [] \<and> rb_qty b \<le> modbusMaxBatchSize
     \<and> unat (rb_start b) + unat (rb_qty b) < 2 ^ 16 \<and> (\<forall>x\<in>set (rb_reqs b). batch_covers b x)"

lemma qty_bound: "batchQuantity ai dt = (q, True) \<Longrightarrow> q \<le> modbusMaxBatchSize"
  by (auto simp: batchQuantity_def modbusMaxBatchSize_def word_le_nat_alt split: if_splits)

lemma single_batch_ok:
  assumes "req_ok x" "ma_area (rq_ai (snd x)) = area"
  shows "batch_ok \<lparr>rb_area = area, rb_start = req_addr x, rb_qty = rq_qty (snd x), rb_reqs = [x]\<rparr>"
  using assms qty_bound by (auto simp: req_ok_def batch_ok_def batch_covers_def)

lemma extend_batch_ok:
  assumes b: "batch_ok cur" and e: "unat e = unat (rb_start cur) + unat (rb_qty cur)"
    and x: "req_ok x" "ma_area (rq_ai (snd x)) = rb_area cur" "rb_start cur \<le> req_addr x"
    and m: "m = (if req_addr x + rq_qty (snd x) > e then req_addr x + rq_qty (snd x) else e)"
    and q: "m - rb_start cur \<le> modbusMaxBatchSize"
  shows "batch_ok (cur\<lparr>rb_reqs := rb_reqs cur @ [x], rb_qty := m - rb_start cur\<rparr>)
    \<and> unat m = unat (rb_start cur) + unat (m - rb_start cur)"
proof -
  have te: "unat (req_addr x + rq_qty (snd x)) = unat (req_addr x) + unat (rq_qty (snd x))"
    using x(1) unat_add_lem [of "req_addr x" "rq_qty (snd x)"] by (simp add: req_ok_def)
  have um: "unat m = max (unat (req_addr x) + unat (rq_qty (snd x))) (unat e)"
    by (simp add: m word_less_nat_alt te max_def)
  have "rb_start cur \<le> m" using e um by (simp add: word_le_nat_alt)
  then have mq: "unat (m - rb_start cur) = unat m - unat (rb_start cur)" by (simp add: unat_sub)
  have len: "unat m = unat (rb_start cur) + unat (m - rb_start cur)"
    using mq e um by simp
  have "unat m < 2 ^ 16" using unsigned_less [of m, where ?'a = nat] by simp
  moreover have "batch_covers (cur\<lparr>rb_reqs := rb_reqs cur @ [x], rb_qty := m - rb_start cur\<rparr>) y"
    if "y \<in> set (rb_reqs cur @ [x])" for y
    using that b x e um len by (auto simp: batch_ok_def batch_covers_def)
  ultimately show ?thesis using b q len by (auto simp: batch_ok_def)
qed

lemma merge_loop_ok:
  assumes "batch_ok cur" "unat e = unat (rb_start cur) + unat (rb_qty cur)"
    and "\<forall>x\<in>set xs. req_ok x \<and> ma_area (rq_ai (snd x)) = rb_area cur \<and> rb_start cur \<le> req_addr x"
    and "sorted (map req_addr xs)"
  shows "concat (map rb_reqs (merge_loop modbusMaxBatchSize xs cur e)) = rb_reqs cur @ xs
    \<and> (\<forall>b\<in>set (merge_loop modbusMaxBatchSize xs cur e). batch_ok b \<and> rb_area b = rb_area cur)"
  using assms
proof (induction xs arbitrary: cur e)
  case Nil
  then show ?case by simp
next
  case (Cons x xs)
  define m where "m = (if req_addr x + rq_qty (snd x) > e then req_addr x + rq_qty (snd x) else e)"
  show ?case
  proof (cases "req_addr x \<le> e \<and> m - rb_start cur \<le> modbusMaxBatchSize")
    case True
    define cur' where "cur' = cur\<lparr>rb_reqs := rb_reqs cur @ [x], rb_qty := m - rb_start cur\<rparr>"
    have c': "batch_ok cur'" "unat m = unat (rb_start cur') + unat (rb_qty cur')"
      using extend_batch_ok [OF Cons.prems(1,2) _ _ _ m_def] Cons.prems(3) True by (simp_all add: cur'_def)
    have st: "merge_loop modbusMaxBatchSize (x # xs) cur e = merge_loop modbusMaxBatchSize xs cur' m"
      using True by (simp add: m_def cur'_def Let_def)
    show ?thesis
      unfolding st using Cons.IH [OF c'] Cons.prems(3,4) by (simp add: cur'_def)
  next
    case False
    define new where "new = \<lparr>rb_area = rb_area cur, rb_start = req_addr x, rb_qty = rq_qty (snd x), rb_reqs = [x]\<rparr>"
    have x: "req_ok x" "ma_area (rq_ai (snd x)) = rb_area cur" using Cons.prems(3) by simp_all
    have n: "batch_ok new" unfolding new_def by (rule single_batch_ok [OF x])
    have ne: "unat (req_addr x + rq_qty (snd x)) = unat (rb_start new) + unat (rb_qty new)"
      using x(1) unat_add_lem [of "req_addr x" "rq_qty (snd x)"] by (simp add: req_ok_def new_def)
    have st: "merge_loop modbusMaxBatchSize (x # xs) cur e = cur # merge_loop modbusMaxBatchSize xs new (req_addr x + rq_qty (snd x))"
      using False by (auto simp: m_def new_def Let_def)
    show ?thesis
      unfolding st using Cons.IH [OF n ne] Cons.prems(1,3,4) by (simp add: new_def)
  qed
qed

lemma mergeBatches_ok:
  assumes "\<forall>x\<in>set xs. req_ok x \<and> ma_area (rq_ai (snd x)) = area" "sorted (map req_addr xs)"
  shows "concat (map rb_reqs (mergeBatches modbusMaxBatchSize area xs)) = xs
    \<and> (\<forall>b\<in>set (mergeBatches modbusMaxBatchSize area xs). batch_ok b \<and> rb_area b = area)"
proof (cases xs)
  case Nil
  then show ?thesis by (simp add: mergeBatches_def)
next
  case (Cons x rest)
  have x: "req_ok x" "ma_area (rq_ai (snd x)) = area" using assms(1) Cons by simp_all
  have e: "unat (req_addr x + rq_qty (snd x)) = unat (req_addr x) + unat (rq_qty (snd x))"
    using x(1) unat_add_lem [of "req_addr x" "rq_qty (snd x)"] by (simp add: req_ok_def)
  show ?thesis
    using merge_loop_ok [OF single_batch_ok [OF x], of "req_addr x + rq_qty (snd x)" rest] e assms Cons
    by (simp add: mergeBatches_def)
qed

section \<open>Reading a batch\<close>

abbreviation req_value :: "mb_memory \<Rightarrow> nat \<times> batch_req \<Rightarrow> go_value" where
  "req_value mem x \<equiv> device_value mem (rq_ai (snd x)) (rq_dt (snd x))"

lemma offset_in_batch:
  assumes "batch_covers b x"
  shows "unat (req_addr x - rb_start b) + unat (rq_qty (snd x)) \<le> unat (rb_qty b)"
    and "rb_start b + word_of_nat (unat (req_addr x - rb_start b) + i) = req_addr x + word_of_nat i"
proof -
  have "unat (req_addr x - rb_start b) = unat (req_addr x) - unat (rb_start b)"
    using assms by (simp add: batch_covers_def unat_sub)
  then show "unat (req_addr x - rb_start b) + unat (rq_qty (snd x)) \<le> unat (rb_qty b)"
    using assms by (auto simp: batch_covers_def word_le_nat_alt)
  show "rb_start b + word_of_nat (unat (req_addr x - rb_start b) + i) = req_addr x + word_of_nat i"
    by simp
qed

lemma reg_at_cells:
  assumes "off + n \<le> q"
  shows "reg_at (cells f a q) off n g = Inr (g (map (\<lambda>i. f (a + word_of_nat (off + i))) [0..<n]))"
proof -
  have "take n (drop off (cells f a q)) = map (\<lambda>i. f (a + word_of_nat (off + i))) [0..<n]"
    using assms by (intro nth_equalityI) auto
  then show ?thesis using assms by (simp add: reg_at_def)
qed

lemma quantities:
  assumes "batchQuantity ai dt = (q, True)" "\<not> bit_area (ma_area ai)"
  shows "dt = TypeBool \<or> dt = TypeUint16 \<or> dt = TypeInt16 \<Longrightarrow> unat q = 1"
    and "dt = TypeUint32 \<or> dt = TypeInt32 \<or> dt = TypeFloat32 \<Longrightarrow> unat q = 2"
    and "dt = TypeFloat64 \<or> dt = TypeUint64 \<or> dt = TypeInt64 \<Longrightarrow> unat q = 4"
    and "dt \<in> {TypeBool, TypeUint16, TypeInt16, TypeUint32, TypeInt32, TypeFloat32, TypeFloat64, TypeUint64, TypeInt64}"
  using assms by (auto simp: batchQuantity_def split: if_splits)

lemma extract_register:
  assumes c: "batch_covers b x" and r: "req_ok x" and na: "\<not> bit_area (rb_area b)"
  shows "extractRegisterValue (cells (mm_regs mem (regType (rb_area b))) (rb_start b) (unat (rb_qty b)))
      (unat (req_addr x - rb_start b)) (rq_dt (snd x)) = Inr (req_value mem x)"
proof -
  have area: "ma_area (rq_ai (snd x)) = rb_area b" using c by (simp add: batch_covers_def)
  have q: "batchQuantity (rq_ai (snd x)) (rq_dt (snd x)) = (rq_qty (snd x), True)" using r by (simp add: req_ok_def)
  have na': "\<not> bit_area (ma_area (rq_ai (snd x)))" using na area by simp
  note k = quantities [OF q na']
  have g: "reg_at (cells (mm_regs mem (regType (rb_area b))) (rb_start b) (unat (rb_qty b))) (unat (req_addr x - rb_start b)) n f =
      Inr (f (map (\<lambda>i. mm_regs mem (regType (rb_area b)) (req_addr x + word_of_nat i)) [0..<n]))"
    if "n = unat (rq_qty (snd x))" for n f
    using offset_in_batch(1) [OF c] that by (simp only: reg_at_cells offset_in_batch(2) [OF c])
  have "rb_area b \<noteq> AreaCoil" "rb_area b \<noteq> AreaDiscreteInput" using na by (simp_all add: bit_area_def)
  with k(4) show ?thesis
    by (elim insertE emptyE; simp add: extractRegisterValue_def g k(1-3) device_value_def Let_def area)
qed

lemma decode_batch_ok:
  "\<forall>x\<in>set xs. ex (unat (req_addr x - start)) (rq_dt (snd x)) = Inr (f x) \<Longrightarrow>
   decode_batch ex start xs = BOk (map (\<lambda>x. (fst x, f x)) xs)"
  by (induction xs) auto

definition batch_values :: "mb_memory \<Rightarrow> (nat \<times> batch_req) list \<Rightarrow> (nat \<times> go_value) list" where
  "batch_values mem xs = map (\<lambda>x. (fst x, req_value mem x)) xs"

lemma extract_bits:
  assumes c: "batch_covers b x" and r: "req_ok x" and a: "bit_area (rb_area b)"
    and m: "req_value mem x = VBool (g (req_addr x))"
  shows "extract_bit (cells g (rb_start b) (unat (rb_qty b))) (unat (req_addr x - rb_start b)) = Inr (req_value mem x)"
proof -
  have "ma_area (rq_ai (snd x)) = rb_area b" using c by (simp add: batch_covers_def)
  then have "unat (rq_qty (snd x)) = 1" using r a by (auto simp: req_ok_def batchQuantity_def split: if_splits)
  then have "unat (req_addr x - rb_start b) < unat (rb_qty b)" using offset_in_batch(1) [OF c] by simp
  then show ?thesis using offset_in_batch(2) [OF c, of 0] by (simp add: extract_bit_def m)
qed

lemma readBatch_ok:
  assumes srv: "mb_serves fails cl mem" and b: "batch_ok b" and r: "\<forall>x\<in>set (rb_reqs b). req_ok x"
  shows "fst (readBatch cl client b p) = BOk (batch_values mem (rb_reqs b))
    \<or> (fails \<or> client = None) \<and> (\<exists>e. fst (readBatch cl client b p) = BErr e)"
proof (cases client)
  case None
  then show ?thesis by (simp add: readBatch_def)
next
  case (Some c)
  have cov: "\<forall>x\<in>set (rb_reqs b). batch_covers b x" using b by (simp add: batch_ok_def)
  consider "rb_area b = AreaCoil" | "rb_area b = AreaDiscreteInput" | "\<not> bit_area (rb_area b)"
    by (auto simp: bit_area_def)
  then show ?thesis
  proof cases
    case 1
    have "\<forall>x\<in>set (rb_reqs b). extract_bit (cells (mm_coils mem) (rb_start b) (unat (rb_qty b)))
        (unat (req_addr x - rb_start b)) = Inr (req_value mem x)"
    proof
      fix x
      assume x: "x \<in> set (rb_reqs b)"
      then have "req_value mem x = VBool (mm_coils mem (req_addr x))"
        using cov 1 by (auto simp: device_value_def batch_covers_def)
      then show "extract_bit (cells (mm_coils mem) (rb_start b) (unat (rb_qty b))) (unat (req_addr x - rb_start b)) = Inr (req_value mem x)"
        using cov r 1 x by (intro extract_bits) (simp_all add: bit_area_def)
    qed
    note d = decode_batch_ok [where ex = "\<lambda>off _. extract_bit (cells (mm_coils mem) (rb_start b) (unat (rb_qty b))) off", OF this]
    show ?thesis
      by (rule answers_cases [OF serves_reads(1) [OF srv, of "rb_start b" "rb_qty b" c p]])
        (simp_all add: readBatch_def Some 1 bit_area_def wrap_err_def d batch_values_def)
  next
    case 2
    have "\<forall>x\<in>set (rb_reqs b). extract_bit (cells (mm_inputs mem) (rb_start b) (unat (rb_qty b)))
        (unat (req_addr x - rb_start b)) = Inr (req_value mem x)"
    proof
      fix x
      assume x: "x \<in> set (rb_reqs b)"
      then have "req_value mem x = VBool (mm_inputs mem (req_addr x))"
        using cov 2 by (auto simp: device_value_def batch_covers_def)
      then show "extract_bit (cells (mm_inputs mem) (rb_start b) (unat (rb_qty b))) (unat (req_addr x - rb_start b)) = Inr (req_value mem x)"
        using cov r 2 x by (intro extract_bits) (simp_all add: bit_area_def)
    qed
    note d = decode_batch_ok [where ex = "\<lambda>off _. extract_bit (cells (mm_inputs mem) (rb_start b) (unat (rb_qty b))) off", OF this]
    show ?thesis
      by (rule answers_cases [OF serves_reads(2) [OF srv, of "rb_start b" "rb_qty b" c p]])
        (simp_all add: readBatch_def Some 2 bit_area_def wrap_err_def d batch_values_def)
  next
    case 3
    have "\<forall>x\<in>set (rb_reqs b). extractRegisterValue (cells (mm_regs mem (regType (rb_area b))) (rb_start b) (unat (rb_qty b)))
        (unat (req_addr x - rb_start b)) (rq_dt (snd x)) = Inr (req_value mem x)"
      using cov r 3 extract_register by blast
    note d = decode_batch_ok [OF this]
    show ?thesis
      by (rule answers_cases [OF serves_reads(6) [OF srv, of "regType (rb_area b)" "rb_start b" "rb_qty b" c p]])
        (simp_all add: readBatch_def Some 3 wrap_err_def d batch_values_def)
  qed
qed

section \<open>Retries\<close>

definition same_setup :: "modbus_driver \<Rightarrow> modbus_driver \<Rightarrow> bool" where
  "same_setup d d' \<longleftrightarrow> md_maxRetry d' = md_maxRetry d"

text \<open>Other goroutines do not change the retry setting while a read waits.\<close>

definition await_ok :: "'p await \<Rightarrow> bool" where
  "await_ok await \<longleftrightarrow>
     (\<forall>d p. case await d p of CtxDone _ d' _ \<Rightarrow> same_setup d d' | Elapsed d' _ \<Rightarrow> same_setup d d')"

lemma same_setup_refl [simp]: "same_setup d d"
  by (simp add: same_setup_def)

lemma same_setup_trans: "same_setup a b \<Longrightarrow> same_setup b c \<Longrightarrow> same_setup a c"
  by (simp add: same_setup_def)

lemma same_setup_lost [simp]: "same_setup d0 (snd (HandleConnectionLost d)) \<longleftrightarrow> same_setup d0 d"
  by (simp add: same_setup_def HandleConnectionLost_def)

lemma same_setup_lost_current [simp]: "same_setup d0 (snd (handleConnLostIfCurrent c d)) \<longleftrightarrow> same_setup d0 d"
  by (simp add: same_setup_def handleConnLostIfCurrent_def HandleConnectionLost_def)

lemma same_setup_failed [simp]: "same_setup d0 (tag_failed cl e client d) \<longleftrightarrow> same_setup d0 d"
  by (simp add: tag_failed_def same_setup_def recordException_def RecordError_def HandleConnectionLost_def Let_def
      split: mb_error.split)

definition values_ok :: "mb_memory \<Rightarrow> (nat \<times> batch_req) set \<Rightarrow> (nat \<times> go_value) list \<Rightarrow> bool" where
  "values_ok mem X vs \<longleftrightarrow> (\<forall>(i, v)\<in>set vs. \<exists>r. (i, r) \<in> X \<and> v = req_value mem (i, r))"

lemma batch_values_ok: "set xs \<subseteq> X \<Longrightarrow> values_ok mem X (batch_values mem xs)"
  by (force simp: values_ok_def batch_values_def)

lemma values_ok_append: "values_ok mem X (vs @ ws) \<longleftrightarrow> values_ok mem X vs \<and> values_ok mem X ws"
  unfolding values_ok_def by (simp add: ball_Un)

text \<open>What one call of the batch or single reader may do to the client and the driver.\<close>

definition client_ok :: "bool \<Rightarrow> nat option \<Rightarrow> nat option \<Rightarrow> modbus_driver \<Rightarrow> modbus_driver \<Rightarrow> bool" where
  "client_ok fails client client' d d' \<longleftrightarrow>
     same_setup d d' \<and> (\<not> fails \<longrightarrow> client \<noteq> None \<longrightarrow> client' = client)"

lemma client_ok_same [simp]: "client_ok fails c c d d"
  by (simp add: client_ok_def)

lemma client_ok_fails: "fails \<Longrightarrow> same_setup d d' \<Longrightarrow> client_ok fails c c' d d'"
  by (simp add: client_ok_def)

lemma await_cases:
  assumes "await_ok await"
  obtains msg d' p' where "await d p = CtxDone msg d' p'" "same_setup d d'"
  | d' p' where "await d p = Elapsed d' p'" "same_setup d d'"
  using assms unfolding await_ok_def by (cases "await d p") (metis await_result.case)+

lemma batch_attempts_ok:
  assumes srv: "mb_serves fails cl mem" and aw: "await_ok await" and b: "batch_ok b" "\<forall>x\<in>set (rb_reqs b). req_ok x"
    and c: "client \<noteq> None \<or> fails" and X: "set (rb_reqs b) \<subseteq> X"
    and r: "batch_attempts cl await b n client d p = (r, client', d', p')"
  shows "client_ok fails client client' d d' \<and> (client' \<noteq> None \<or> fails) \<and>
    (case r of BPanic \<Rightarrow> False | BErr _ \<Rightarrow> fails | BOk vs \<Rightarrow> values_ok mem X vs)"
  using c r
proof (induction n arbitrary: client d p)
  case 0
  then show ?case by (auto simp: values_ok_def)
next
  case (Suc n)
  obtain r1 p1 where r1: "readBatch cl client b p = (r1, p1)" by (rule prod.exhaust)
  consider "r1 = BOk (batch_values mem (rb_reqs b))" | e where "fails" "r1 = BErr e"
    using readBatch_ok [OF srv b, of client p] r1 Suc.prems(1) by auto
  then show ?case
  proof cases
    case 1
    then show ?thesis using Suc.prems r1 batch_values_ok [OF X] by auto
  next
    case (2 e)
    show ?thesis
    proof (cases "n > 0 \<and> conn_error cl e")
      case False
      then show ?thesis using 2 Suc.prems r1 by auto
    next
      case True
      from aw show ?thesis
      proof (cases rule: await_cases [where d = d and p = p1])
        case (1 msg d1 p2)
        then show ?thesis using 2 Suc.prems r1 True by (auto simp: client_ok_def)
      next
        case el: (2 d1 p2)
        show ?thesis
        proof (cases "bd_conn d1 = None")
          case True
          then show ?thesis using 2 el Suc.prems r1 \<open>n > 0 \<and> conn_error cl e\<close> by (auto simp: client_ok_def)
        next
          case False
          then obtain k where "bd_conn d1 = Some k" by blast
          then have "batch_attempts cl await b n (bd_conn d1) d1 p2 = (r, client', d', p')"
            using 2 el Suc.prems r1 True by simp
          from Suc.IH [OF _ this] False 2(1) el(2) show ?thesis
            by (auto simp: client_ok_def intro: same_setup_trans)
        qed
      qed
    qed
  qed
qed

lemma read_all_batches_ok:
  assumes srv: "mb_serves fails cl mem" and aw: "await_ok await"
  shows "\<forall>b\<in>set bs. batch_ok b \<and> (\<forall>x\<in>set (rb_reqs b). req_ok x) \<and> set (rb_reqs b) \<subseteq> X \<Longrightarrow>
    client \<noteq> None \<or> fails \<Longrightarrow> values_ok mem X vals \<Longrightarrow>
    \<exists>vals' client' d' p'. read_all_batches cl await bs vals client d p = Some (vals', client', d', p')
      \<and> values_ok mem X vals' \<and> client_ok fails client client' d d' \<and> (client' \<noteq> None \<or> fails)"
proof (induction bs arbitrary: vals client d p)
  case Nil
  then show ?case by simp
next
  case (Cons b bs)
  obtain r c1 d1 p1 where r: "readBatchWithRetry cl await b client d p = (r, c1, d1, p1)" by (rule prod_cases4)
  have ok: "client_ok fails client c1 d d1 \<and> (c1 \<noteq> None \<or> fails) \<and>
      (case r of BPanic \<Rightarrow> False | BErr _ \<Rightarrow> fails | BOk vs \<Rightarrow> values_ok mem X vs)"
    using Cons.prems(1,2) r unfolding readBatchWithRetry_def by (intro batch_attempts_ok [OF srv aw]) auto
  have IH: "\<exists>vals' client' d' p'. read_all_batches cl await bs w c1 d1 p1 = Some (vals', client', d', p')
      \<and> values_ok mem X vals' \<and> client_ok fails client client' d d' \<and> (client' \<noteq> None \<or> fails)"
    if w: "values_ok mem X w" for w
  proof -
    obtain vals' client' d' p' where 1: "read_all_batches cl await bs w c1 d1 p1 = Some (vals', client', d', p')"
      "values_ok mem X vals'" "client_ok fails c1 client' d1 d'" "client' \<noteq> None \<or> fails"
      using Cons.IH [of c1 w d1 p1] Cons.prems(1) ok w by auto
    moreover have "client_ok fails client client' d d'"
      using 1(3) ok Cons.prems(2) by (auto simp: client_ok_def same_setup_def)
    ultimately show ?thesis by blast
  qed
  show ?case
  proof (cases r)
    case BPanic
    then show ?thesis using ok by simp
  next
    case (BErr e)
    then show ?thesis using ok r IH [OF Cons.prems(3)] Cons.prems(3) by (auto simp: client_ok_def)
  next
    case (BOk vs)
    then have "values_ok mem X (vs @ vals)" using ok Cons.prems(3) by (simp add: values_ok_append)
    from IH [OF this] show ?thesis using r BOk by simp
  qed
qed

lemma tag_attempts_ok:
  assumes srv: "mb_serves fails cl mem" and aw: "await_ok await" and sup: "supported (rq_ai r) (rq_dt r)"
    and c: "client \<noteq> None \<or> fails" and n: "0 < n"
    and r: "tag_attempts cl await r n client d p = (s, client', d', p')"
  shows "client_ok fails client client' d d' \<and> (client' \<noteq> None \<or> fails) \<and>
    (case s of SAbort _ \<Rightarrow> fails | SErr _ \<Rightarrow> fails | SOk v \<Rightarrow> v = device_value mem (rq_ai r) (rq_dt r))"
  using c n r
proof (induction n arbitrary: client d p)
  case 0
  then show ?case by simp
next
  case (Suc n)
  from readTag_answers [OF srv sup Suc.prems(1), of "rq_name r" p] show ?case
  proof (cases rule: answers_cases)
    case (1 p1)
    then show ?thesis using Suc.prems by auto
  next
    case (2 e p1)
    show ?thesis
    proof (cases "n > 0 \<and> conn_error cl e")
      case False
      then show ?thesis using 2 Suc.prems by auto
    next
      case True
      from aw show ?thesis
      proof (cases rule: await_cases [where d = d and p = p1])
        case (1 msg d1 p2)
        then show ?thesis using 2 Suc.prems True by (auto simp: client_ok_def split: option.splits if_splits)
      next
        case el: (2 d1 p2)
        show ?thesis
        proof (cases "bd_conn d1 = None")
          case True
          then show ?thesis using 2 el Suc.prems \<open>n > 0 \<and> conn_error cl e\<close> by (auto simp: client_ok_def)
        next
          case False
          then obtain k where "bd_conn d1 = Some k" by blast
          then have "tag_attempts cl await r n (bd_conn d1) d1 p2 = (s, client', d', p')"
            using 2 el Suc.prems True by simp
          from Suc.IH [OF _ _ this] False True 2(1) el(2) show ?thesis
            by (auto simp: client_ok_def intro: same_setup_trans)
        qed
      qed
    qed
  qed
qed

end
