(* ===== verification/Modbus_Correct.thy ===== *)
theory Modbus_Correct
  imports Modbus_Props
begin

text \<open>
  The properties of the Modbus drivers as a whole: \<^verbatim>\<open>Read\<close> against the memory of the device, writes,
  and the corner cases in which the code does not do what it means to.
\<close>

section \<open>Requests\<close>

definition setup_ok :: "modbus_driver \<Rightarrow> bool" where
  "setup_ok d \<longleftrightarrow> 0 \<le> md_maxRetry d
     \<and> (\<forall>n cfg ai. md_tags d n = Some cfg \<longrightarrow> md_addrs d n = Some ai \<longrightarrow>
          supported ai (parse_data_type_or_zero (tc_type cfg)) \<and> unat (ma_addr ai) \<le> 65531)"

lemma resolve_req_ok:
  assumes "setup_ok d" "resolve_req d n = Some r"
  shows "rq_name r = n \<and> supported (rq_ai r) (rq_dt r) \<and> req_ok (i, r)"
proof -
  obtain cfg ai where c: "md_tags d n = Some cfg" "md_addrs d n = Some ai"
    using assms(2) by (auto simp: resolve_req_def split: option.splits)
  define dt where "dt = parse_data_type_or_zero (tc_type cfg)"
  have s: "supported ai dt" "unat (ma_addr ai) \<le> 65531" using assms(1) c by (auto simp: setup_ok_def dt_def)
  obtain q where q: "batchQuantity ai dt = (q, True)" using s(1) by (cases "batchQuantity ai dt") (auto simp: supported_def)
  have "unat q \<le> 4" using q by (auto simp: batchQuantity_def split: if_splits)
  moreover have "r = \<lparr>rq_name = n, rq_cfg = cfg, rq_ai = ai, rq_dt = dt, rq_qty = q, rq_batchable = True\<rparr>"
    using assms(2) c q by (simp add: resolve_req_def dt_def)
  ultimately show ?thesis using s q by (simp add: req_ok_def)
qed

definition valid_reqs :: "batch_req option list \<Rightarrow> (nat \<times> batch_req) set" where
  "valid_reqs reqs = {(i, r). i < length reqs \<and> reqs ! i = Some r}"

lemma set_map_filter_iff: "y \<in> set (List.map_filter f xs) \<longleftrightarrow> (\<exists>x\<in>set xs. f x = Some y)"
  by (induction xs) (auto simp: List.map_filter_def)

lemma area_group_reqs:
  assumes "x \<in> set (area_group reqs area)"
  shows "x \<in> valid_reqs reqs \<and> ma_area (rq_ai (snd x)) = area"
  using assms
  by (auto simp: area_group_def set_map_filter_iff in_set_enumerate_eq valid_reqs_def split: option.splits if_splits)

lemma area_group_sorted: "sorted (map req_addr (area_group reqs area))"
  unfolding area_group_def by (rule sorted_sort_key)

lemma reqs_ok:
  assumes "setup_ok d" "x \<in> valid_reqs (map (resolve_req d) tags)"
  shows "req_ok x"
  using assms resolve_req_ok [OF assms(1), of _ "snd x" "fst x"] by (auto simp: valid_reqs_def)

lemma performBatchReads_ok:
  assumes srv: "mb_serves fails cl mem" and aw: "await_ok await" and d: "setup_ok d" and c: "client \<noteq> None \<or> fails"
  shows "\<exists>vals client' d' p'.
    performBatchReads cl await order (map (resolve_req d) tags) client d p = Some (vals, client', d', p')
    \<and> values_ok mem (valid_reqs (map (resolve_req d) tags)) vals
    \<and> client_ok fails client client' d d' \<and> (client' \<noteq> None \<or> fails)"
  unfolding performBatchReads_def
proof (rule read_all_batches_ok [OF srv aw _ c])
  let ?reqs = "map (resolve_req d) tags"
  have g: "\<forall>x\<in>set (area_group ?reqs area). req_ok x \<and> ma_area (rq_ai (snd x)) = area" for area
    using area_group_reqs reqs_ok [OF d] by blast
  show "\<forall>b\<in>set (concat (map (\<lambda>area. mergeBatches modbusMaxBatchSize area (area_group ?reqs area)) order)).
      batch_ok b \<and> (\<forall>x\<in>set (rb_reqs b). req_ok x) \<and> set (rb_reqs b) \<subseteq> valid_reqs ?reqs"
  proof
    fix b
    assume "b \<in> set (concat (map (\<lambda>area. mergeBatches modbusMaxBatchSize area (area_group ?reqs area)) order))"
    then obtain area where b: "b \<in> set (mergeBatches modbusMaxBatchSize area (area_group ?reqs area))" by auto
    note m = mergeBatches_ok [OF g area_group_sorted, of area]
    have "set (rb_reqs b) \<subseteq> set (concat (map rb_reqs (mergeBatches modbusMaxBatchSize area (area_group ?reqs area))))"
      using b by auto
    then have "set (rb_reqs b) \<subseteq> set (area_group ?reqs area)" using m by simp
    with b m g area_group_reqs
    show "batch_ok b \<and> (\<forall>x\<in>set (rb_reqs b). req_ok x) \<and> set (rb_reqs b) \<subseteq> valid_reqs ?reqs" by blast
  qed
  show "values_ok mem (valid_reqs ?reqs) []" by (simp add: values_ok_def)
qed

section \<open>Assembling the results\<close>

definition item_ok :: "mb_memory \<Rightarrow> (nat \<times> go_value) list \<Rightarrow> nat \<Rightarrow> string \<times> batch_req option \<Rightarrow> bool" where
  "item_ok mem vals i x \<longleftrightarrow>
     (\<forall>r. snd x = Some r \<longrightarrow> rq_name r = fst x \<and> supported (rq_ai r) (rq_dt r)
        \<and> (\<forall>v. map_of vals i = Some v \<longrightarrow> v = device_value mem (rq_ai r) (rq_dt r)))"

definition item_value :: "mb_memory \<Rightarrow> time \<Rightarrow> string \<times> batch_req option \<Rightarrow> tag_value" where
  "item_value mem now x =
     (case snd x of
        None \<Rightarrow> mb_bad (fst x) now (''tag not found: '' @ fst x)
      | Some r \<Rightarrow> mb_good r (device_value mem (rq_ai r) (rq_dt r)) now)"

definition item_allowed :: "bool \<Rightarrow> mb_memory \<Rightarrow> time \<Rightarrow> string \<times> batch_req option \<Rightarrow> tag_value \<Rightarrow> bool" where
  "item_allowed fails mem now x v \<longleftrightarrow> v = item_value mem now x \<or> fails \<and> (\<exists>e. v = mb_bad (fst x) now e)"

lemma assemble_ok:
  assumes srv: "mb_serves fails cl mem" and aw: "await_ok await"
  shows "\<forall>j<length items. item_ok mem vals (i + j) (items ! j) \<Longrightarrow> client \<noteq> None \<or> fails \<Longrightarrow> 0 \<le> md_maxRetry d \<Longrightarrow>
    assemble cl await now vals i items client d p = (res, d', p') \<Longrightarrow>
    (case res of Inl _ \<Rightarrow> fails | Inr vs \<Rightarrow> list_all2 (item_allowed fails mem now) items vs)"
proof (induction items arbitrary: i client d p res d' p')
  case Nil
  then show ?case by auto
next
  case (Cons x items)
  obtain n ro where x: "x = (n, ro)" by (rule prod.exhaust)
  have tl: "\<forall>j<length items. item_ok mem vals (i + 1 + j) (items ! j)"
    using Cons.prems(1) by (metis Suc_less_eq add_Suc_right add_Suc length_Cons nth_Cons_Suc plus_1_eq_Suc add.commute)
  have hd: "item_ok mem vals i x" using Cons.prems(1) by (metis add.right_neutral length_Cons nth_Cons_0 zero_less_Suc)
  have step: "case res of Inl _ \<Rightarrow> fails | Inr vs \<Rightarrow> list_all2 (item_allowed fails mem now) (x # items) vs"
    if c1: "c1 \<noteq> None \<or> fails" and d1: "0 \<le> md_maxRetry d1" and v: "item_allowed fails mem now x v"
      and eq: "assemble cl await now vals i (x # items) client d p =
        (case assemble cl await now vals (i + 1) items c1 d1 p1 of
           (Inr vs, d, p) \<Rightarrow> (Inr (v # vs), d, p) | (Inl e, d, p) \<Rightarrow> (Inl e, d, p))" for c1 d1 p1 v
  proof -
    obtain r2 d2 p2 where r2: "assemble cl await now vals (i + 1) items c1 d1 p1 = (r2, d2, p2)" by (rule prod_cases3)
    from Cons.IH [OF tl c1 d1 r2] eq r2 v Cons.prems(4) show ?thesis by (cases r2) auto
  qed
  show ?case
  proof (cases ro)
    case None
    show ?thesis
      by (rule step [OF Cons.prems(2,3), where ?p1.0 = p and v = "mb_bad n now (''tag not found: '' @ n)"])
        (auto simp: x None item_allowed_def item_value_def split: prod.split sum.split)
  next
    case (Some r)
    have r: "rq_name r = n" "supported (rq_ai r) (rq_dt r)"
      "\<And>v. map_of vals i = Some v \<Longrightarrow> v = device_value mem (rq_ai r) (rq_dt r)"
      using hd by (auto simp: item_ok_def x Some)
    have good: "item_allowed fails mem now x (mb_good r (device_value mem (rq_ai r) (rq_dt r)) now)"
      by (simp add: item_allowed_def item_value_def x Some)
    show ?thesis
    proof (cases "map_of vals i")
      case (Some v)
      show ?thesis
        by (rule step [OF Cons.prems(2,3) good, where ?p1.0 = p])
          (auto simp: x \<open>ro = Some r\<close> Some r(3) [OF Some, symmetric] split: prod.splits sum.splits)
    next
      case None
      obtain s c1 d1 p1 where s: "readTagWithRetry cl await r client d p = (s, c1, d1, p1)" by (rule prod_cases4)
      have "0 < nat (md_maxRetry d + 1)" using Cons.prems(3) by simp
      from tag_attempts_ok [OF srv aw r(2) Cons.prems(2) this] s
      have t: "client_ok fails client c1 d d1" "c1 \<noteq> None \<or> fails"
        "case s of SAbort _ \<Rightarrow> fails | SErr _ \<Rightarrow> fails | SOk v \<Rightarrow> v = device_value mem (rq_ai r) (rq_dt r)"
        unfolding readTagWithRetry_def by blast+
      have d1: "0 \<le> md_maxRetry d1" using t(1) Cons.prems(3) by (simp add: client_ok_def same_setup_def)
      show ?thesis
      proof (cases s)
        case (SAbort msg)
        then show ?thesis using Cons.prems(4) t(3) s None by (auto simp: x \<open>ro = Some r\<close>)
      next
        case (SErr e)
        have "md_maxRetry (tag_failed cl e c1 d1) = md_maxRetry d1"
          using same_setup_failed [of d1 cl e c1 d1] by (simp add: same_setup_def)
        with d1 have d2: "0 \<le> md_maxRetry (tag_failed cl e c1 d1)" by simp
        show ?thesis
          by (rule step [OF t(2) d2, where ?p1.0 = p1 and v = "mb_bad n now (err_text (exception_text cl) e)"])
            (use s None SErr t(3) in \<open>auto simp: x \<open>ro = Some r\<close> item_allowed_def split: prod.splits sum.splits\<close>)
      next
        case (SOk v)
        show ?thesis
          by (rule step [OF t(2) d1 good, where ?p1.0 = p1])
            (use s None SOk t(3) in \<open>auto simp: x \<open>ro = Some r\<close> split: prod.splits sum.splits\<close>)
      qed
    qed
  qed
qed

lemma modbus_Read_ok:
  assumes srv: "mb_serves fails cl mem" and aw: "await_ok await" and d: "setup_ok d"
    and st: "bd_state d = StateConnected" "bd_conn d \<noteq> None"
  obtains res d' p' where "modbus_Read cl await order now tags d p = Some (res, d', p')"
    and "case res of Inl _ \<Rightarrow> fails | Inr vs \<Rightarrow> list_all2 (item_allowed fails mem now) (map (\<lambda>n. (n, resolve_req d n)) tags) vs"
proof -
  let ?reqs = "map (resolve_req d) tags"
  have z: "zip tags ?reqs = map (\<lambda>n. (n, resolve_req d n)) tags" by (induction tags) simp_all
  have c: "bd_conn d \<noteq> None \<or> fails" using st(2) by simp
  obtain vals c1 d1 p1 where b: "performBatchReads cl await order ?reqs (bd_conn d) d p = Some (vals, c1, d1, p1)"
    "values_ok mem (valid_reqs ?reqs) vals" "client_ok fails (bd_conn d) c1 d d1" "c1 \<noteq> None \<or> fails"
    using performBatchReads_ok [OF srv aw d c, of order tags p] by blast
  have items: "\<forall>j<length (zip tags ?reqs). item_ok mem vals (0 + j) (zip tags ?reqs ! j)"
  proof (intro allI impI)
    fix j
    assume j: "j < length (zip tags ?reqs)"
    show "item_ok mem vals (0 + j) (zip tags ?reqs ! j)"
      unfolding item_ok_def
    proof (intro allI impI conjI)
      fix r
      assume r: "snd (zip tags ?reqs ! j) = Some r"
      then have r': "resolve_req d (tags ! j) = Some r" using j by simp
      show "rq_name r = fst (zip tags ?reqs ! j)" "supported (rq_ai r) (rq_dt r)"
        using resolve_req_ok [OF d r'] j by simp_all
      fix v
      assume "map_of vals (0 + j) = Some v"
      then have "(j, v) \<in> set vals" by (simp add: map_of_SomeD)
      with b(2) show "v = device_value mem (rq_ai r) (rq_dt r)"
        using r' j by (auto simp: values_ok_def valid_reqs_def)
    qed
  qed
  have ret: "0 \<le> md_maxRetry d1" using b(3) d by (simp add: client_ok_def same_setup_def setup_ok_def)
  obtain res d2 p2 where a: "assemble cl await now vals 0 (zip tags ?reqs) c1 d1 p1 = (res, d2, p2)" by (rule prod_cases3)
  note ok = assemble_ok [OF srv aw items b(4) ret a]
  show ?thesis
    by (rule that [of res "case res of Inl _ \<Rightarrow> d2 | Inr _ \<Rightarrow> (AddReadCount (length tags) d2)\<lparr>bd_lastRead := now\<rparr>" p2])
      (use st b(1) a ok in \<open>auto simp: modbus_Read_def Let_def z split: sum.splits\<close>)
qed

text \<open>What a name reads as on the device.\<close>

definition tag_reads :: "mb_memory \<Rightarrow> time \<Rightarrow> modbus_driver \<Rightarrow> string \<Rightarrow> tag_value" where
  "tag_reads mem now d n = item_value mem now (n, resolve_req d n)"

section \<open>Properties\<close>

text \<open>
  C4. Batching is invisible to the caller of the Modbus drivers: when the device answers every request,
  \<^verbatim>\<open>Read\<close> returns in order, for every requested tag of a supported type, the value of its own coil or
  registers, whichever order the areas are visited in; and no response is indexed out of range.
\<close>

theorem modbus_batched_read_is_single_reads:
  assumes "mb_serves False cl mem" "await_ok await" "setup_ok d" "bd_state d = StateConnected" "bd_conn d \<noteq> None"
  shows "\<exists>d' p'. modbus_Read cl await order now tags d p = Some (Inr (map (tag_reads mem now d) tags), d', p')"
proof -
  obtain res d' p' where r: "modbus_Read cl await order now tags d p = Some (res, d', p')"
    and ok: "case res of Inl _ \<Rightarrow> False | Inr vs \<Rightarrow> list_all2 (item_allowed False mem now) (map (\<lambda>n. (n, resolve_req d n)) tags) vs"
    by (rule modbus_Read_ok [OF assms])
  then obtain vs where vs: "res = Inr vs" "list_all2 (item_allowed False mem now) (map (\<lambda>n. (n, resolve_req d n)) tags) vs"
    by (cases res) auto
  from vs(2) have "vs = map (tag_reads mem now d) tags"
    by (auto simp: list_all2_conv_all_nth item_allowed_def tag_reads_def intro!: nth_equalityI)
  with r vs(1) show ?thesis by auto
qed


text \<open>
  The batches of one area are right: for requests sorted by address and ending below the top of the
  address space they hold every request once and in order, stay within 125 registers, and every request
  lies inside the range its batch reads.
\<close>

theorem merge_batches_cover:
  assumes "\<forall>x\<in>set xs. req_ok x \<and> ma_area (rq_ai (snd x)) = area" "sorted (map (\<lambda>x. ma_addr (rq_ai (snd x))) xs)"
  shows "concat (map rb_reqs (mergeBatches modbusMaxBatchSize area xs)) = xs
    \<and> (\<forall>b\<in>set (mergeBatches modbusMaxBatchSize area xs).
         rb_area b = area \<and> rb_qty b \<le> 125 \<and> (\<forall>x\<in>set (rb_reqs b). batch_covers b x))"
  using mergeBatches_ok [OF assms] by (auto simp: batch_ok_def modbusMaxBatchSize_def)

definition writable :: "modbus_driver \<Rightarrow> write_command \<Rightarrow> bool" where
  "writable d cmd \<longleftrightarrow>
     (case md_addrs d (wc_tag cmd) of
        Some ai \<Rightarrow> ma_area ai \<noteq> AreaDiscreteInput \<and> ma_area ai \<noteq> AreaInputRegister
      | None \<Rightarrow> False)"

lemma write_failed_addrs [simp]: "md_addrs (write_failed cl e c d) = md_addrs d"
  by (simp add: write_failed_def recordException_def RecordError_def handleConnLostIfCurrent_def HandleConnectionLost_def
      Let_def split: mb_error.split)

lemma write_commands_writable:
  assumes "\<forall>cmd. writable d0 cmd \<longleftrightarrow> writable d cmd"
  shows "snd (mb_write_commands cv cl c cmds d p) = snd (mb_write_commands cv cl c (filter (writable d0) cmds) d p)
    \<and> list_all2 (\<lambda>cmd r. \<not> writable d0 cmd \<longrightarrow> \<not> wr_success r) cmds (fst (mb_write_commands cv cl c cmds d p))"
  using assms
proof (induction cmds arbitrary: d p)
  case (Cons cmd cmds)
  show ?case
  proof (cases "writable d0 cmd")
    case False
    then have "\<not> writable d cmd" using Cons.prems by blast
    with False Cons.IH [OF Cons.prems, of p] show ?thesis
      by (auto simp: writable_def [of d] case_prod_unfold Let_def split: option.splits)
  next
    case True
    then have "writable d cmd" using Cons.prems by blast
    then obtain ai where ai: "md_addrs d (wc_tag cmd) = Some ai" "ma_area ai \<noteq> AreaDiscreteInput" "ma_area ai \<noteq> AreaInputRegister"
      by (auto simp: writable_def split: option.splits)
    define v where "v = (case md_tags d (wc_tag cmd) of Some cfg \<Rightarrow> WriteValueForTag cmd cfg | None \<Rightarrow> wc_value cmd)"
    obtain r p1 where w: "writeTag cv cl c ai (cmd\<lparr>wc_value := v\<rparr>) p = (r, p1)" by (rule prod.exhaust)
    have same: "\<forall>cmd. writable d0 cmd \<longleftrightarrow> writable (write_failed cl e c d) cmd" for e
      using Cons.prems by (simp add: writable_def)
    show ?thesis
      using True ai w Cons.IH [OF Cons.prems, of p1] Cons.IH [OF same, of _ p1]
      by (cases r) (simp_all add: v_def [symmetric] case_prod_unfold Let_def)
  qed
qed simp

text \<open>
  A write to a read-only area, or to an unknown tag, never reaches the device: its result is a failure,
  and the device and the driver end as if the command had not been in the request.
\<close>

theorem read_only_areas_never_written:
  assumes "bd_state d = StateConnected" "bd_conn d = Some c"
  shows "snd (modbus_Write cv cl cmds d p) = snd (modbus_Write cv cl (filter (writable d) cmds) d p)
    \<and> (\<exists>rs. fst (modbus_Write cv cl cmds d p) = Inr rs
         \<and> list_all2 (\<lambda>cmd r. \<not> writable d cmd \<longrightarrow> \<not> wr_success r) cmds rs)"
  using write_commands_writable [of d d cv cl c cmds p] assms
  by (simp add: modbus_Write_def case_prod_unfold)

section \<open>Corner cases\<close>

text \<open>
  Two 16-bit tags at the raw addresses 65534 and 65535 merge into a batch of quantity one, because the end
  of the second wraps to zero; decoding the second register then indexes past the response.
\<close>

definition edge_req :: "u16 \<Rightarrow> batch_req" where
  "edge_req a = \<lparr>rq_name = ''t'',
     rq_cfg = \<lparr>tc_name = ''t'', tc_address = [], tc_type = ''uint16'', tc_group = [], tc_interval = [], tc_scale = 0, tc_offset = 0,
       tc_deadband = 0, tc_enforce_interval = [], tc_read_timeout = [], tc_protect = [], tc_trigger_group = [], tc_triggers = []\<rparr>,
     rq_ai = \<lparr>ma_area = AreaHoldingRegister, ma_addr = a\<rparr>, rq_dt = TypeUint16, rq_qty = 1, rq_batchable = True\<rparr>"

lemma wrapped_batch_panics:
  assumes "\<And>a q t p. ReadRegisters cl c a q t p = (Inr (replicate (unat q) 7), p)"
  shows "\<exists>b. mergeBatches modbusMaxBatchSize AreaHoldingRegister [(0, edge_req 65534), (1, edge_req 65535)] = [b]
    \<and> fst (readBatch cl (Some c) b p) = BPanic"
  using assms
  by (simp add: mergeBatches_def edge_req_def modbusMaxBatchSize_def readBatch_def bit_area_def wrap_err_def
      extractRegisterValue_def reg_at_def)

text \<open>
  Every error a single read returns is wrapped or made by the driver itself, so the comparison with the
  library's sentinels in \<^verbatim>\<open>recordException\<close> never holds on the read path.
\<close>

lemma wrap_err_not_exception: "fst (wrap_err msg r) \<noteq> Inl (EException e)"
  by (cases r; cases "fst r") (auto simp: wrap_err_def)

lemma read_exceptions_never_counted:
  assumes "readTag cl client ai dt n p = (Inl e, p')"
  shows "recordException e d = d"
proof -
  have "\<forall>x. e \<noteq> EException x"
    using assms
    by (auto simp: readTag_def readBoolTag_def readSingleRegister_def readDoubleRegister_def readFloat64Tag_def
        readQuadRegister_def wrap_err_def errModbusNotConnected_def not_supported_def Let_def
        split: option.splits if_splits prod.splits sum.splits)
  then show ?thesis by (cases e) (simp_all add: recordException_def)
qed

text \<open>With a negative retry setting no request is sent at all, and every tag reads as a good nil.\<close>

lemma negative_retry_reads_nil:
  "md_maxRetry d < 0 \<Longrightarrow> readTagWithRetry cl await r client d p = (SOk VNil, client, d, p)"
  by (simp add: readTagWithRetry_def)

section \<open>Writing and reading back\<close>

text \<open>The library on a device whose memory is the state.\<close>

definition mb_device :: "mb_memory mb_client \<Rightarrow> bool" where
  "mb_device cl \<longleftrightarrow>
     (\<forall>c a m. ReadCoil cl c a m = (Inr (mm_coils m a), m))
     \<and> (\<forall>c a t m. ReadRegister cl c a t m = (Inr (mm_regs m t a), m))
     \<and> (\<forall>c a q t m. ReadRegisters cl c a q t m = (Inr (cells (mm_regs m t) a (unat q)), m))
     \<and> (\<forall>c a t m. ReadFloat32 cl c a t m = (Inr (join2 (mm_regs m t a) (mm_regs m t (a + 1))), m))
     \<and> (\<forall>c a v m. WriteCoil cl c a v m = (Inr (), m\<lparr>mm_coils := (mm_coils m)(a := v)\<rparr>))
     \<and> (\<forall>c a v m. WriteRegister cl c a v m =
          (Inr (), m\<lparr>mm_regs := (mm_regs m)(HOLDING_REGISTER := (mm_regs m HOLDING_REGISTER)(a := v))\<rparr>))
     \<and> (\<forall>c a x y m. WriteRegisters cl c a [x, y] m =
          (Inr (), m\<lparr>mm_regs := (mm_regs m)(HOLDING_REGISTER := (mm_regs m HOLDING_REGISTER)(a := x, a + 1 := y))\<rparr>))
     \<and> (\<forall>c a v m. WriteFloat32 cl c a v m =
          (Inr (), m\<lparr>mm_regs := (mm_regs m)(HOLDING_REGISTER := (mm_regs m HOLDING_REGISTER)
             (a := ucast (drop_bit 16 v), a + 1 := ucast (v AND 0xFFFF)))\<rparr>))"

lemma join2_split: "join2 (ucast (drop_bit 16 v)) (ucast (v AND 0xFFFF)) = (v :: u32)"
proof (rule bit_word_eqI)
  fix n
  have m: "(0xFFFF :: u32) = mask 16" by (simp add: mask_eq_exp_minus_1)
  assume "n < LENGTH(32)"
  then show "bit (join2 (ucast (drop_bit 16 v)) (ucast (v AND 0xFFFF))) n = bit v n"
    by (cases "n < 16") (auto simp: join2_def m bit_simps)
qed

lemma word_succ_neq [simp]: "(a :: u16) + 1 \<noteq> a"
  by simp

text \<open>The values that both directions of the driver support.\<close>

definition mb_writable_value :: "data_type \<Rightarrow> go_value \<Rightarrow> bool" where
  "mb_writable_value dt v \<longleftrightarrow>
     (case v of
        VBool _ \<Rightarrow> dt = TypeBool
      | VUint16 _ \<Rightarrow> dt = TypeUint16 | VInt16 _ \<Rightarrow> dt = TypeInt16
      | VUint32 _ \<Rightarrow> dt = TypeUint32 | VInt32 _ \<Rightarrow> dt = TypeInt32
      | VFloat32 _ \<Rightarrow> dt = TypeFloat32
      | _ \<Rightarrow> False)"

text \<open>
  C14. A value written to a Modbus tag reads back as itself: on a device that keeps what is written, \<^verbatim>\<open>writeTag\<close>
  with a value of the tag's type, to a coil (bool) or to holding registers, succeeds, and \<^verbatim>\<open>readTag\<close> at
  the same address then returns that value.
\<close>

theorem modbus_write_read_back:
  assumes "mb_device cl" "wc_type cmd = dt" "wc_value cmd = v" "mb_writable_value dt v"
    and "ma_area ai = AreaHoldingRegister \<or> ma_area ai = AreaCoil \<and> dt = TypeBool"
  shows "\<exists>m'. writeTag cv cl c ai cmd m = (Inr (), m') \<and> readTag cl (Some c) ai dt n m' = (Inr v, m')"
  using assms
  by (cases v)
    (auto simp: mb_writable_value_def mb_device_def writeTag_def readTag_def readBoolTag_def readSingleRegister_def
      readDoubleRegister_def wrap_err_def bit_area_def regType_def Let_def join2_split)

section \<open>Witnesses\<close>

definition demo_mb_memory :: mb_memory where
  "demo_mb_memory = \<lparr>mm_coils = (\<lambda>a. a = 3), mm_inputs = (\<lambda>_. False), mm_regs = (\<lambda>_ a. a)\<rparr>"

definition demo_mb :: "mb_memory mb_client" where
  "demo_mb = \<lparr>exception_text = (\<lambda>_. []),
     ReadCoils = (\<lambda>c a q m. (Inr (cells (mm_coils demo_mb_memory) a (unat q)), m)),
     ReadDiscreteInputs = (\<lambda>c a q m. (Inr (cells (mm_inputs demo_mb_memory) a (unat q)), m)),
     ReadCoil = (\<lambda>c a m. (Inr (mm_coils demo_mb_memory a), m)),
     ReadDiscreteInput = (\<lambda>c a m. (Inr (mm_inputs demo_mb_memory a), m)),
     ReadRegister = (\<lambda>c a t m. (Inr (mm_regs demo_mb_memory t a), m)),
     ReadRegisters = (\<lambda>c a q t m. (Inr (cells (mm_regs demo_mb_memory t) a (unat q)), m)),
     ReadFloat32 = (\<lambda>c a t m. (Inr (join2 (mm_regs demo_mb_memory t a) (mm_regs demo_mb_memory t (a + 1))), m)),
     WriteCoil = (\<lambda>c a v m. (Inr (), m)), WriteRegister = (\<lambda>c a v m. (Inr (), m)),
     WriteRegisters = (\<lambda>c a v m. (Inr (), m)), WriteFloat32 = (\<lambda>c a v m. (Inr (), m))\<rparr>"

definition live_mb :: "mb_memory mb_client" where
  "live_mb = demo_mb\<lparr>
     ReadCoil := (\<lambda>c a m. (Inr (mm_coils m a), m)),
     ReadRegister := (\<lambda>c a t m. (Inr (mm_regs m t a), m)),
     ReadRegisters := (\<lambda>c a q t m. (Inr (cells (mm_regs m t) a (unat q)), m)),
     ReadFloat32 := (\<lambda>c a t m. (Inr (join2 (mm_regs m t a) (mm_regs m t (a + 1))), m)),
     WriteCoil := (\<lambda>c a v m. (Inr (), m\<lparr>mm_coils := (mm_coils m)(a := v)\<rparr>)),
     WriteRegister := (\<lambda>c a v m.
       (Inr (), m\<lparr>mm_regs := (mm_regs m)(HOLDING_REGISTER := (mm_regs m HOLDING_REGISTER)(a := v))\<rparr>)),
     WriteRegisters := (\<lambda>c a vs m.
       (Inr (), m\<lparr>mm_regs := (mm_regs m)(HOLDING_REGISTER := (mm_regs m HOLDING_REGISTER)(a := vs ! 0, a + 1 := vs ! 1))\<rparr>)),
     WriteFloat32 := (\<lambda>c a v m.
       (Inr (), m\<lparr>mm_regs := (mm_regs m)(HOLDING_REGISTER := (mm_regs m HOLDING_REGISTER)
          (a := ucast (drop_bit 16 v), a + 1 := ucast (v AND 0xFFFF)))\<rparr>))\<rparr>"

definition demo_modbus :: modbus_driver where
  "demo_modbus = \<lparr>bd_name = ''plc2'', bd_type = ''modbus-tcp'', bd_state = StateConnected, bd_conn = Some 1, bd_lastRead = 0,
     bd_lastError = [], bd_readCount = 0, bd_errorCount = 0, bd_reconnectCount = 0,
     bd_reconnectBackoff = 2 * second, bd_maxReconnectBackoff = 30 * second, bd_maxReconnectFailures = 20,
     md_slaveID = 1, md_timeout = 3 * second, md_maxRetry = 3,
     md_tags = [''a'' \<mapsto> rq_cfg (edge_req 0), ''b'' \<mapsto> rq_cfg (edge_req 0)],
     md_addrs = [''a'' \<mapsto> \<lparr>ma_area = AreaHoldingRegister, ma_addr = 5\<rparr>, ''b'' \<mapsto> \<lparr>ma_area = AreaInputRegister, ma_addr = 6\<rparr>],
     md_exceptions = []\<rparr>"

lemma demo_mb_serves: "mb_serves fails demo_mb demo_mb_memory"
  by (simp add: mb_serves_def answers_def demo_mb_def)

lemma demo_setup_ok: "setup_ok demo_modbus"
  by (auto simp: setup_ok_def demo_modbus_def supported_def batchQuantity_def bit_area_def edge_req_def
      parse_data_type_or_zero_def ParseDataType_def dataTypeFromString_def split: if_splits)

lemma demo_await_ok: "await_ok (\<lambda>d p. Elapsed d p)"
  by (simp add: await_ok_def)

theorem modbus_batched_read_is_single_reads_witness:
  "\<exists>d' p'. modbus_Read demo_mb (\<lambda>d p. Elapsed d p) [AreaInputRegister, AreaHoldingRegister] 9 [''b'', ''x'', ''a''] demo_modbus demo_mb_memory
     = Some (Inr (map (tag_reads demo_mb_memory 9 demo_modbus) [''b'', ''x'', ''a'']), d', p')"
  by (rule modbus_batched_read_is_single_reads [OF demo_mb_serves demo_await_ok demo_setup_ok]) (simp_all add: demo_modbus_def)


theorem merge_batches_cover_witness:
  "concat (map rb_reqs (mergeBatches modbusMaxBatchSize AreaHoldingRegister [(0, edge_req 5), (1, edge_req 6)])) =
     [(0, edge_req 5), (1, edge_req 6)]"
  using merge_batches_cover [of "[(0, edge_req 5), (1, edge_req 6)]" AreaHoldingRegister]
  by (simp add: req_ok_def edge_req_def batchQuantity_def bit_area_def)

definition demo_write :: "string \<Rightarrow> write_command" where
  "demo_write n = \<lparr>wc_driver = ''plc2'', wc_device = [], wc_tag = n, wc_value = VUint16 7, wc_type = TypeUint16,
     wc_source = [], wc_remote = [], wc_raw = False\<rparr>"

theorem read_only_areas_never_written_witness:
  "snd (modbus_Write (\<lambda>_. 0) live_mb [demo_write ''b'', demo_write ''a''] demo_modbus demo_mb_memory) =
   snd (modbus_Write (\<lambda>_. 0) live_mb [demo_write ''a''] demo_modbus demo_mb_memory)"
  using read_only_areas_never_written [of demo_modbus 1 "\<lambda>_. 0" live_mb "[demo_write ''b'', demo_write ''a'']" demo_mb_memory]
  by (simp add: demo_modbus_def demo_write_def writable_def)

theorem modbus_write_read_back_witness:
  "\<exists>m'. writeTag (\<lambda>_. 0) live_mb 1 \<lparr>ma_area = AreaHoldingRegister, ma_addr = 5\<rparr> (demo_write ''a'') demo_mb_memory = (Inr (), m')
     \<and> readTag live_mb (Some 1) \<lparr>ma_area = AreaHoldingRegister, ma_addr = 5\<rparr> TypeUint16 ''a'' m' = (Inr (VUint16 7), m')"
proof -
  have "mb_device live_mb" by (simp add: mb_device_def live_mb_def)
  then show ?thesis
    by (rule modbus_write_read_back) (simp_all add: demo_write_def mb_writable_value_def)
qed

end
