(* ===== verification/Json_Decode.thy ===== *)
theory Json_Decode
  imports Core_Types Go_Float
begin

text \<open>
  Values through JSON (\<^verbatim>\<open>core/json_decode.go\<close>): \<^verbatim>\<open>encoding/json\<close> decodes every number of an \<^verbatim>\<open>any\<close> field to
  \<^verbatim>\<open>float64\<close>, so points and commands rebuild their value from the raw token and the declared type. The
  theory holds these decoders, the tokens that \<^verbatim>\<open>encoding/json\<close> writes for a value, and the round trip.

  Integers, booleans and null are written out. The notation of floats, strings and byte strings is
  that of the standard library, given as a \<open>json_lib\<close>; \<open>json_laws\<close> is its documented behaviour.
\<close>

section \<open>Tokens\<close>

text \<open>
  \<open>jl_float64\<close> and \<open>jl_float32\<close> write a finite float, \<open>jl_parse64\<close> and \<open>jl_parse32\<close> are
  \<^verbatim>\<open>strconv.ParseFloat\<close>, \<open>jl_quote\<close> and \<open>jl_base64\<close> write a string and a byte string, \<open>jl_unquote\<close> and
  \<open>jl_unbase64\<close> decode a token into one, and \<open>jl_any\<close> decodes a token into \<^verbatim>\<open>any\<close>; \<open>None\<close> is an error.
\<close>

record json_lib =
  jl_float64 :: "f64 \<Rightarrow> string"
  jl_float32 :: "f32 \<Rightarrow> string"
  jl_parse64 :: "string \<Rightarrow> f64 option"
  jl_parse32 :: "string \<Rightarrow> f32 option"
  jl_quote :: "string \<Rightarrow> string"
  jl_unquote :: "string \<Rightarrow> string option"
  jl_base64 :: "u8 list \<Rightarrow> string"
  jl_unbase64 :: "string \<Rightarrow> u8 list option"
  jl_any :: "string \<Rightarrow> go_value option"

definition f32_finite :: "f32 \<Rightarrow> bool" where "f32_finite x \<longleftrightarrow> f32_mag x < f32_inf"

text \<open>
  The token of a scalar value. A \<^verbatim>\<open>NaN\<close> or an infinity is an error; arrays and objects, which no
  driver produces, have no token here.
\<close>

fun json_token :: "json_lib \<Rightarrow> go_value \<Rightarrow> string option" where
  "json_token L VNil = Some ''null''"
| "json_token L (VBool b) = Some (if b then ''true'' else ''false'')"
| "json_token L (VInt w) = Some (show_int (sint w))"
| "json_token L (VInt8 w) = Some (show_int (sint w))"
| "json_token L (VInt16 w) = Some (show_int (sint w))"
| "json_token L (VInt32 w) = Some (show_int (sint w))"
| "json_token L (VInt64 w) = Some (show_int (sint w))"
| "json_token L (VUint w) = Some (show_nat (unat w))"
| "json_token L (VUint8 w) = Some (show_nat (unat w))"
| "json_token L (VUint16 w) = Some (show_nat (unat w))"
| "json_token L (VUint32 w) = Some (show_nat (unat w))"
| "json_token L (VUint64 w) = Some (show_nat (unat w))"
| "json_token L (VFloat32 x) = (if f32_finite x then Some (jl_float32 L x) else None)"
| "json_token L (VFloat64 x) = (if f64_finite x then Some (jl_float64 L x) else None)"
| "json_token L (VString s) = Some (jl_quote L s)"
| "json_token L (VBytes bs) = Some (jl_base64 L bs)"
| "json_token L (VList vs) = None"
| "json_token L (VMap m) = None"

text \<open>\<^verbatim>\<open>strconv.ParseInt(s, 10, 64)\<close> and \<^verbatim>\<open>strconv.ParseUint(s, 10, 64)\<close>.\<close>

definition parse_int64 :: "string \<Rightarrow> int option" where
  "parse_int64 s =
     (let neg = (s \<noteq> [] \<and> hd s = CHR ''-'');
          ds = (if s \<noteq> [] \<and> (hd s = CHR ''-'' \<or> hd s = CHR ''+'') then tl s else s);
          v = (if neg then - int (digits_val ds) else int (digits_val ds))
      in if ds \<noteq> [] \<and> list_all is_digit ds \<and> - (2 ^ 63) \<le> v \<and> v < 2 ^ 63 then Some v else None)"

definition parse_uint64 :: "string \<Rightarrow> nat option" where
  "parse_uint64 s = (if s \<noteq> [] \<and> list_all is_digit s \<and> digits_val s < 2 ^ 64 then Some (digits_val s) else None)"

section \<open>The decoders\<close>

definition isNumberToken :: "string \<Rightarrow> bool" where
  "isNumberToken text \<longleftrightarrow> hd text = CHR ''-'' \<or> is_digit (hd text)"

definition decodeDefaultAny :: "json_lib \<Rightarrow> string \<Rightarrow> go_value" where
  "decodeDefaultAny L raw = (case jl_any L raw of Some v \<Rightarrow> v | None \<Rightarrow> VNil)"

definition decodeSignedToken :: "json_lib \<Rightarrow> string \<Rightarrow> data_type \<Rightarrow> go_value" where
  "decodeSignedToken L text dt =
     (if \<not> isNumberToken text then decodeDefaultAny L text
      else case parse_int64 text of
             None \<Rightarrow> decodeDefaultAny L text
           | Some v \<Rightarrow>
               (case dt of
                  TypeInt8 \<Rightarrow> VInt8 (word_of_int v)
                | TypeInt16 \<Rightarrow> VInt16 (word_of_int v)
                | TypeInt32 \<Rightarrow> VInt32 (word_of_int v)
                | _ \<Rightarrow> VInt64 (word_of_int v)))"

definition decodeUnsignedToken :: "json_lib \<Rightarrow> string \<Rightarrow> data_type \<Rightarrow> go_value" where
  "decodeUnsignedToken L text dt =
     (if \<not> isNumberToken text then decodeDefaultAny L text
      else case parse_uint64 text of
             None \<Rightarrow> decodeDefaultAny L text
           | Some v \<Rightarrow>
               (case dt of
                  TypeUint8 \<Rightarrow> VUint8 (of_nat v)
                | TypeUint16 \<Rightarrow> VUint16 (of_nat v)
                | TypeUint32 \<Rightarrow> VUint32 (of_nat v)
                | _ \<Rightarrow> VUint64 (of_nat v)))"

definition decodeFloatToken :: "json_lib \<Rightarrow> string \<Rightarrow> data_type \<Rightarrow> go_value" where
  "decodeFloatToken L text dt =
     (if \<not> isNumberToken text then decodeDefaultAny L text
      else if dt = TypeFloat32
      then (case jl_parse32 L text of Some v \<Rightarrow> VFloat32 v | None \<Rightarrow> decodeDefaultAny L text)
      else (case jl_parse64 L text of Some v \<Rightarrow> VFloat64 v | None \<Rightarrow> decodeDefaultAny L text))"

definition decodeBoolToken :: "json_lib \<Rightarrow> string \<Rightarrow> go_value" where
  "decodeBoolToken L text =
     (if text = ''true'' \<or> text = ''false'' then VBool (text = ''true'') else decodeDefaultAny L text)"

definition decodeStringToken :: "json_lib \<Rightarrow> string \<Rightarrow> go_value" where
  "decodeStringToken L text =
     (if text \<noteq> [] \<and> hd text = CHR 0x22
      then (case jl_unquote L text of Some s \<Rightarrow> VString s | None \<Rightarrow> decodeDefaultAny L text)
      else decodeDefaultAny L text)"

definition decodeBytesToken :: "json_lib \<Rightarrow> string \<Rightarrow> go_value" where
  "decodeBytesToken L text =
     (if text \<noteq> [] \<and> hd text = CHR 0x22
      then (case jl_unbase64 L text of Some b \<Rightarrow> VBytes b | None \<Rightarrow> decodeDefaultAny L text)
      else decodeDefaultAny L text)"

definition decodeValueByType :: "json_lib \<Rightarrow> string \<Rightarrow> data_type \<Rightarrow> go_value" where
  "decodeValueByType L raw dt =
     (if raw = [] \<or> raw = ''null'' then VNil
      else if dt \<in> {TypeInt8, TypeInt16, TypeInt32, TypeInt64} then decodeSignedToken L raw dt
      else if dt \<in> {TypeUint8, TypeUint16, TypeUint32, TypeUint64} then decodeUnsignedToken L raw dt
      else if dt \<in> {TypeFloat32, TypeFloat64} then decodeFloatToken L raw dt
      else if dt = TypeBool then decodeBoolToken L raw
      else if dt = TypeString then decodeStringToken L raw
      else if dt = TypeBytes then decodeBytesToken L raw
      else decodeDefaultAny L raw)"

text \<open>
  \<^verbatim>\<open>DataPoint.UnmarshalJSON\<close> and \<^verbatim>\<open>WriteCommand.UnmarshalJSON\<close> on what \<^verbatim>\<open>encoding/json\<close> wrote for a point and
  a command: the plain fields come back, the value is decoded from its token. A value without a token
  cannot be written.
\<close>

definition json_point :: "json_lib \<Rightarrow> data_point \<Rightarrow> data_point option" where
  "json_point L p = map_option (\<lambda>raw. p\<lparr>dp_value := decodeValueByType L raw (dp_type p)\<rparr>) (json_token L (dp_value p))"

definition json_command :: "json_lib \<Rightarrow> write_command \<Rightarrow> write_command option" where
  "json_command L c = map_option (\<lambda>raw. c\<lparr>wc_value := decodeValueByType L raw (wc_type c)\<rparr>) (json_token L (wc_value c))"

section \<open>The round trip\<close>

definition ascii :: "string \<Rightarrow> bool" where
  "ascii s \<longleftrightarrow> list_all (\<lambda>c. (of_char c :: nat) < 128) s"

text \<open>
  What the standard library documents: the shortest notation of a finite float parses to that float,
  a string of ASCII characters and every byte string decode to themselves, and the tokens have the
  shape of a number and of a string.
\<close>

definition json_laws :: "json_lib \<Rightarrow> bool" where
  "json_laws L \<longleftrightarrow>
     (\<forall>x. f64_finite x \<longrightarrow> jl_parse64 L (jl_float64 L x) = Some x \<and> jl_float64 L x \<noteq> [] \<and> isNumberToken (jl_float64 L x))
   \<and> (\<forall>x. f32_finite x \<longrightarrow> jl_parse32 L (jl_float32 L x) = Some x \<and> jl_float32 L x \<noteq> [] \<and> isNumberToken (jl_float32 L x))
   \<and> (\<forall>s. jl_quote L s \<noteq> [] \<and> hd (jl_quote L s) = CHR 0x22 \<and> (ascii s \<longrightarrow> jl_unquote L (jl_quote L s) = Some s))
   \<and> (\<forall>b. jl_base64 L b \<noteq> [] \<and> hd (jl_base64 L b) = CHR 0x22 \<and> jl_unbase64 L (jl_base64 L b) = Some b)"

text \<open>A value of the dynamic type that its declared type stands for, or no value.\<close>

definition typed_value :: "data_type \<Rightarrow> go_value \<Rightarrow> bool" where
  "typed_value dt v =
     (case v of
        VNil \<Rightarrow> True
      | VBool _ \<Rightarrow> dt = TypeBool
      | VInt8 _ \<Rightarrow> dt = TypeInt8 | VInt16 _ \<Rightarrow> dt = TypeInt16 | VInt32 _ \<Rightarrow> dt = TypeInt32 | VInt64 _ \<Rightarrow> dt = TypeInt64
      | VUint8 _ \<Rightarrow> dt = TypeUint8 | VUint16 _ \<Rightarrow> dt = TypeUint16 | VUint32 _ \<Rightarrow> dt = TypeUint32 | VUint64 _ \<Rightarrow> dt = TypeUint64
      | VFloat32 x \<Rightarrow> dt = TypeFloat32 \<and> f32_finite x
      | VFloat64 x \<Rightarrow> dt = TypeFloat64 \<and> f64_finite x
      | VString s \<Rightarrow> dt = TypeString \<and> ascii s
      | VBytes _ \<Rightarrow> dt = TypeBytes
      | _ \<Rightarrow> False)"

lemma list_all_show_nat: "list_all is_digit (show_nat n)"
  using show_nat_digits by (auto simp: list_all_iff)

lemma digit_chars: "\<not> is_digit CHR ''-''" "\<not> is_digit CHR ''+''" "\<not> is_digit CHR ''n''"
  by (simp_all add: is_digit_def)

lemma hd_show_nat: "is_digit (hd (show_nat n))"
  by (simp add: show_nat_digits [of _ n])

lemma isNumberToken_show [simp]: "isNumberToken (show_nat n)" "isNumberToken (show_int i)"
  by (simp_all add: isNumberToken_def show_int_def hd_show_nat)

lemma not_null: "isNumberToken t \<Longrightarrow> t \<noteq> ''null''" "hd t = CHR 0x22 \<Longrightarrow> t \<noteq> ''null''"
  by (auto simp: isNumberToken_def digit_chars)

lemma show_not_null [simp]: "show_nat n \<noteq> ''null''" "show_int i \<noteq> ''null''"
  using not_null(1) isNumberToken_show by blast+

lemma parse_uint64_show: "n < 2 ^ 64 \<Longrightarrow> parse_uint64 (show_nat n) = Some n"
  by (simp add: parse_uint64_def list_all_show_nat)

lemma parse_int64_show:
  assumes "- (2 ^ 63) \<le> i" "i < 2 ^ 63"
  shows "parse_int64 (show_int i) = Some i"
proof (cases "i < 0")
  case True
  then show ?thesis using assms by (simp add: parse_int64_def show_int_def list_all_show_nat)
next
  case False
  have "hd (show_nat (nat i)) \<noteq> CHR ''-''" "hd (show_nat (nat i)) \<noteq> CHR ''+''"
    using hd_show_nat [of "nat i"] digit_chars by metis+
  then show ?thesis using False assms by (simp add: parse_int64_def show_int_def list_all_show_nat)
qed

lemma show_int_nonempty [simp]: "show_int i \<noteq> []"
  by (simp add: show_int_def)

lemma signed_token:
  fixes w :: "'a :: len word"
  assumes "LENGTH('a) \<le> 64"
  shows "parse_int64 (show_int (sint w)) = Some (sint w)"
proof (rule parse_int64_show)
  have "(2 :: int) ^ (LENGTH('a) - 1) \<le> 2 ^ 63" using assms by (intro power_increasing) auto
  then show "- (2 ^ 63) \<le> sint w" "sint w < 2 ^ 63"
    using sint_ge [of w] sint_lt [of w] by linarith+
qed

lemma unsigned_token:
  fixes w :: "'a :: len word"
  assumes "LENGTH('a) \<le> 64"
  shows "parse_uint64 (show_nat (unat w)) = Some (unat w)"
proof (rule parse_uint64_show)
  have "(2 :: nat) ^ LENGTH('a) \<le> 2 ^ 64" using assms by (intro power_increasing) auto
  moreover have "unat w < 2 ^ LENGTH('a)" by (rule unsigned_less)
  ultimately show "unat w < 2 ^ 64" by linarith
qed

lemma typed_value_json:
  assumes "json_laws L" "typed_value dt v"
  shows "\<exists>raw. json_token L v = Some raw \<and> decodeValueByType L raw dt = v"
  using assms
proof (cases v)
  case (VFloat32 x)
  then have "dt = TypeFloat32" "f32_finite x" using assms(2) by (simp_all add: typed_value_def)
  then show ?thesis using assms(1) VFloat32 not_null by (simp add: decodeValueByType_def decodeFloatToken_def json_laws_def)
next
  case (VFloat64 x)
  then have "dt = TypeFloat64" "f64_finite x" using assms(2) by (simp_all add: typed_value_def)
  then show ?thesis using assms(1) VFloat64 not_null by (simp add: decodeValueByType_def decodeFloatToken_def json_laws_def)
next
  case (VString x)
  then have "dt = TypeString" "ascii x" using assms(2) by (simp_all add: typed_value_def)
  then show ?thesis using assms(1) VString not_null by (simp add: decodeValueByType_def decodeStringToken_def json_laws_def)
next
  case (VBytes x)
  then have "dt = TypeBytes" using assms(2) by (simp add: typed_value_def)
  then show ?thesis using assms(1) VBytes not_null by (simp add: decodeValueByType_def decodeBytesToken_def json_laws_def)
qed (use assms(2) in \<open>simp_all add: typed_value_def decodeValueByType_def decodeSignedToken_def decodeUnsignedToken_def
       decodeBoolToken_def signed_token unsigned_token\<close>)

text \<open>
  A value whose dynamic type is its declared one survives the round trip through JSON exactly,
  64-bit integers included; so does a point or a command that carries it.
\<close>

theorem typed_value_json_roundtrip:
  assumes "json_laws L"
  shows "(typed_value (dp_type p) (dp_value p) \<longrightarrow> json_point L p = Some p)
    \<and> (typed_value (wc_type c) (wc_value c) \<longrightarrow> json_command L c = Some c)"
  using typed_value_json [OF assms] by (force simp: json_point_def json_command_def)

text \<open>A notation that satisfies the laws: floats as the number of their bits, strings between quotes.\<close>

definition demo_json :: json_lib where
  "demo_json = \<lparr>jl_float64 = (\<lambda>x. show_nat (unat x)), jl_float32 = (\<lambda>x. show_nat (unat x)),
     jl_parse64 = (\<lambda>t. Some (of_nat (digits_val t))), jl_parse32 = (\<lambda>t. Some (of_nat (digits_val t))),
     jl_quote = (\<lambda>s. CHR 0x22 # s @ [CHR 0x22]), jl_unquote = (\<lambda>t. Some (butlast (tl t))),
     jl_base64 = (\<lambda>b. CHR 0x22 # map (\<lambda>w. char_of (unat w)) b), jl_unbase64 = (\<lambda>t. Some (map (\<lambda>c. of_nat (of_char c)) (tl t))),
     jl_any = (\<lambda>_. None)\<rparr>"

lemma demo_json_laws: "json_laws demo_json"
proof -
  have "unat w mod 256 = unat w" for w :: u8
  proof -
    have "unat w < 2 ^ LENGTH(8)" by (rule unsigned_less)
    then show ?thesis by simp
  qed
  then show ?thesis by (simp add: json_laws_def demo_json_def comp_def)
qed

theorem typed_value_json_roundtrip_witness:
  "json_command demo_json
     \<lparr>wc_driver = ''plc'', wc_device = [], wc_tag = ''sp'', wc_value = VInt64 9007199254740993, wc_type = TypeInt64,
      wc_source = [], wc_remote = [], wc_raw = False\<rparr> =
   Some \<lparr>wc_driver = ''plc'', wc_device = [], wc_tag = ''sp'', wc_value = VInt64 9007199254740993, wc_type = TypeInt64,
      wc_source = [], wc_remote = [], wc_raw = False\<rparr>"
  using typed_value_json_roundtrip [OF demo_json_laws] by (simp add: typed_value_def)

end
