(* ===== verification/Offline_Buffer.thy ===== *)
theory Offline_Buffer
  imports Go_Fmt Data_Bus Json_Decode "HOL-Library.AList" "HOL-Library.Sublist"
begin

text \<open>
  The disk buffer for batches a transport could not publish, \<^verbatim>\<open>engine/offlinebuffer.go\<close>. The
  buffer's directory is an association list from file names to contents (subdirectories, which
  every scan skips, are left out). The JSON encoding of an entry is a pair of parameters \<open>marshal\<close>
  and \<open>unmarshal\<close>. Whether the operating system lets the directory be listed (\<open>ls\<close>) and a file be read
  (\<open>rd\<close>) or removed (\<open>rm\<close>) is a parameter too, and so is the step at which writing a file fails, so
  that every error branch of the code is a branch here.

  \<open>write_file\<close> returns the directory after every system call of the write, and \<open>push_dirs\<close> those of a whole
  push, evictions included: what a crash leaves behind.
\<close>

type_synonym dir = "(string \<times> string) list"

record offline_entry =
  oe_seq :: nat
  oe_time :: time
  oe_points :: "data_point list"
  oe_source :: string

record offline_buffer =
  ob_maxEntries :: nat
  ob_nextSeq :: nat
  ob_dir :: dir
  ob_drainCount :: nat
  ob_evictCount :: nat

section \<open>File names\<close>

definition parseSeqFile :: "string \<Rightarrow> nat option" where
  "parseSeqFile name =
     parse_uint64 (if has_suffix name ''.json'' then take (length name - 5) name else name)"

definition seqFileName :: "nat \<Rightarrow> string" where
  "seqFileName seq = (replicate (10 - length (show_nat seq)) CHR ''0'' @ show_nat seq) @ ''.json''"

text \<open>The sequence numbers of a listing, sorted, as \<^verbatim>\<open>evictIfNeeded\<close> and \<^verbatim>\<open>Drain\<close> collect them.\<close>

definition list_seqs :: "dir \<Rightarrow> nat list" where
  "list_seqs d = sort (List.map_filter (\<lambda>f. parseSeqFile (fst f)) d)"

definition scanMaxSeq :: "bool \<Rightarrow> dir \<Rightarrow> nat" where
  "scanMaxSeq ls d =
     (if \<not> ls then 0
      else fold (\<lambda>f m. case parseSeqFile (fst f) of Some s \<Rightarrow> (if s > m then s else m) | None \<Rightarrow> m) d 0)"

definition DefaultOfflineBufferMaxEntries :: nat where "DefaultOfflineBufferMaxEntries = 10000"

text \<open>\<open>mk\<close> is the directory that \<^verbatim>\<open>MkdirAll\<close> gives: the one that is there, or an empty one.\<close>

definition NewOfflineBuffer :: "bool \<Rightarrow> dir option \<Rightarrow> string \<Rightarrow> int \<Rightarrow> (string, offline_buffer) result" where
  "NewOfflineBuffer ls mk path maxEntries =
     (if path = [] then Inl ''offline buffer: path is required''
      else case mk of
             None \<Rightarrow> Inl (''offline buffer: cannot create dir '' @ go_quote path)
           | Some d \<Rightarrow>
               Inr \<lparr>ob_maxEntries = (if maxEntries \<le> 0 then DefaultOfflineBufferMaxEntries else nat maxEntries),
                    ob_nextSeq = (scanMaxSeq ls d + 1) mod 2 ^ 64, ob_dir = d, ob_drainCount = 0, ob_evictCount = 0\<rparr>)"

section \<open>Push\<close>

text \<open>\<^verbatim>\<open>os.Remove\<close>: whether it succeeded, and the directory.\<close>

definition os_Remove :: "(string \<Rightarrow> bool) \<Rightarrow> string \<Rightarrow> dir \<Rightarrow> bool \<times> dir" where
  "os_Remove rm f d =
     (if map_of d f \<noteq> None \<and> rm f then (True, AList.delete f d) else (False, d))"

text \<open>The loop of \<^verbatim>\<open>evictIfNeeded\<close>; only a file that was removed counts.\<close>

fun evict_loop :: "(string \<Rightarrow> bool) \<Rightarrow> nat \<Rightarrow> nat list \<Rightarrow> dir \<Rightarrow> nat \<Rightarrow> dir \<times> nat" where
  "evict_loop rm mx [] d n = (d, n)"
| "evict_loop rm mx (s # ss) d n =
     (if mx \<le> length (s # ss)
      then (case os_Remove rm (seqFileName s) d of
              (gone, d') \<Rightarrow> evict_loop rm mx ss d' (if gone then n + 1 else n))
      else (d, n))"

definition evictIfNeeded :: "bool \<Rightarrow> (string \<Rightarrow> bool) \<Rightarrow> offline_buffer \<Rightarrow> offline_buffer" where
  "evictIfNeeded ls rm ob =
     (if \<not> ls then ob
      else case evict_loop rm (ob_maxEntries ob) (list_seqs (ob_dir ob)) (ob_dir ob) (ob_evictCount ob) of
             (d, n) \<Rightarrow> ob\<lparr>ob_dir := d, ob_evictCount := n\<rparr>)"

text \<open>The system call of the write that fails; a failing \<^verbatim>\<open>Write\<close> has written the first \<open>k\<close> bytes.\<close>

datatype push_fault = CreateFails | WriteFails nat | SyncFails | CloseFails | RenameFails

text \<open>
  Create the temporary file, write, sync, close, rename: the error and the directories after each
  call. Every failure after the creation removes the temporary file.
\<close>

fun write_file :: "(string \<Rightarrow> bool) \<Rightarrow> push_fault option \<Rightarrow> string \<Rightarrow> string \<Rightarrow> dir \<Rightarrow> string option \<times> dir list" where
  "write_file rm fault full data d =
     (let tmp = full @ ''.tmp'';
          created = AList.update tmp [] d;
          written = AList.update tmp data d;
          undo = (\<lambda>d. snd (os_Remove rm tmp d))
      in case fault of
           Some CreateFails \<Rightarrow> (Some ''offline buffer: create'', [d])
         | Some (WriteFails k) \<Rightarrow>
             (let part = AList.update tmp (take k data) d
              in (Some ''offline buffer: write'', [d, created, part, undo part]))
         | Some SyncFails \<Rightarrow> (Some ''offline buffer: fsync'', [d, created, written, undo written])
         | Some CloseFails \<Rightarrow> (Some ''offline buffer: close'', [d, created, written, undo written])
         | Some RenameFails \<Rightarrow> (Some ''offline buffer: rename'', [d, created, written, undo written])
         | None \<Rightarrow> (None, [d, created, written, AList.update full data (AList.delete tmp d)]))"

definition offline_Push ::
  "(offline_entry \<Rightarrow> string option) \<Rightarrow> bool \<Rightarrow> (string \<Rightarrow> bool) \<Rightarrow> push_fault option \<Rightarrow> time \<Rightarrow> data_point list \<Rightarrow> string \<Rightarrow>
   offline_buffer \<Rightarrow> string option \<times> offline_buffer" where
  "offline_Push marshal ls rm fault now points source ob =
     (if points = [] then (None, ob)
      else let ob = evictIfNeeded ls rm ob;
               seq = ob_nextSeq ob;
               ob = ob\<lparr>ob_nextSeq := (seq + 1) mod 2 ^ 64\<rparr>
           in case marshal \<lparr>oe_seq = seq, oe_time = now, oe_points = points, oe_source = source\<rparr> of
                None \<Rightarrow> (Some ''offline buffer: marshal'', ob)
              | Some data \<Rightarrow>
                  (case write_file rm fault (seqFileName seq) data (ob_dir ob) of
                     (err, ds) \<Rightarrow> (err, ob\<lparr>ob_dir := last ds\<rparr>)))"

text \<open>The directories that a push goes through, one per system call.\<close>

fun evict_dirs :: "(string \<Rightarrow> bool) \<Rightarrow> nat \<Rightarrow> nat list \<Rightarrow> dir \<Rightarrow> dir list" where
  "evict_dirs rm mx [] d = [d]"
| "evict_dirs rm mx (s # ss) d =
     d # (if mx \<le> length (s # ss) then evict_dirs rm mx ss (snd (os_Remove rm (seqFileName s) d)) else [])"

definition push_dirs ::
  "(offline_entry \<Rightarrow> string option) \<Rightarrow> bool \<Rightarrow> (string \<Rightarrow> bool) \<Rightarrow> push_fault option \<Rightarrow> time \<Rightarrow> data_point list \<Rightarrow> string \<Rightarrow>
   offline_buffer \<Rightarrow> dir list" where
  "push_dirs marshal ls rm fault now points source ob =
     (if points = [] then [ob_dir ob]
      else (if ls then evict_dirs rm (ob_maxEntries ob) (list_seqs (ob_dir ob)) (ob_dir ob) else [ob_dir ob])
           @ (case marshal \<lparr>oe_seq = ob_nextSeq ob, oe_time = now, oe_points = points, oe_source = source\<rparr> of
                None \<Rightarrow> []
              | Some data \<Rightarrow> snd (write_file rm fault (seqFileName (ob_nextSeq ob)) data (ob_dir (evictIfNeeded ls rm ob)))))"

section \<open>Drain\<close>

text \<open>
  The loop of \<^verbatim>\<open>Drain\<close>: \<open>up done batch\<close> is whether the transport accepts \<open>batch\<close> after \<open>done\<close>. The
  result is the batches delivered, a read error, and the directory. Drains exclude each other by
  \<^verbatim>\<open>drainMu\<close>. The code releases the buffer's mutex between two entries, so that a push can run there; it
  adds a file that this drain has not listed, and on a full buffer removes the oldest, which this drain
  then skips. The function is a drain without such a push.
\<close>

fun drain_loop ::
  "(string \<Rightarrow> offline_entry option) \<Rightarrow> (string \<Rightarrow> bool) \<Rightarrow> (string \<Rightarrow> bool) \<Rightarrow> string \<Rightarrow>
   (data_point list list \<Rightarrow> data_point list \<Rightarrow> bool) \<Rightarrow> nat list \<Rightarrow> data_point list list \<Rightarrow> dir \<Rightarrow>
   data_point list list \<times> string option \<times> dir" where
  "drain_loop unmarshal rd rm source up [] done d = (done, None, d)"
| "drain_loop unmarshal rd rm source up (s # ss) done d =
     (case map_of d (seqFileName s) of
        None \<Rightarrow> drain_loop unmarshal rd rm source up ss done d
      | Some data \<Rightarrow>
          if \<not> rd (seqFileName s) then (done, Some ''offline buffer: read entry'', d)
          else (case unmarshal data of
                  None \<Rightarrow> drain_loop unmarshal rd rm source up ss done (snd (os_Remove rm (seqFileName s) d))
                | Some e \<Rightarrow>
                    if oe_source e \<noteq> source then drain_loop unmarshal rd rm source up ss done d
                    else if \<not> up done (oe_points e) then (done, None, d)
                    else drain_loop unmarshal rd rm source up ss (done @ [oe_points e])
                           (snd (os_Remove rm (seqFileName s) d))))"

definition Drain ::
  "(string \<Rightarrow> offline_entry option) \<Rightarrow> bool \<Rightarrow> (string \<Rightarrow> bool) \<Rightarrow> (string \<Rightarrow> bool) \<Rightarrow> string \<Rightarrow>
   (data_point list list \<Rightarrow> data_point list \<Rightarrow> bool) \<Rightarrow> offline_buffer \<Rightarrow>
   data_point list list \<times> string option \<times> offline_buffer" where
  "Drain unmarshal ls rd rm source up ob =
     (if \<not> ls then ([], Some ''offline buffer: read dir'', ob)
      else case drain_loop unmarshal rd rm source up (list_seqs (ob_dir ob)) [] (ob_dir ob) of
             (done, err, d) \<Rightarrow> (done, err, ob\<lparr>ob_dir := d, ob_drainCount := ob_drainCount ob + length done\<rparr>))"

definition offline_Len :: "bool \<Rightarrow> offline_buffer \<Rightarrow> nat" where
  "offline_Len ls ob =
     (if \<not> ls then 0 else length (filter (\<lambda>f. has_suffix (fst f) ''.json'') (ob_dir ob)))"

definition PendingBytes :: "bool \<Rightarrow> offline_buffer \<Rightarrow> nat" where
  "PendingBytes ls ob =
     (if \<not> ls then 0
      else sum_list (map (\<lambda>f. length (snd f)) (filter (\<lambda>f. has_suffix (fst f) ''.json'') (ob_dir ob))))"

section \<open>Names\<close>

lemma digits_val_zeros: "digits_val (replicate k CHR ''0'' @ s) = digits_val s"
  by (induction k) (simp_all add: digits_val_def digit_val_def)

lemma has_suffix_append: "has_suffix (s @ t) t"
  by (simp add: has_suffix_def has_prefix_def)

lemma has_suffix_tmp: "\<not> has_suffix (f @ ''.tmp'') ''.json''"
  by (simp add: has_suffix_def has_prefix_def)

lemma parseSeqFile_json: "parseSeqFile (b @ ''.json'') = parse_uint64 b"
proof -
  have "take (length (b @ ''.json'') - 5) (b @ ''.json'') = b" by simp
  then show ?thesis by (simp only: parseSeqFile_def has_suffix_append if_True)
qed

lemma parse_seqFileName [simp]: "n < 2 ^ 64 \<Longrightarrow> parseSeqFile (seqFileName n) = Some n"
proof -
  assume n: "n < 2 ^ 64"
  let ?b = "replicate (10 - length (show_nat n)) CHR ''0'' @ show_nat n"
  have "list_all is_digit ?b" using show_nat_digits [of _ n] by (auto simp: list_all_iff is_digit_def)
  moreover have "digits_val ?b = n" by (simp add: digits_val_zeros)
  ultimately have "parse_uint64 ?b = Some n" using n unfolding parse_uint64_def by simp
  then show ?thesis unfolding seqFileName_def by (simp only: parseSeqFile_json)
qed

lemma seqFileName_inj [simp]: "seqFileName a = seqFileName b \<longleftrightarrow> a = b"
proof
  assume "seqFileName a = seqFileName b"
  then have "replicate (10 - length (show_nat a)) CHR ''0'' @ show_nat a = replicate (10 - length (show_nat b)) CHR ''0'' @ show_nat b"
    by (simp add: seqFileName_def)
  then have "digits_val (show_nat a) = digits_val (show_nat b)" by (metis digits_val_zeros)
  then show "a = b" by simp
qed simp

lemma parseSeqFile_tmp [simp]: "parseSeqFile (f @ ''.tmp'') = None"
proof -
  have "\<not> is_digit CHR ''p''" by (simp add: is_digit_def)
  then have "\<not> list_all is_digit (f @ ''.tmp'')" by simp
  then show ?thesis by (simp only: parseSeqFile_def parse_uint64_def has_suffix_tmp if_False simp_thms)
qed

lemma tmp_not_seq [simp]: "seqFileName n @ ''.tmp'' \<noteq> seqFileName m"
  using has_suffix_tmp [of "seqFileName n"] has_suffix_append [of _ "''.json''"] unfolding seqFileName_def by metis

section \<open>The directory\<close>

text \<open>A directory whose entries are all the buffer's own files; other names are no entries.\<close>

definition dir_ok :: "dir \<Rightarrow> bool" where
  "dir_ok d \<longleftrightarrow> distinct (map fst d) \<and>
     (\<forall>f\<in>fst ` set d. \<forall>s. parseSeqFile f = Some s \<longrightarrow> f = seqFileName s \<and> s < 2 ^ 64)"

lemma set_list_seqs: "set (list_seqs d) = {s. \<exists>f\<in>fst ` set d. parseSeqFile f = Some s}"
  by (induction d) (auto simp: list_seqs_def List.map_filter_def)

lemma dir_ok_file:
  assumes "dir_ok d" "f \<in> fst ` set d" "parseSeqFile f = Some s"
  shows "f = seqFileName s" "s < 2 ^ 64"
  using assms unfolding dir_ok_def by blast+

lemma dir_ok_seqs:
  assumes "dir_ok d"
  shows "s \<in> set (list_seqs d) \<longleftrightarrow> s < 2 ^ 64 \<and> map_of d (seqFileName s) \<noteq> None"
proof -
  have "s \<in> set (list_seqs d) \<longleftrightarrow> s < 2 ^ 64 \<and> seqFileName s \<in> fst ` set d"
  proof
    assume "s \<in> set (list_seqs d)"
    then obtain f where "f \<in> fst ` set d" "parseSeqFile f = Some s" unfolding set_list_seqs by blast
    with dir_ok_file [OF assms this] show "s < 2 ^ 64 \<and> seqFileName s \<in> fst ` set d" by metis
  next
    assume "s < 2 ^ 64 \<and> seqFileName s \<in> fst ` set d"
    then show "s \<in> set (list_seqs d)" unfolding set_list_seqs using parse_seqFileName by blast
  qed
  then show ?thesis by (metis map_of_eq_None_iff)
qed

lemma list_seqs_Cons:
  "list_seqs (f # d) = (case parseSeqFile (fst f) of None \<Rightarrow> list_seqs d | Some s \<Rightarrow> insort s (list_seqs d))"
  by (simp add: list_seqs_def List.map_filter_def split: option.split)

lemma distinct_list_seqs: "dir_ok d \<Longrightarrow> distinct (list_seqs d)"
proof (induction d)
  case (Cons f d)
  then have d: "dir_ok d" and new: "fst f \<notin> fst ` set d" unfolding dir_ok_def by simp_all
  have "s \<notin> set (list_seqs d)" if p: "parseSeqFile (fst f) = Some s" for s
  proof
    assume "s \<in> set (list_seqs d)"
    then have "map_of d (seqFileName s) \<noteq> None" using dir_ok_seqs [OF d] by blast
    moreover have "fst f = seqFileName s" using dir_ok_file(1) [OF Cons.prems _ p] by simp
    ultimately show False using new by (simp add: map_of_eq_None_iff)
  qed
  with Cons.IH [OF d] show ?case
    by (simp add: list_seqs_Cons distinct_insort split: option.split)
qed (simp add: list_seqs_def List.map_filter_def)

lemma sorted_list_seqs [simp]: "sorted (list_seqs d)"
  by (simp add: list_seqs_def)

lemma dir_okI:
  assumes "distinct (map fst d)" "\<And>f s. f \<in> fst ` set d \<Longrightarrow> parseSeqFile f = Some s \<Longrightarrow> f = seqFileName s \<and> s < 2 ^ 64"
  shows "dir_ok d"
  using assms unfolding dir_ok_def by blast

lemma dir_ok_delete:
  assumes "dir_ok d"
  shows "dir_ok (AList.delete f d)"
proof (rule dir_okI)
  show "distinct (map fst (AList.delete f d))" using assms unfolding dir_ok_def by (intro distinct_delete) blast
  fix g s
  assume "g \<in> fst ` set (AList.delete f d)" and p: "parseSeqFile g = Some s"
  then have "g \<in> fst ` set d" using set_removeAll [of f "map fst d"] unfolding delete_keys [symmetric] by auto
  then show "g = seqFileName s \<and> s < 2 ^ 64" using dir_ok_file [OF assms _ p] by blast
qed

lemma dir_ok_update:
  assumes "dir_ok d" "parseSeqFile f = None \<or> (\<exists>s. f = seqFileName s \<and> s < 2 ^ 64)"
  shows "dir_ok (AList.update f x d)"
proof (rule dir_okI)
  show "distinct (map fst (AList.update f x d))" using assms unfolding dir_ok_def by (intro distinct_update) blast
  fix g s
  assume "g \<in> fst ` set (AList.update f x d)" and p: "parseSeqFile g = Some s"
  then consider "g = f" | "g \<in> fst ` set d" unfolding dom_update by blast
  then show "g = seqFileName s \<and> s < 2 ^ 64"
  proof cases
    case 1
    then obtain t where "f = seqFileName t" "t < 2 ^ 64" using assms(2) p by auto
    then show ?thesis using 1 p by (metis option.inject parse_seqFileName)
  next
    case 2
    then show ?thesis using dir_ok_file [OF assms(1) _ p] by blast
  qed
qed

text \<open>Directories are compared through what they map the entries' names to.\<close>

lemma list_seqs_eqI:
  assumes "dir_ok d" "sorted ss" "distinct ss"
    "\<And>s. s \<in> set ss \<longleftrightarrow> s < 2 ^ 64 \<and> map_of d (seqFileName s) \<noteq> None"
  shows "list_seqs d = ss"
proof (rule sorted_distinct_set_unique)
  show "set (list_seqs d) = set ss" by (rule set_eqI) (simp only: assms(4) dir_ok_seqs [OF assms(1)])
qed (simp_all add: assms(2,3) distinct_list_seqs [OF assms(1)])

lemma list_seqs_delete:
  assumes "dir_ok d"
  shows "list_seqs (AList.delete (seqFileName s) d) = filter (\<lambda>t. t \<noteq> s) (list_seqs d)"
  using assms
  by (intro list_seqs_eqI dir_ok_delete)
     (auto simp: distinct_list_seqs dir_ok_seqs delete_conv sorted_wrt_filter)

lemma list_seqs_other:
  assumes "dir_ok d" "parseSeqFile f = None"
  shows "list_seqs (AList.update f x d) = list_seqs d" "list_seqs (AList.delete f d) = list_seqs d"
proof -
  have "seqFileName s \<noteq> f" if "s < 2 ^ 64" for s using assms(2) parse_seqFileName [OF that] by auto
  then show "list_seqs (AList.update f x d) = list_seqs d" "list_seqs (AList.delete f d) = list_seqs d"
    using assms
    by (auto intro!: list_seqs_eqI dir_ok_update dir_ok_delete
        simp: distinct_list_seqs dir_ok_seqs delete_conv update_conv' simp del: power_numeral numeral_power_eq_of_nat_cancel_iff)
qed

lemma list_seqs_update:
  assumes "dir_ok d" "s < 2 ^ 64" "\<forall>t\<in>set (list_seqs d). t < s"
  shows "list_seqs (AList.update (seqFileName s) x d) = list_seqs d @ [s]"
proof (rule list_seqs_eqI)
  show "dir_ok (AList.update (seqFileName s) x d)" using assms by (intro dir_ok_update) auto
  show "sorted (list_seqs d @ [s])" using assms(3) by (auto simp: sorted_append less_imp_le)
  show "distinct (list_seqs d @ [s])" using assms by (auto simp: distinct_list_seqs)
  show "t \<in> set (list_seqs d @ [s]) \<longleftrightarrow> t < 2 ^ 64 \<and> map_of (AList.update (seqFileName s) x d) (seqFileName t) \<noteq> None" for t
    using assms(2) by (auto simp: dir_ok_seqs [OF assms(1)] update_conv')
qed


text \<open>The entries of a directory, oldest first, with their contents.\<close>

definition entries :: "dir \<Rightarrow> (nat \<times> string) list" where
  "entries d = map (\<lambda>s. (s, the (map_of d (seqFileName s)))) (list_seqs d)"

definition buffer_ok :: "offline_buffer \<Rightarrow> bool" where
  "buffer_ok ob \<longleftrightarrow> dir_ok (ob_dir ob) \<and> 0 < ob_maxEntries ob \<and>
     (\<forall>s\<in>set (list_seqs (ob_dir ob)). s < ob_nextSeq ob)"

lemma seqs_entries: "list_seqs d = map fst (entries d)"
  by (simp add: entries_def comp_def)

lemma length_entries: "length (entries d) = length (list_seqs d)"
  by (simp add: entries_def)

lemma entries_delete_hd:
  assumes "dir_ok d" "list_seqs d = s # ss"
  shows "entries (AList.delete (seqFileName s) d) = tl (entries d)"
proof -
  have "s \<notin> set ss" using distinct_list_seqs [OF assms(1)] assms(2) by simp
  then show ?thesis
    unfolding entries_def list_seqs_delete [OF assms(1)] assms(2)
    by (auto simp: delete_conv filter_id_conv intro!: map_cong)
qed

lemma list_seqs_delete_hd:
  assumes "dir_ok d" "list_seqs d = s # ss"
  shows "list_seqs (AList.delete (seqFileName s) d) = ss"
  using entries_delete_hd [OF assms] assms(2) by (simp add: seqs_entries map_tl)

lemma os_Remove_hd:
  assumes "dir_ok d" "list_seqs d = s # ss" "\<forall>f. rm f"
  shows "os_Remove rm (seqFileName s) d = (True, AList.delete (seqFileName s) d)"
  using dir_ok_seqs [OF assms(1), of s] assms by (simp add: os_Remove_def)

lemma evict_loop_spec:
  assumes "dir_ok d" "\<forall>f. rm f" "0 < mx" "evict_loop rm mx (list_seqs d) d n = (d', n')"
  shows "dir_ok d' \<and> entries d' = keep_last (mx - 1) (entries d) \<and> n' = n + (length (entries d) + 1 - mx)"
  using assms
proof (induction "list_seqs d" arbitrary: d n)
  case Nil
  then show ?case by (simp add: entries_def)
next
  case (Cons s ss)
  note d = \<open>s # ss = list_seqs d\<close> [symmetric]
  have len: "length (entries d) = Suc (length ss)" by (simp add: length_entries d)
  show ?case
  proof (cases "mx \<le> length (s # ss)")
    case True
    let ?d = "AList.delete (seqFileName s) d"
    have ls: "list_seqs ?d = ss" by (rule list_seqs_delete_hd [OF Cons.prems(1) d])
    have "evict_loop rm mx (list_seqs ?d) ?d (n + 1) = (d', n')"
      using Cons.prems(4) True by (simp add: d ls os_Remove_hd [OF Cons.prems(1) d Cons.prems(2)])
    from Cons.hyps(1) [OF ls [symmetric] dir_ok_delete [OF Cons.prems(1)] Cons.prems(2,3) this]
    have *: "dir_ok d' \<and> entries d' = keep_last (mx - 1) (tl (entries d)) \<and> n' = n + 1 + (length ss + 1 - mx)"
      by (simp add: entries_delete_hd [OF Cons.prems(1) d] length_entries ls d)
    have "keep_last (mx - 1) (tl (entries d)) = keep_last (mx - 1) (entries d)"
      using len True by (cases "entries d") (simp_all add: keep_last_def Suc_diff_le)
    then show ?thesis using * len True by simp
  next
    case False
    then show ?thesis using Cons.prems len by (simp add: d)
  qed
qed

lemma evictIfNeeded_spec:
  assumes "buffer_ok ob" "\<forall>f. rm f" "ob' = evictIfNeeded True rm ob"
  shows "buffer_ok ob' \<and> ob_maxEntries ob' = ob_maxEntries ob \<and> ob_nextSeq ob' = ob_nextSeq ob \<and> ob_drainCount ob' = ob_drainCount ob \<and>
    entries (ob_dir ob') = keep_last (ob_maxEntries ob - 1) (entries (ob_dir ob)) \<and>
    ob_evictCount ob' = ob_evictCount ob + (length (entries (ob_dir ob)) + 1 - ob_maxEntries ob)"
proof -
  obtain d n where e: "evict_loop rm (ob_maxEntries ob) (list_seqs (ob_dir ob)) (ob_dir ob) (ob_evictCount ob) = (d, n)"
    by fastforce
  have ok: "dir_ok (ob_dir ob)" "0 < ob_maxEntries ob" using assms(1) by (simp_all add: buffer_ok_def)
  note spec = evict_loop_spec [OF ok(1) assms(2) ok(2) e]
  have "set (list_seqs d) = fst ` set (entries d)" by (simp add: seqs_entries)
  also have "\<dots> \<subseteq> fst ` set (entries (ob_dir ob))" using spec set_keep_last by fastforce
  also have "\<dots> = set (list_seqs (ob_dir ob))" by (simp add: seqs_entries)
  finally have "\<forall>s\<in>set (list_seqs d). s < ob_nextSeq ob" using assms(1) by (auto simp: buffer_ok_def)
  then show ?thesis using spec ok assms(3) by (simp add: evictIfNeeded_def e buffer_ok_def)
qed

section \<open>Push writes one entry, durably\<close>

lemma entries_other:
  assumes "dir_ok d" "parseSeqFile f = None"
  shows "entries (AList.update f x d) = entries d" "entries (AList.delete f d) = entries d"
proof -
  have "seqFileName s \<noteq> f" if "s \<in> set (list_seqs d)" for s
    using assms(2) parse_seqFileName dir_ok_seqs [OF assms(1)] that by (metis option.distinct(1))
  then show "entries (AList.update f x d) = entries d" "entries (AList.delete f d) = entries d"
    unfolding entries_def list_seqs_other [OF assms] by (auto simp: update_conv' delete_conv)
qed

lemma entries_update:
  assumes "dir_ok d" "s < 2 ^ 64" "\<forall>t\<in>set (list_seqs d). t < s"
  shows "entries (AList.update (seqFileName s) x d) = entries d @ [(s, x)]"
proof -
  have "map_of (AList.update (seqFileName s) x d) (seqFileName t) = map_of d (seqFileName t)" if "t \<in> set (list_seqs d)" for t
  proof -
    have "t \<noteq> s" using assms(3) that by blast
    then show ?thesis by (simp add: update_conv')
  qed
  then show ?thesis unfolding entries_def list_seqs_update [OF assms] by (simp add: update_conv')
qed

lemma dir_ok_tmp: "dir_ok d \<Longrightarrow> dir_ok (AList.update (f @ ''.tmp'') x d)"
  by (intro dir_ok_update) simp_all

lemma os_Remove_tmp:
  assumes "dir_ok d"
  shows "dir_ok (snd (os_Remove rm (f @ ''.tmp'') d))" "entries (snd (os_Remove rm (f @ ''.tmp'') d)) = entries d"
  using assms by (simp_all add: os_Remove_def dir_ok_delete entries_other)

text \<open>What every crash point of \<^verbatim>\<open>Push\<close>'s write leaves in the directory.\<close>

lemma write_file_states:
  assumes "dir_ok d" "n < 2 ^ 64" "\<forall>t\<in>set (list_seqs d). t < n" "write_file rm fault (seqFileName n) data d = (err, ds)"
  shows "ds \<noteq> []"
    and "d' \<in> set ds \<Longrightarrow> dir_ok d' \<and> (entries d' = entries d \<or> fault = None \<and> entries d' = entries d @ [(n, data)])"
    and "err = None \<longleftrightarrow> fault = None"
    and "dir_ok (last ds) \<and> entries (last ds) = (if fault = None then entries d @ [(n, data)] else entries d)"
proof -
  let ?tmp = "seqFileName n @ ''.tmp''"
  let ?d = "AList.delete ?tmp d"
  note t = assms(1) dir_ok_tmp [OF assms(1)] entries_other [OF assms(1) parseSeqFile_tmp]
    os_Remove_tmp [OF dir_ok_tmp [OF assms(1)]]
  have d: "dir_ok ?d" "list_seqs ?d = list_seqs d"
    using dir_ok_delete [OF assms(1)] list_seqs_other(2) [OF assms(1) parseSeqFile_tmp] by auto
  have new: "dir_ok (AList.update (seqFileName n) data ?d)" "entries (AList.update (seqFileName n) data ?d) = entries d @ [(n, data)]"
    using dir_ok_update [OF d(1), of "seqFileName n"] entries_update [OF d(1) assms(2)] assms(2,3) d t by auto
  show "ds \<noteq> []" "err = None \<longleftrightarrow> fault = None"
    "d' \<in> set ds \<Longrightarrow> dir_ok d' \<and> (entries d' = entries d \<or> fault = None \<and> entries d' = entries d @ [(n, data)])"
    "dir_ok (last ds) \<and> entries (last ds) = (if fault = None then entries d @ [(n, data)] else entries d)"
    using assms(4) new t unfolding write_file.simps Let_def
    by (auto split: option.splits push_fault.splits simp del: write_file.simps)
qed

lemma keep_last_pred: "0 < n \<Longrightarrow> keep_last (n - 1) xs @ [x] = keep_last n (xs @ [x])"
  by (cases n) (simp_all add: keep_last_def)

lemma offline_push_spec:
  assumes "buffer_ok ob" "ob_nextSeq ob + 1 < 2 ^ 64" "points \<noteq> []" "\<forall>f. rm f"
    and "marshal \<lparr>oe_seq = ob_nextSeq ob, oe_time = now, oe_points = points, oe_source = source\<rparr> = Some data"
    and "offline_Push marshal True rm fault now points source ob = (err, ob')"
  shows "(buffer_ok ob' \<and> ob_nextSeq ob' = ob_nextSeq ob + 1 \<and> ob_maxEntries ob' = ob_maxEntries ob \<and> (err = None \<longleftrightarrow> fault = None)) \<and>
    entries (ob_dir ob') =
      (if fault = None then keep_last (ob_maxEntries ob) (entries (ob_dir ob) @ [(ob_nextSeq ob, data)])
       else keep_last (ob_maxEntries ob - 1) (entries (ob_dir ob))) \<and>
    ob_evictCount ob' = ob_evictCount ob + (length (entries (ob_dir ob)) + 1 - ob_maxEntries ob)"
proof -
  define o1 where "o1 = evictIfNeeded True rm ob"
  note ev = evictIfNeeded_spec [OF assms(1,4) o1_def]
  obtain ds where w: "write_file rm fault (seqFileName (ob_nextSeq o1)) data (ob_dir o1) = (err, ds)"
    and ob': "ob' = o1\<lparr>ob_nextSeq := (ob_nextSeq o1 + 1) mod 2 ^ 64, ob_dir := last ds\<rparr>"
    using assms(3,5,6) ev
    by (auto simp: offline_Push_def Let_def o1_def [symmetric] simp del: write_file.simps split: prod.splits)
  have ok: "dir_ok (ob_dir o1)" "ob_nextSeq o1 < 2 ^ 64" "\<forall>t\<in>set (list_seqs (ob_dir o1)). t < ob_nextSeq o1"
    using ev assms(2) by (auto simp: buffer_ok_def)
  note ws = write_file_states [OF ok w]
  have seqs: "set (list_seqs (last ds)) \<subseteq> insert (ob_nextSeq ob) (set (list_seqs (ob_dir o1)))"
    using ws(4) ev by (auto simp: seqs_entries split: if_splits)
  have nx: "ob_nextSeq ob' = ob_nextSeq ob + 1" using ob' ev assms(2) by simp
  have r1: "buffer_ok ob' \<and> ob_nextSeq ob' = ob_nextSeq ob + 1 \<and> ob_maxEntries ob' = ob_maxEntries ob \<and> (err = None \<longleftrightarrow> fault = None)"
  proof -
    have "\<forall>t\<in>set (list_seqs (last ds)). t < ob_nextSeq ob + 1"
      using seqs ok(3) ev by (metis (no_types, lifting) in_mono insertE less_add_one order.strict_trans)
    then show ?thesis using ws(3,4) nx ev unfolding buffer_ok_def ob' by simp
  qed
  have r2: "entries (ob_dir ob') =
      (if fault = None then keep_last (ob_maxEntries ob) (entries (ob_dir ob) @ [(ob_nextSeq ob, data)])
       else keep_last (ob_maxEntries ob - 1) (entries (ob_dir ob)))"
    using ws(4) ev assms(1) by (simp add: ob' keep_last_pred [symmetric] buffer_ok_def)
  have r3: "ob_evictCount ob' = ob_evictCount ob + (length (entries (ob_dir ob)) + 1 - ob_maxEntries ob)"
    using ev by (simp add: ob')
  from r1 r2 r3 show ?thesis by blast
qed

text \<open>
  C12. A push that meets no fault appends its encoded entry and evicts exactly the oldest entries
  beyond the capacity: the entries on disk are the newest \<open>maxEntries\<close> of the old ones and the new one,
  contents included, in order; the eviction counter grows by the number dropped. A push that meets a
  fault while writing reports it and leaves the entries that survived the eviction, untouched.
\<close>

theorem offline_push_keeps_newest:
  assumes "buffer_ok ob" "ob_nextSeq ob + 1 < 2 ^ 64" "points \<noteq> []" "\<forall>f. rm f"
    and "marshal \<lparr>oe_seq = ob_nextSeq ob, oe_time = now, oe_points = points, oe_source = source\<rparr> = Some data"
    and "offline_Push marshal True rm fault now points source ob = (err, ob')"
  shows "(buffer_ok ob' \<and> ob_nextSeq ob' = ob_nextSeq ob + 1 \<and> ob_maxEntries ob' = ob_maxEntries ob \<and> (err = None \<longleftrightarrow> fault = None)) \<and>
    entries (ob_dir ob') =
      (if fault = None then keep_last (ob_maxEntries ob) (entries (ob_dir ob) @ [(ob_nextSeq ob, data)])
       else keep_last (ob_maxEntries ob - 1) (entries (ob_dir ob))) \<and>
    ob_evictCount ob' = ob_evictCount ob + (length (entries (ob_dir ob)) + 1 - ob_maxEntries ob)"
  using assms by (rule offline_push_spec)

section \<open>Restart\<close>

lemma scan_fold:
  "fold (\<lambda>f m. case parseSeqFile (fst f) of Some s \<Rightarrow> (if s > m then s else m) | None \<Rightarrow> m) d m0 =
   fold max (List.map_filter (\<lambda>f. parseSeqFile (fst f)) d) m0"
  by (induction d arbitrary: m0) (auto simp: List.map_filter_def max_def split: option.split)

lemma scanMaxSeq_Max: "scanMaxSeq True d = Max (insert 0 (set (list_seqs d)))"
proof -
  have "scanMaxSeq True d = fold max (List.map_filter (\<lambda>f. parseSeqFile (fst f)) d) 0"
    by (simp add: scanMaxSeq_def scan_fold)
  also have "\<dots> = Max (set (0 # List.map_filter (\<lambda>f. parseSeqFile (fst f)) d))" by (simp only: Max.set_eq_fold)
  finally show ?thesis by (simp add: list_seqs_def)
qed

text \<open>The directories of the eviction: each misses some of the oldest entries, which the capacity gives up.\<close>

lemma entries_remove:
  assumes "dir_ok d"
  shows "dir_ok (snd (os_Remove rm (seqFileName s) d))"
    and "\<exists>R\<subseteq>{s}. entries (snd (os_Remove rm (seqFileName s) d)) = filter (\<lambda>e. fst e \<notin> R) (entries d)"
proof -
  show "dir_ok (snd (os_Remove rm (seqFileName s) d))" using assms by (simp add: os_Remove_def dir_ok_delete)
  show "\<exists>R\<subseteq>{s}. entries (snd (os_Remove rm (seqFileName s) d)) = filter (\<lambda>e. fst e \<notin> R) (entries d)"
  proof (cases "map_of d (seqFileName s) \<noteq> None \<and> rm (seqFileName s)")
    case True
    have "entries (AList.delete (seqFileName s) d) = filter (\<lambda>e. fst e \<notin> {s}) (entries d)"
      unfolding entries_def list_seqs_delete [OF assms] by (auto simp: delete_conv filter_map comp_def intro!: map_cong)
    then show ?thesis using True by (intro exI [of _ "{s}"]) (simp add: os_Remove_def)
  next
    case False
    then show ?thesis by (intro exI [of _ "{}"]) (auto simp: os_Remove_def)
  qed
qed

lemma evict_dirs_states:
  assumes "dir_ok d" "d' \<in> set (evict_dirs rm mx ss d)"
  shows "dir_ok d' \<and> (\<exists>R\<subseteq>set (take (length ss + 1 - mx) ss). entries d' = filter (\<lambda>e. fst e \<notin> R) (entries d))"
  using assms
proof (induction ss arbitrary: d)
  case Nil
  then show ?case by (auto intro!: exI [of _ "{}"])
next
  case (Cons s ss)
  let ?d = "snd (os_Remove rm (seqFileName s) d)"
  show ?case
  proof (cases "d' = d")
    case True
    then show ?thesis using Cons.prems(1) by (auto intro!: exI [of _ "{}"])
  next
    case False
    then have mx: "mx \<le> Suc (length ss)" and d': "d' \<in> set (evict_dirs rm mx ss ?d)"
      using Cons.prems(2) by (auto split: if_splits)
    obtain R where R: "R \<subseteq> {s}" "entries ?d = filter (\<lambda>e. fst e \<notin> R) (entries d)"
      using entries_remove(2) [OF Cons.prems(1)] by blast
    from Cons.IH [OF entries_remove(1) [OF Cons.prems(1)] d']
    obtain R' where R': "dir_ok d'" "R' \<subseteq> set (take (length ss + 1 - mx) ss)" "entries d' = filter (\<lambda>e. fst e \<notin> R') (entries ?d)"
      by blast
    have "entries d' = filter (\<lambda>e. fst e \<notin> R \<union> R') (entries d)" using R(2) R'(3) by (simp add: conj_commute)
    moreover have "R \<union> R' \<subseteq> set (take (length (s # ss) + 1 - mx) (s # ss))"
      using R(1) R'(2) mx by (auto simp: Suc_diff_le)
    ultimately show ?thesis using R'(1) by blast
  qed
qed

lemma evict_dirs_last: "last (evict_dirs rm mx ss d) = fst (evict_loop rm mx ss d n)" "evict_dirs rm mx ss d \<noteq> []"
  by (induction ss arbitrary: d n) (auto split: prod.splits)

lemma evict_dirs_first: "d \<in> set (evict_dirs rm mx ss d)"
  by (cases ss) simp_all

lemma evictIfNeeded_dir:
  "ob_dir (evictIfNeeded ls rm ob) =
     last (if ls then evict_dirs rm (ob_maxEntries ob) (list_seqs (ob_dir ob)) (ob_dir ob) else [ob_dir ob])"
  "ob_nextSeq (evictIfNeeded ls rm ob) = ob_nextSeq ob"
  by (simp_all add: evictIfNeeded_def evict_dirs_last(1) [of rm _ _ _ "ob_evictCount ob"] split: prod.splits)

lemma write_file_nonempty: "snd (write_file rm fault full data d) \<noteq> []"
  by (simp add: Let_def split: option.splits push_fault.splits)

lemma push_dirs_last: "last (push_dirs marshal ls rm fault now points source ob) = ob_dir (snd (offline_Push marshal ls rm fault now points source ob))"
  using write_file_nonempty
  by (simp add: push_dirs_def offline_Push_def Let_def evictIfNeeded_dir last_append split: option.splits prod.splits
      del: write_file.simps)

lemma restart_ok:
  assumes "dir_ok d" "\<forall>t\<in>set (list_seqs d). t + 1 < 2 ^ 64" "NewOfflineBuffer True (Some d) path maxEntries = Inr ob'"
  shows "buffer_ok ob'" "ob_dir ob' = d"
proof -
  have ob': "ob_dir ob' = d" "ob_nextSeq ob' = (scanMaxSeq True d + 1) mod 2 ^ 64" "0 < ob_maxEntries ob'"
    using assms(3) unfolding NewOfflineBuffer_def by (auto simp: DefaultOfflineBufferMaxEntries_def split: if_splits)
  have "scanMaxSeq True d + 1 < 2 ^ 64"
    unfolding scanMaxSeq_Max using assms(2) Max_in [of "insert 0 (set (list_seqs d))"] by auto
  then have "ob_nextSeq ob' = scanMaxSeq True d + 1" using ob'(2) by simp
  then have "t < ob_nextSeq ob'" if "t \<in> set (list_seqs d)" for t
    using that unfolding scanMaxSeq_Max by (simp add: less_Suc_eq_le)
  then show "buffer_ok ob'" "ob_dir ob' = d" using assms(1) ob' by (simp_all add: buffer_ok_def)
qed


section \<open>Drain\<close>

text \<open>The batches of one transport among the entries \<open>ss\<close>, in their order.\<close>

definition decoded :: "(string \<Rightarrow> offline_entry option) \<Rightarrow> dir \<Rightarrow> nat \<Rightarrow> offline_entry option" where
  "decoded unmarshal d s = Option.bind (map_of d (seqFileName s)) unmarshal"

fun pick :: "(string \<Rightarrow> offline_entry option) \<Rightarrow> string \<Rightarrow> dir \<Rightarrow> nat list \<Rightarrow> data_point list list" where
  "pick u src d [] = []"
| "pick u src d (s # ss) =
     (case decoded u d s of
        None \<Rightarrow> pick u src d ss
      | Some e \<Rightarrow> if oe_source e = src then oe_points e # pick u src d ss else pick u src d ss)"

definition pending :: "(string \<Rightarrow> offline_entry option) \<Rightarrow> string \<Rightarrow> offline_buffer \<Rightarrow> data_point list list" where
  "pending unmarshal source ob = pick unmarshal source (ob_dir ob) (list_seqs (ob_dir ob))"

lemma pick_cong:
  "(\<And>s. s \<in> set ss \<Longrightarrow> map_of d' (seqFileName s) = map_of d (seqFileName s)) \<Longrightarrow> pick u src d' ss = pick u src d ss"
  by (induction ss) (simp_all add: decoded_def split: option.split)

text \<open>A file that was removed, or could not be.\<close>

lemma map_of_os_Remove:
  "map_of (snd (os_Remove rm f d)) g = (if g = f \<and> rm f then None else map_of d g)"
  by (auto simp: os_Remove_def delete_conv)

lemma os_Remove_other: "s \<notin> set ss \<Longrightarrow> pick u src (snd (os_Remove rm (seqFileName s) d)) ss = pick u src d ss"
  by (rule pick_cong) (auto simp: map_of_os_Remove)

text \<open>
  What a drain loop has done: it delivered the first \<open>n\<close> own batches; \<open>ks\<close> are delivered batches whose
  files could not be removed.
\<close>

definition drained ::
  "(string \<Rightarrow> offline_entry option) \<Rightarrow> (string \<Rightarrow> bool) \<Rightarrow> (string \<Rightarrow> bool) \<Rightarrow> string \<Rightarrow> (data_point list list \<Rightarrow> data_point list \<Rightarrow> bool) \<Rightarrow>
   nat list \<Rightarrow> data_point list list \<Rightarrow> dir \<Rightarrow> data_point list list \<times> string option \<times> dir \<Rightarrow> nat \<Rightarrow> data_point list list \<Rightarrow> bool" where
  "drained u rd rm src up ss done d r n ks \<longleftrightarrow> (case r of (done', err, d') \<Rightarrow>
     n \<le> length (pick u src d ss) \<and> done' = done @ take n (pick u src d ss) \<and>
     pick u src d' ss = ks @ drop n (pick u src d ss) \<and> subseq ks (take n (pick u src d ss)) \<and>
     ((\<forall>f. rm f) \<longrightarrow> ks = []) \<and>
     ((\<forall>f. rd f) \<longrightarrow> err = None \<and> (n < length (pick u src d ss) \<longrightarrow> \<not> up done' (pick u src d ss ! n))) \<and>
     (\<forall>src'. src' \<noteq> src \<longrightarrow> pick u src' d' ss = pick u src' d ss) \<and>
     (\<forall>f. f \<notin> seqFileName ` set ss \<longrightarrow> map_of d' f = map_of d f) \<and>
     (\<forall>f. map_of d' f \<noteq> None \<longrightarrow> map_of d' f = map_of d f))"

lemma drained_stop:
  assumes "\<not> up done (hd (pick u src d ss))" "pick u src d ss \<noteq> []"
  shows "drained u rd rm src up ss done d (done, None, d) 0 []"
  using assms by (simp add: drained_def hd_conv_nth)

lemma drained_rest:
  assumes "s \<notin> set ss" "drained u rd rm src up ss done1 d1 (done', err, d') n ks"
  shows "decoded u d' s = decoded u d1 s"
proof -
  have "seqFileName s \<notin> seqFileName ` set ss" using assms(1) by auto
  then show ?thesis using assms(2) by (simp add: drained_def decoded_def)
qed

text \<open>One entry: the maps before and after it are related through the removal.\<close>

lemma removed_map:
  assumes "d1 = d \<or> d1 = snd (os_Remove rm (seqFileName s) d)"
    and "\<forall>f. f \<notin> seqFileName ` set ss \<longrightarrow> map_of d' f = map_of d1 f" "\<forall>f. map_of d' f \<noteq> None \<longrightarrow> map_of d' f = map_of d1 f"
  shows "(\<forall>f. f \<notin> seqFileName ` set (s # ss) \<longrightarrow> map_of d' f = map_of d f) \<and> (\<forall>f. map_of d' f \<noteq> None \<longrightarrow> map_of d' f = map_of d f)"
proof (intro conjI allI impI)
  fix f
  have m: "map_of d1 f = map_of d f \<or> f = seqFileName s \<and> map_of d1 f = None"
    using assms(1) by (auto simp: map_of_os_Remove split: if_splits)
  show "map_of d' f = map_of d f" if "f \<notin> seqFileName ` set (s # ss)" using assms(2) m that by auto
  show "map_of d' f = map_of d f" if "map_of d' f \<noteq> None" using assms(3) m that by metis
qed

lemma drained_skip:
  assumes "s \<notin> set ss" "d1 = d \<or> d1 = snd (os_Remove rm (seqFileName s) d)" "decoded u d1 s = decoded u d s"
    and "\<forall>e. decoded u d s = Some e \<longrightarrow> oe_source e \<noteq> src"
    and "drained u rd rm src up ss done d1 r n ks"
  shows "drained u rd rm src up (s # ss) done d r n ks"
proof -
  obtain done' err d' where r: "r = (done', err, d')" by (cases r)
  note dr = assms(5) [unfolded r]
  have p: "pick u src'' d1 ss = pick u src'' d ss" for src'' using assms(1,2) os_Remove_other by blast
  have q: "pick u src d (s # ss) = pick u src d1 ss" "pick u src d' (s # ss) = pick u src d' ss"
    using assms(3,4) drained_rest [OF assms(1) dr] p by (auto split: option.splits)
  have other: "pick u src' d' (s # ss) = pick u src' d (s # ss)" if "src' \<noteq> src" for src'
    using assms(3) dr drained_rest [OF assms(1) dr] p that by (auto simp: drained_def split: option.split)
  have m: "(\<forall>f. f \<notin> seqFileName ` set (s # ss) \<longrightarrow> map_of d' f = map_of d f) \<and> (\<forall>f. map_of d' f \<noteq> None \<longrightarrow> map_of d' f = map_of d f)"
    using dr by (intro removed_map [OF assms(2)]) (simp_all add: drained_def)
  show ?thesis
    using dr other m unfolding r drained_def prod.case q(2) unfolding q(1) by (elim conjE) (intro conjI; blast)
qed

lemma drained_take:
  assumes "s \<notin> set ss" "decoded u d s = Some e" "oe_source e = src"
    and "drained u rd rm src up ss (done @ [oe_points e]) (snd (os_Remove rm (seqFileName s) d)) r n ks"
  shows "drained u rd rm src up (s # ss) done d r (Suc n) (if rm (seqFileName s) then ks else oe_points e # ks)"
proof -
  obtain done' err d' where r: "r = (done', err, d')" by (cases r)
  let ?d1 = "snd (os_Remove rm (seqFileName s) d)"
  note dr = assms(4) [unfolded r]
  have p: "pick u src'' ?d1 ss = pick u src'' d ss" for src'' by (rule os_Remove_other [OF assms(1)])
  have q: "pick u src d (s # ss) = oe_points e # pick u src ?d1 ss" using assms(2,3) p by simp
  have dec: "decoded u d' s = (if rm (seqFileName s) then None else Some e)"
    using drained_rest [OF assms(1) dr] assms(2) by (simp add: decoded_def map_of_os_Remove)
  have other: "pick u src' d' (s # ss) = pick u src' d (s # ss)" if "src' \<noteq> src" for src'
    using assms(2,3) dr dec p that by (auto simp: drained_def)
  have m: "(\<forall>f. f \<notin> seqFileName ` set (s # ss) \<longrightarrow> map_of d' f = map_of d f) \<and> (\<forall>f. map_of d' f \<noteq> None \<longrightarrow> map_of d' f = map_of d f)"
    using dr by (intro removed_map [where ?d1.0 = ?d1 and rm = rm, OF disjI2 [OF refl]]) (simp_all add: drained_def)
  have r': "pick u src d' (s # ss) = (if rm (seqFileName s) then [] else [oe_points e]) @ pick u src d' ss"
    using dec assms(3) by simp
  define P where "P = pick u src ?d1 ss"
  have f: "n \<le> length P" "done' = (done @ [oe_points e]) @ take n P" "pick u src d' ss = ks @ drop n P" "subseq ks (take n P)"
    "(\<forall>f. rm f) \<longrightarrow> ks = []" "(\<forall>f. rd f) \<longrightarrow> err = None \<and> (n < length P \<longrightarrow> \<not> up done' (P ! n))"
    using dr unfolding drained_def prod.case P_def by blast+
  show ?thesis
    unfolding r drained_def prod.case r' unfolding q P_def [symmetric]
    using other m f(6) by (intro conjI) (simp_all add: f(1-5) list_emb_Cons [OF f(4)])
qed

lemma drain_loop_spec:
  assumes "distinct ss"
  shows "\<exists>n ks. drained u rd rm src up ss done d (drain_loop u rd rm src up ss done d) n ks"
  using assms
proof (induction ss arbitrary: "done" d)
  case Nil
  show ?case by (intro exI [of _ 0] exI [of _ "[]"]) (simp add: drained_def)
next
  case (Cons s ss)
  then have s: "s \<notin> set ss" "distinct ss" by simp_all
  let ?f = "seqFileName s" and ?loop = "drain_loop u rd rm src up"
  let ?d = "snd (os_Remove rm ?f d)"
  have skip: ?case if "?loop (s # ss) done d = ?loop ss done d1" "d1 = d \<or> d1 = ?d" "decoded u d1 s = decoded u d s"
    "\<forall>e. decoded u d s = Some e \<longrightarrow> oe_source e \<noteq> src" for d1
    using Cons.IH [OF s(2), of "done" d1] drained_skip [OF s(1) that(2,3,4)] that(1) by metis
  consider (missing) "map_of d ?f = None"
    | (unread) x where "map_of d ?f = Some x" "\<not> rd ?f"
    | (corrupt) x where "map_of d ?f = Some x" "rd ?f" "u x = None"
    | (foreign) x e where "map_of d ?f = Some x" "rd ?f" "u x = Some e" "oe_source e \<noteq> src"
    | (refused) x e where "map_of d ?f = Some x" "rd ?f" "u x = Some e" "oe_source e = src" "\<not> up done (oe_points e)"
    | (sent) x e where "map_of d ?f = Some x" "rd ?f" "u x = Some e" "oe_source e = src" "up done (oe_points e)"
    by (metis option.exhaust)
  then show ?case
  proof cases
    case missing
    then show ?thesis by (intro skip [of d]) (simp_all add: decoded_def)
  next
    case unread
    then show ?thesis by (intro exI [of _ 0] exI [of _ "[]"]) (auto simp: drained_def)
  next
    case corrupt
    then show ?thesis by (intro skip [of ?d]) (simp_all add: decoded_def map_of_os_Remove)
  next
    case foreign
    then show ?thesis by (intro skip [of d]) (simp_all add: decoded_def)
  next
    case refused
    then have "pick u src d (s # ss) = oe_points e # pick u src d ss" by (simp add: decoded_def)
    then have "drained u rd rm src up (s # ss) done d (done, None, d) 0 []" by (intro drained_stop) (simp_all add: refused del: pick.simps)
    then show ?thesis using refused by auto
  next
    case sent
    then have "decoded u d s = Some e" by (simp add: decoded_def)
    moreover obtain n ks where "drained u rd rm src up ss (done @ [oe_points e]) ?d (?loop ss (done @ [oe_points e]) ?d) n ks"
      using Cons.IH [OF s(2)] by blast
    ultimately have "drained u rd rm src up (s # ss) done d (?loop ss (done @ [oe_points e]) ?d) (Suc n) (if rm ?f then ks else oe_points e # ks)"
      by (rule drained_take [OF s(1) _ sent(4)])
    moreover have "?loop (s # ss) done d = ?loop ss (done @ [oe_points e]) ?d" using sent by simp
    ultimately show ?thesis by metis
  qed
qed

lemma drain_loop_dir_ok: "dir_ok d \<Longrightarrow> dir_ok (snd (snd (drain_loop u rd rm src up ss done d)))"
  by (induction u rd rm src up ss "done" d rule: drain_loop.induct)
     (auto simp: os_Remove_def dir_ok_delete split: option.split)

lemma pick_filter: "pick u src d (filter (\<lambda>s. map_of d (seqFileName s) \<noteq> None) ss) = pick u src d ss"
  by (induction ss) (auto simp: decoded_def split: option.split)

lemma pending_removed:
  assumes "dir_ok d" "dir_ok d'" "\<forall>f. map_of d' f \<noteq> None \<longrightarrow> map_of d' f = map_of d f"
  shows "list_seqs d' = filter (\<lambda>s. map_of d' (seqFileName s) \<noteq> None) (list_seqs d)"
    "pick u src d' (list_seqs d') = pick u src d' (list_seqs d)"
proof -
  show "list_seqs d' = filter (\<lambda>s. map_of d' (seqFileName s) \<noteq> None) (list_seqs d)"
  proof (rule list_seqs_eqI [OF assms(2)])
    show "s \<in> set (filter (\<lambda>s. map_of d' (seqFileName s) \<noteq> None) (list_seqs d)) \<longleftrightarrow> s < 2 ^ 64 \<and> map_of d' (seqFileName s) \<noteq> None" for s
      using assms(3) unfolding set_filter dir_ok_seqs [OF assms(1)] mem_Collect_eq by metis
  qed (simp_all add: distinct_list_seqs [OF assms(1)] sorted_wrt_filter)
  then show "pick u src d' (list_seqs d') = pick u src d' (list_seqs d)" by (simp only: pick_filter)
qed

lemma Drain_drained:
  assumes "buffer_ok ob" "Drain u True rd rm src up ob = (done, err, ob')"
  obtains n ks where "drained u rd rm src up (list_seqs (ob_dir ob)) [] (ob_dir ob) (done, err, ob_dir ob') n ks"
    and "dir_ok (ob_dir ob')" "ob_nextSeq ob' = ob_nextSeq ob" "ob_maxEntries ob' = ob_maxEntries ob"
    and "ob_drainCount ob' = ob_drainCount ob + length done"
proof -
  have ok: "dir_ok (ob_dir ob)" using assms(1) by (simp add: buffer_ok_def)
  have "drain_loop u rd rm src up (list_seqs (ob_dir ob)) [] (ob_dir ob) = (done, err, ob_dir ob')"
    and rest: "ob_nextSeq ob' = ob_nextSeq ob" "ob_maxEntries ob' = ob_maxEntries ob" "ob_drainCount ob' = ob_drainCount ob + length done"
    using assms(2) by (auto simp: Drain_def split: prod.splits)
  with drain_loop_spec [OF distinct_list_seqs [OF ok], of u rd rm src up "[]" "ob_dir ob"] drain_loop_dir_ok [OF ok, of u rd rm src up "list_seqs (ob_dir ob)" "[]"]
  show ?thesis using that rest by (metis snd_conv)
qed

lemma drain_spec:
  assumes "buffer_ok ob" "Drain u True rd rm src up ob = (done, err, ob')"
  shows "\<exists>n ks. done = take n (pending u src ob) \<and> pending u src ob' = ks @ drop n (pending u src ob) \<and> subseq ks done \<and>
    ((\<forall>f. rm f) \<longrightarrow> ks = []) \<and>
    ((\<forall>f. rd f) \<longrightarrow> err = None \<and> (n < length (pending u src ob) \<longrightarrow> \<not> up done (pending u src ob ! n))) \<and>
    (\<forall>src'. src' \<noteq> src \<longrightarrow> pending u src' ob' = pending u src' ob) \<and>
    buffer_ok ob' \<and> ob_drainCount ob' = ob_drainCount ob + length done"
proof -
  obtain n ks where dr: "drained u rd rm src up (list_seqs (ob_dir ob)) [] (ob_dir ob) (done, err, ob_dir ob') n ks"
    and ok': "dir_ok (ob_dir ob')" and rest: "ob_nextSeq ob' = ob_nextSeq ob" "ob_maxEntries ob' = ob_maxEntries ob"
      "ob_drainCount ob' = ob_drainCount ob + length done"
    using Drain_drained [OF assms] by metis
  have ok: "dir_ok (ob_dir ob)" using assms(1) by (simp add: buffer_ok_def)
  have sub: "\<forall>f. map_of (ob_dir ob') f \<noteq> None \<longrightarrow> map_of (ob_dir ob') f = map_of (ob_dir ob) f"
    using dr by (simp add: drained_def)
  note pr = pending_removed [OF ok ok' sub]
  have "set (list_seqs (ob_dir ob')) \<subseteq> set (list_seqs (ob_dir ob))" unfolding pr(1) by simp
  then have "buffer_ok ob'" using assms(1) ok' rest unfolding buffer_ok_def by auto
  then show ?thesis
    using dr rest unfolding pending_def pr(2) drained_def prod.case append_Nil
    by (intro exI [of _ n] exI [of _ ks]) blast
qed

text \<open>
  C11. A drain replays the batches its transport buffered, and no other, oldest first and without a
  gap, whatever file cannot be read or removed: what it delivered is the first \<open>n\<close> of the batches pending
  for it, the rest stays on disk in order behind at most some of the delivered ones (their files could
  not be removed: a second delivery, never a loss), and the batches of every other transport are left
  alone. When files can be removed nothing is delivered twice; when they can be read the drain stops
  only at the end or at a batch the transport refused.
\<close>

theorem drain_replays_in_order:
  assumes "buffer_ok ob" "Drain u True rd rm src up ob = (done, err, ob')"
  shows "\<exists>n ks. done = take n (pending u src ob) \<and> pending u src ob' = ks @ drop n (pending u src ob) \<and> subseq ks done \<and>
    ((\<forall>f. rm f) \<longrightarrow> ks = []) \<and>
    ((\<forall>f. rd f) \<longrightarrow> err = None \<and> (n < length (pending u src ob) \<longrightarrow> \<not> up done (pending u src ob ! n))) \<and>
    (\<forall>src'. src' \<noteq> src \<longrightarrow> pending u src' ob' = pending u src' ob) \<and>
    buffer_ok ob' \<and> ob_drainCount ob' = ob_drainCount ob + length done"
  using assms by (rule drain_spec)

section \<open>A buffer with two entries\<close>

text \<open>Transport \<^verbatim>\<open>a\<close> and transport \<^verbatim>\<open>b\<close> have one batch each; the encoding used here is the transport's name.\<close>

definition demo_buffer :: offline_buffer where
  "demo_buffer = \<lparr>ob_maxEntries = 2, ob_nextSeq = 3, ob_dir = [(seqFileName 2, ''b''), (seqFileName 1, ''a'')],
     ob_drainCount = 0, ob_evictCount = 0\<rparr>"

definition demo_marshal :: "offline_entry \<Rightarrow> string option" where
  "demo_marshal e = Some (oe_source e)"

definition demo_unmarshal :: "string \<Rightarrow> offline_entry option" where
  "demo_unmarshal x = Some \<lparr>oe_seq = 0, oe_time = 0, oe_points = [sample_point x x], oe_source = x\<rparr>"

lemma demo_dir_ok: "dir_ok (ob_dir demo_buffer)"
  by (rule dir_okI) (auto simp: demo_buffer_def)

lemma demo_seqs: "list_seqs (ob_dir demo_buffer) = [1, 2]"
  by (simp add: demo_buffer_def list_seqs_def List.map_filter_def)

lemma demo_buffer_ok: "buffer_ok demo_buffer"
  using demo_dir_ok demo_seqs by (simp add: buffer_ok_def) (simp add: demo_buffer_def)

lemma demo_entries: "entries (ob_dir demo_buffer) = [(1, ''a''), (2, ''b'')]"
  unfolding entries_def demo_seqs by (simp add: demo_buffer_def)

theorem offline_push_keeps_newest_witness:
  "entries (ob_dir (snd (offline_Push demo_marshal True (\<lambda>_. True) None 0 [sample_point ''c'' ''x''] ''c'' demo_buffer))) = [(2, ''b''), (3, ''c'')]
   \<and> ob_evictCount (snd (offline_Push demo_marshal True (\<lambda>_. True) None 0 [sample_point ''c'' ''x''] ''c'' demo_buffer)) = 1"
proof -
  obtain err ob' where p: "offline_Push demo_marshal True (\<lambda>_. True) None 0 [sample_point ''c'' ''x''] ''c'' demo_buffer = (err, ob')"
    by fastforce
  have "entries (ob_dir ob') = keep_last 2 ([(1, ''a''), (2, ''b'')] @ [(3, ''c'')]) \<and> ob_evictCount ob' = 1"
    using offline_push_keeps_newest [OF demo_buffer_ok _ _ _ _ p, of "''c''"]
    unfolding demo_entries by (simp add: demo_marshal_def) (simp add: demo_buffer_def)
  then show ?thesis unfolding p by (simp add: keep_last_def)
qed


theorem drain_replays_in_order_witness:
  "\<exists>err ob'. Drain demo_unmarshal True (\<lambda>_. True) (\<lambda>_. True) ''b'' (\<lambda>_ _. True) demo_buffer = ([[sample_point ''b'' ''b'']], err, ob')
     \<and> err = None \<and> pending demo_unmarshal ''b'' ob' = [] \<and> pending demo_unmarshal ''a'' ob' = [[sample_point ''a'' ''a'']]"
proof -
  obtain done' err ob' where d: "Drain demo_unmarshal True (\<lambda>_. True) (\<lambda>_. True) ''b'' (\<lambda>_ _. True) demo_buffer = (done', err, ob')"
    by (metis prod_cases3)
  have p: "pending demo_unmarshal ''b'' demo_buffer = [[sample_point ''b'' ''b'']]" "pending demo_unmarshal ''a'' demo_buffer = [[sample_point ''a'' ''a'']]"
    unfolding pending_def demo_seqs by (simp_all add: demo_buffer_def decoded_def demo_unmarshal_def)
  show ?thesis using drain_replays_in_order [OF demo_buffer_ok d] unfolding d p(1) by (auto simp: p(2))
qed

section \<open>Eviction comes before encoding\<close>

text \<open>
  A push whose batch cannot be encoded, for instance one with a \<^verbatim>\<open>NaN\<close> value, stores nothing and still
  evicts the oldest batch of a full buffer.
\<close>

lemma unencodable_batch_evicts:
  "offline_Push (\<lambda>_. None) True (\<lambda>_. True) None 0 [sample_point ''c'' ''x''] ''c'' demo_buffer =
     (Some ''offline buffer: marshal'', demo_buffer\<lparr>ob_dir := [(seqFileName 2, ''b'')], ob_nextSeq := 4, ob_evictCount := 1\<rparr>)"
  unfolding offline_Push_def evictIfNeeded_def demo_seqs
  by (simp add: demo_buffer_def os_Remove_def)

end
