(* ===== verification/Go_Time.thy ===== *)
theory Go_Time
  imports Go_Float Go_Fmt
begin

text \<open>
  \<^verbatim>\<open>time.ParseDuration\<close> of the Go standard library: an optional sign, then \<open>0\<close> or a sequence of
  decimal numbers with an optional fraction and a unit. The fraction is scaled in \<^verbatim>\<open>float64\<close>, the
  number is kept below \<open>2 ^ 63\<close>. Strings are bytes, so the two spellings of the micro sign are two
  bytes each.
\<close>

fun leading_int :: "string \<Rightarrow> nat \<Rightarrow> (nat \<times> string) option" where
  "leading_int [] x = Some (x, [])"
| "leading_int (c # s) x =
     (if \<not> is_digit c then Some (x, c # s)
      else if x > 2 ^ 63 div 10 then None
      else if x * 10 + digit_val c > 2 ^ 63 then None
      else leading_int s (x * 10 + digit_val c))"

fun leading_fraction :: "string \<Rightarrow> nat \<Rightarrow> f64 \<Rightarrow> bool \<Rightarrow> nat \<times> f64 \<times> string" where
  "leading_fraction [] x scale over = (x, scale, [])"
| "leading_fraction (c # s) x scale over =
     (if \<not> is_digit c then (x, scale, c # s)
      else if over \<or> x > (2 ^ 63 - 1) div 10 \<or> x * 10 + digit_val c > 2 ^ 63 then leading_fraction s x scale True
      else leading_fraction s (x * 10 + digit_val c) (f64_mul scale (f64_of_int 10)) False)"

definition duration_units :: "(string \<times> nat) list" where
  "duration_units =
     [(''ns'', 1), (''us'', 1000), (map char_of [194 :: nat, 181, 115], 1000), (map char_of [206 :: nat, 188, 115], 1000),
      (''ms'', 1000000), (''s'', 1000000000), (''m'', 60000000000), (''h'', 3600000000000)]"

definition unit_char :: "char \<Rightarrow> bool" where
  "unit_char c \<longleftrightarrow> c \<noteq> CHR ''.'' \<and> \<not> is_digit c"

text \<open>The fraction of a number: its digits, their scale, the rest, and whether there was a digit.\<close>

definition fraction_part :: "string \<Rightarrow> nat \<times> f64 \<times> string \<times> bool" where
  "fraction_part s =
     (case s of
        [] \<Rightarrow> (0, f64_of_int 1, s, False)
      | c # s' \<Rightarrow>
          if c = CHR ''.''
          then (case leading_fraction s' 0 (f64_of_int 1) False of
                  (f, scale, r) \<Rightarrow> (f, scale, r, length r \<noteq> length s'))
          else (0, f64_of_int 1, s, False))"

text \<open>One number with its unit, and the rest.\<close>

definition duration_part :: "string \<Rightarrow> (nat \<times> string) option" where
  "duration_part s =
     (if \<not> (hd s = CHR ''.'' \<or> is_digit (hd s)) then None
      else case leading_int s 0 of
             None \<Rightarrow> None
           | Some (v, s1) \<Rightarrow>
               (case fraction_part s1 of
                  (f, scale, s2, post) \<Rightarrow>
                    if length s1 = length s \<and> \<not> post then None
                    else if takeWhile unit_char s2 = [] then None
                    else (case map_of duration_units (takeWhile unit_char s2) of
                            None \<Rightarrow> None
                          | Some unit \<Rightarrow>
                              if v > 2 ^ 63 div unit then None
                              else let frac = (if f > 0 then nat \<lfloor>f64_val (f64_mul (f64_of_int (int f)) (f64_div (f64_of_int (int unit)) scale))\<rfloor> else 0)
                                   in if v * unit + frac > 2 ^ 63 then None
                                      else Some (v * unit + frac, dropWhile unit_char s2))))"

lemma leading_int_length: "leading_int s x = Some (y, r) \<Longrightarrow> length r \<le> length s"
  by (induction s x rule: leading_int.induct) (auto split: if_splits)

lemma leading_fraction_length: "length (snd (snd (leading_fraction s x scale over))) \<le> length s"
  by (induction s x scale over rule: leading_fraction.induct) (auto simp: le_Suc_eq)

lemma fraction_part_length: "fraction_part s = (f, scale, r, post) \<Longrightarrow> length r \<le> length s"
  using leading_fraction_length
  by (auto simp: fraction_part_def split: list.splits if_splits prod.splits)
     (metis le_SucI snd_conv)

lemma duration_part_shorter:
  assumes "duration_part s = Some (v, r)"
  shows "length r < length s"
proof -
  obtain w s1 f scale s2 post where l: "leading_int s 0 = Some (w, s1)" and fr: "fraction_part s1 = (f, scale, s2, post)"
    and u: "takeWhile unit_char s2 \<noteq> []" and r: "r = dropWhile unit_char s2"
    using assms by (auto simp: duration_part_def Let_def split: if_splits option.splits prod.splits)
  have "length s2 \<le> length s" using leading_int_length [OF l] fraction_part_length [OF fr] by simp
  moreover have "length (takeWhile unit_char s2) + length r = length s2" unfolding r by (metis length_append takeWhile_dropWhile_id)
  ultimately show ?thesis using u by (cases "takeWhile unit_char s2") simp_all
qed

function duration_parts :: "string \<Rightarrow> nat \<Rightarrow> nat option" where
  "duration_parts s d =
     (if s = [] then Some d
      else case duration_part s of
             None \<Rightarrow> None
           | Some (v, r) \<Rightarrow> if (d + v) mod 2 ^ 64 > 2 ^ 63 then None else duration_parts r ((d + v) mod 2 ^ 64))"
  by pat_completeness auto
termination
  by (relation "measure (\<lambda>(s, d). length s)") (auto simp: duration_part_shorter)

declare duration_parts.simps [simp del]

definition parse_duration :: "string \<Rightarrow> time option" where
  "parse_duration s =
     (let neg = (s \<noteq> [] \<and> hd s = CHR ''-'');
          s' = (if s \<noteq> [] \<and> (hd s = CHR ''-'' \<or> hd s = CHR ''+'') then tl s else s)
      in if s' = ''0'' then Some 0
         else if s' = [] then None
         else case duration_parts s' 0 of
                None \<Rightarrow> None
              | Some d \<Rightarrow> if neg then Some (- int d) else if d > 2 ^ 63 - 1 then None else Some (int d))"

text \<open>A whole number with a unit parses to the product.\<close>

lemma leading_int_digits:
  assumes "list_all is_digit t" "s = [] \<or> \<not> is_digit (hd s)" "foldl (\<lambda>x c. 10 * x + digit_val c) x t \<le> 2 ^ 63"
  shows "leading_int (t @ s) x = Some (foldl (\<lambda>x c. 10 * x + digit_val c) x t, s)"
  using assms
proof (induction t arbitrary: x)
  case Nil
  then show ?case by (cases s) auto
next
  case (Cons c t)
  let ?f = "foldl (\<lambda>x c. 10 * x + digit_val c)"
  have mono: "y \<le> ?f y t" for y
  proof (induction t arbitrary: y)
    case (Cons c t)
    show ?case using Cons [of "10 * y + digit_val c"] by simp
  qed simp
  have "10 * x + digit_val c \<le> 2 ^ 63" using mono [of "10 * x + digit_val c"] Cons.prems(3) by simp
  then show ?case using Cons by (simp add: mult.commute)
qed

lemma parse_duration_whole:
  assumes "map_of duration_units u = Some k" "n * k < 2 ^ 63" "u \<noteq> []" "list_all unit_char u"
  shows "parse_duration (show_nat n @ u) = Some (int (n * k))"
proof -
  have dig: "list_all is_digit (show_nat n)" using show_nat_digits [of _ n] by (auto simp: list_all_iff)
  obtain c t where cs: "show_nat n = c # t" by (cases "show_nat n") auto
  have c: "is_digit c" using dig cs by simp
  then have nosign: "c \<noteq> CHR ''-''" "c \<noteq> CHR ''+''" by (auto simp: is_digit_def)
  have k: "0 < k" using assms(1) by (auto simp: duration_units_def split: if_splits)
  have u: "\<not> is_digit (hd u)" "hd u \<noteq> CHR ''.''" using assms(3,4) by (cases u; simp add: unit_char_def)+
  have n: "n \<le> 2 ^ 63" using assms(2) k by (metis less_imp_le_nat le_trans mult.right_neutral mult_le_mono2 Suc_leI One_nat_def)
  have li: "leading_int (show_nat n @ u) 0 = Some (n, u)"
    using leading_int_digits [OF dig, of u 0] u(1) n digits_val_show_nat [of n] unfolding digits_val_def by simp
  have fr: "fraction_part u = (0, f64_of_int 1, u, False)" using assms(3) u by (cases u) (simp_all add: fraction_part_def)
  have tw: "takeWhile unit_char u = u" "dropWhile unit_char u = []" using assms(4) by (simp_all add: list_all_iff takeWhile_eq_all_conv)
  have dv: "n \<le> 2 ^ 63 div k" using assms(2) k by (simp add: less_eq_div_iff_mult_less_eq)
  have hd: "is_digit (hd (show_nat n))" "length u \<noteq> length (show_nat n @ u)" using c cs by simp_all
  have "duration_part (show_nat n @ u) = Some (n * k, [])"
    using assms(2) dv by (simp add: duration_part_def li fr tw assms(1,3) hd Let_def)
  then have "duration_parts (show_nat n @ u) 0 = Some (n * k)"
    using assms(2) cs by (simp add: duration_parts.simps [of _ 0] duration_parts.simps [of "[]"])
  moreover have "show_nat n @ u \<noteq> ''0''" using assms(3) cs by auto
  ultimately show ?thesis using assms(2,3) cs nosign by (auto simp: parse_duration_def Let_def)
qed

end
