(* ===== verification/Batcher.thy ===== *)
theory Batcher
  imports Offline_Buffer Write_Manager Go_Time "HOL-Library.Multiset" "HOL-Library.Countable"
begin

text \<open>
  The transport batcher, \<^verbatim>\<open>engine/batcher.go\<close> and \<^verbatim>\<open>engine/batcher_retry.go\<close>: points are collected into
  batches, full batches go through a bounded channel to the flush loop, a batch that exhausts its
  retries goes to the offline buffer.

  First the operations as functions of one goroutine, then all goroutines together as a step
  relation: the mutex makes \<^verbatim>\<open>publish\<close>, \<^verbatim>\<open>flush\<close> and the flag of \<^verbatim>\<open>stop\<close> exclude each other, while the flush loop
  receives from the channel between any two channel operations of \<^verbatim>\<open>publish\<close>.
\<close>

definition defaultRetryMaxDelay :: time where "defaultRetryMaxDelay = 5 * second"
definition defaultFlushInterval :: time where "defaultFlushInterval = 5 * second"
definition defaultFlushBatchQueueSize :: nat where "defaultFlushBatchQueueSize = 64"
definition DefaultBatchSize :: nat where "DefaultBatchSize = 100"
definition DefaultShutdownTimeout :: time where "DefaultShutdownTimeout = 30 * second"

record transport_config =
  tc_Name :: string
  tc_Type :: string
  tc_Settings :: "(string \<times> go_value) list"
  tc_BatchSize :: int
  tc_FlushInterval :: string
  tc_RetryCount :: int
  tc_BufferSize :: int
  tc_Fallback :: string

text \<open>\<^verbatim>\<open>transportBatcher\<close> with its \<^verbatim>\<open>batcherRetryPolicy\<close> and \<^verbatim>\<open>batcherBufferState\<close>.\<close>

record batcher =
  bt_transport :: string
  bt_hasOffline :: bool
  bt_retryCount :: int
  bt_shutdownBudget :: time
  bt_offlineBufferPushes :: nat
  bt_batchSize :: nat
  bt_flushInterval :: time
  bt_flushBatches :: "data_point list chan"
  bt_flushBatchesDropped :: nat
  bt_stopped :: bool
  bt_publishRejected :: nat
  bt_buffer :: "data_point list"

definition newTransportBatcher :: "string \<Rightarrow> transport_config \<Rightarrow> bool \<Rightarrow> time \<Rightarrow> batcher option" where
  "newTransportBatcher transport cfg offline shutdownBudget =
     (if tc_BatchSize cfg \<le> 0 \<and> tc_FlushInterval cfg = [] \<and> tc_RetryCount cfg \<le> 0 \<and> \<not> offline then None
      else
        let flush = (if tc_FlushInterval cfg \<noteq> []
                     then (case parse_duration (tc_FlushInterval cfg) of Some d \<Rightarrow> if d > 0 then d else 0 | None \<Rightarrow> 0)
                     else 0)
        in Some \<lparr>bt_transport = transport, bt_hasOffline = offline, bt_retryCount = tc_RetryCount cfg,
                 bt_shutdownBudget = (if shutdownBudget > 0 then shutdownBudget else DefaultShutdownTimeout),
                 bt_offlineBufferPushes = 0,
                 bt_batchSize = (if tc_BatchSize cfg \<le> 0 then DefaultBatchSize else nat (tc_BatchSize cfg)),
                 bt_flushInterval = (if offline \<and> flush \<le> 0 then defaultFlushInterval else flush),
                 bt_flushBatches = make_chan 0, bt_flushBatchesDropped = 0, bt_stopped = False,
                 bt_publishRejected = 0, bt_buffer = []\<rparr>)"

definition batcher_start :: "batcher \<Rightarrow> batcher" where
  "batcher_start b = b\<lparr>bt_flushBatches := make_chan defaultFlushBatchQueueSize\<rparr>"

section \<open>publish\<close>

text \<open>Append a point; \<open>Some full\<close> when it completed a batch.\<close>

definition append_point :: "data_point \<Rightarrow> batcher \<Rightarrow> data_point list option \<times> batcher" where
  "append_point p b =
     (let b = b\<lparr>bt_buffer := bt_buffer b @ [p]\<rparr>
      in if length (bt_buffer b) < bt_batchSize b then (None, b)
         else (Some (bt_buffer b), b\<lparr>bt_buffer := []\<rparr>))"

definition enqueue_batch :: "data_point list \<Rightarrow> batcher \<Rightarrow> batcher option" where
  "enqueue_batch full b =
     (case ch_try_send full (bt_flushBatches b) of Sent q \<Rightarrow> Some (b\<lparr>bt_flushBatches := q\<rparr>) | _ \<Rightarrow> None)"

definition evict_batch :: "batcher \<Rightarrow> data_point list option \<times> batcher" where
  "evict_batch b =
     (case ch_try_recv (bt_flushBatches b) of
        Some (old, q) \<Rightarrow> (Some old, b\<lparr>bt_flushBatches := q, bt_flushBatchesDropped := bt_flushBatchesDropped b + 1\<rparr>)
      | None \<Rightarrow> (None, b))"

definition push_batch :: "data_point list \<Rightarrow> batcher \<Rightarrow> string option \<times> batcher" where
  "push_batch full b =
     (case enqueue_batch full b of
        Some b \<Rightarrow> (None, b)
      | None \<Rightarrow>
          (let b = snd (evict_batch b)
           in case enqueue_batch full b of
                Some b \<Rightarrow> (None, b)
              | None \<Rightarrow>
                  (Some (''batcher flush queue full for transport '' @ bt_transport b @ '': batch of ''
                         @ show_nat (length full) @ '' points dropped''),
                   b\<lparr>bt_flushBatchesDropped := bt_flushBatchesDropped b + 1\<rparr>)))"

definition batcher_publish :: "data_point \<Rightarrow> batcher \<Rightarrow> string option \<times> batcher" where
  "batcher_publish p b =
     (if bt_stopped b then
        (Some (''batcher for transport '' @ bt_transport b @ '' already stopped: point dropped''),
         b\<lparr>bt_publishRejected := bt_publishRejected b + 1\<rparr>)
      else case append_point p b of
             (None, b) \<Rightarrow> (None, b)
           | (Some full, b) \<Rightarrow> push_batch full b)"

section \<open>flush\<close>

text \<open>The batch that \<^verbatim>\<open>flush\<close> and \<^verbatim>\<open>flushFinal\<close> publish, if any.\<close>

definition flush :: "batcher \<Rightarrow> data_point list option \<times> batcher" where
  "flush b = (if bt_buffer b = [] \<or> ch_buf (bt_flushBatches b) \<noteq> [] then (None, b)
              else (Some (bt_buffer b), b\<lparr>bt_buffer := []\<rparr>))"

definition flushFinal :: "batcher \<Rightarrow> data_point list option \<times> batcher" where
  "flushFinal b = (if bt_buffer b = [] then (None, b) else (Some (bt_buffer b), b\<lparr>bt_buffer := []\<rparr>))"

section \<open>publishWithRetryAndBuffer\<close>

definition batch_delay :: "nat \<Rightarrow> time" where
  "batch_delay attempt =
     (let delay = i64 (defaultRetryBaseDelay * i64 (2 ^ attempt))
      in if delay > defaultRetryMaxDelay then defaultRetryMaxDelay else delay)"

text \<open>
  The attempts left, from attempt \<open>k\<close> on: \<open>ok k\<close> is whether the transport accepts the batch then, \<open>dn k\<close>
  whether the context ends during the wait that follows. The result is whether it was accepted, the
  attempts made and the waits.
\<close>

fun publish_attempts :: "(nat \<Rightarrow> bool) \<Rightarrow> (nat \<Rightarrow> bool) \<Rightarrow> nat \<Rightarrow> nat \<Rightarrow> bool \<times> nat \<times> time list" where
  "publish_attempts ok dn 0 k = (False, k, [])"
| "publish_attempts ok dn (Suc n) k =
     (if ok k then (True, Suc k, [])
      else if n = 0 then (False, Suc k, [])
      else if dn k then (False, Suc k, [batch_delay k])
      else (case publish_attempts ok dn n (Suc k) of (r, made, ds) \<Rightarrow> (r, made, batch_delay k # ds)))"

text \<open>\<open>push\<close> is the offline buffer's push of the batch; \<open>None\<close> for the buffer when none is configured.\<close>

definition publishWithRetryAndBuffer ::
  "(nat \<Rightarrow> bool) \<Rightarrow> (nat \<Rightarrow> bool) \<Rightarrow> (data_point list \<Rightarrow> string \<Rightarrow> 'ob \<Rightarrow> string option \<times> 'ob) \<Rightarrow> data_point list \<Rightarrow>
   batcher \<Rightarrow> 'ob option \<Rightarrow> bool \<times> nat \<times> time list \<times> batcher \<times> 'ob option" where
  "publishWithRetryAndBuffer ok dn push batch b ob =
     (case publish_attempts ok dn (nat (bt_retryCount b + 1)) 0 of
        (True, made, ds) \<Rightarrow> (True, made, ds, b, ob)
      | (False, made, ds) \<Rightarrow>
          (case ob of
             None \<Rightarrow> (False, made, ds, b, None)
           | Some o1 \<Rightarrow>
               (case push batch (bt_transport b) o1 of
                  (Some _, o2) \<Rightarrow> (False, made, ds, b, Some o2)
                | (None, o2) \<Rightarrow> (False, made, ds, b\<lparr>bt_offlineBufferPushes := bt_offlineBufferPushes b + 1\<rparr>, Some o2))))"

section \<open>The goroutines of a batcher\<close>

datatype pub_pc = PubIdle | PubSend "data_point list" | PubEvict "data_point list" | PubRetry "data_point list"

text \<open>A program counter of the flush loop or of \<^verbatim>\<open>stop\<close> that is publishing carries the batch it publishes.\<close>

datatype loop_pc =
    LSelect | LPublish "data_point list" | LDrain | LDrainPublish "data_point list"
  | LFlush | LFlushPublish "data_point list" | LExit | LExitPublish "data_point list" | LDone

datatype drain_pc = DSelect | DWait | DReplay | DDone

datatype stop_pc = SRunning | SFlagged | SCancelled | SFinal | SFinalPublish "data_point list" | SStopped

text \<open>
  The context of a batcher is a child of the engine's: it is done when \<^verbatim>\<open>stop\<close> has cancelled it
  (\<open>bs_cancelled\<close>) or when the engine's is (\<open>bs_engineDone\<close>, which \<^verbatim>\<open>engineRuntime.Stop\<close> sets before it
  stops the batchers). \<open>bs_drainMu\<close> is whether the drain of another transport holds \<^verbatim>\<open>drainMu\<close> of the shared
  offline buffer.

  The history variables: the points accepted by \<^verbatim>\<open>publish\<close>, the batches that the flush loop and \<^verbatim>\<open>stop\<close> handed
  to \<^verbatim>\<open>publishWithRetryAndBuffer\<close> and what became of them, the batches evicted, the batches the drain loop
  handed to the transport, and the entries an earlier run left for this transport. An entry that is
  replayed comes back through JSON, see theory \<open>Json_Decode\<close>.
\<close>

record batcher_sys =
  bs_b :: batcher
  bs_pub :: pub_pc
  bs_loop :: loop_pc
  bs_drain :: drain_pc
  bs_stop :: stop_pc
  bs_cancelled :: bool
  bs_engineDone :: bool
  bs_drainMu :: bool
  bs_accepted :: "data_point list"
  bs_handed :: "data_point list list"
  bs_published :: "data_point list list"
  bs_buffered :: "data_point list list"
  bs_lost :: "data_point list list"
  bs_evicted :: "data_point list list"
  bs_replayed :: "data_point list list"
  bs_earlier :: "data_point list list"

definition ctx_done :: "batcher_sys \<Rightarrow> bool" where
  "ctx_done s \<longleftrightarrow> bs_cancelled s \<or> bs_engineDone s"

text \<open>The flush loop takes a batch off the channel and publishes it.\<close>

definition take_batch :: "(data_point list \<Rightarrow> loop_pc) \<Rightarrow> batcher_sys \<Rightarrow> batcher_sys option" where
  "take_batch pc s =
     (case ch_try_recv (bt_flushBatches (bs_b s)) of
        None \<Rightarrow> None
      | Some (batch, q) \<Rightarrow>
          Some (s\<lparr>bs_b := (bs_b s)\<lparr>bt_flushBatches := q\<rparr>, bs_handed := bs_handed s @ [batch], bs_loop := pc batch\<rparr>))"

text \<open>
  The end of \<^verbatim>\<open>publishWithRetryAndBuffer\<close> for a batch, with what the transport answered (\<open>ok\<close>), when the
  context ended (\<open>dn\<close>) and whether the push to the offline buffer failed (\<open>push\<close>).
\<close>

definition settle ::
  "(nat \<Rightarrow> bool) \<Rightarrow> (nat \<Rightarrow> bool) \<Rightarrow> (data_point list \<Rightarrow> string \<Rightarrow> unit \<Rightarrow> string option \<times> unit) \<Rightarrow> data_point list \<Rightarrow>
   batcher_sys \<Rightarrow> batcher_sys" where
  "settle ok dn push batch s =
     (case publishWithRetryAndBuffer ok dn push batch (bs_b s) (if bt_hasOffline (bs_b s) then Some () else None) of
        (published, _, _, b', _) \<Rightarrow>
          if published then s\<lparr>bs_b := b', bs_published := bs_published s @ [batch]\<rparr>
          else if bt_hasOffline (bs_b s) \<and> fst (push batch (bt_transport (bs_b s)) ()) = None
          then s\<lparr>bs_b := b', bs_buffered := bs_buffered s @ [batch]\<rparr>
          else s\<lparr>bs_b := b', bs_lost := bs_lost s @ [batch]\<rparr>)"

text \<open>The steps, one group per goroutine: publishers, flush loop, drain loop, \<^verbatim>\<open>stop\<close>, surroundings.\<close>

inductive batcher_step :: "batcher_sys \<Rightarrow> batcher_sys \<Rightarrow> bool" where
  pub_reject: "bs_pub s = PubIdle \<Longrightarrow> bt_stopped (bs_b s) \<Longrightarrow>
     batcher_step s (s\<lparr>bs_b := (bs_b s)\<lparr>bt_publishRejected := bt_publishRejected (bs_b s) + 1\<rparr>\<rparr>)"
| pub_append: "bs_pub s = PubIdle \<Longrightarrow> \<not> bt_stopped (bs_b s) \<Longrightarrow> append_point p (bs_b s) = (None, b') \<Longrightarrow>
     batcher_step s (s\<lparr>bs_b := b', bs_accepted := bs_accepted s @ [p]\<rparr>)"
| pub_full: "bs_pub s = PubIdle \<Longrightarrow> \<not> bt_stopped (bs_b s) \<Longrightarrow> append_point p (bs_b s) = (Some full, b') \<Longrightarrow>
     batcher_step s (s\<lparr>bs_b := b', bs_accepted := bs_accepted s @ [p], bs_pub := PubSend full\<rparr>)"
| pub_send_ok: "bs_pub s = PubSend full \<Longrightarrow> enqueue_batch full (bs_b s) = Some b' \<Longrightarrow>
     batcher_step s (s\<lparr>bs_b := b', bs_pub := PubIdle\<rparr>)"
| pub_send_full: "bs_pub s = PubSend full \<Longrightarrow> enqueue_batch full (bs_b s) = None \<Longrightarrow>
     batcher_step s (s\<lparr>bs_pub := PubEvict full\<rparr>)"
| pub_evict: "bs_pub s = PubEvict full \<Longrightarrow> evict_batch (bs_b s) = (old, b') \<Longrightarrow>
     batcher_step s (s\<lparr>bs_b := b', bs_pub := PubRetry full,
                       bs_evicted := bs_evicted s @ (case old of Some x \<Rightarrow> [x] | None \<Rightarrow> [])\<rparr>)"
| pub_retry_ok: "bs_pub s = PubRetry full \<Longrightarrow> enqueue_batch full (bs_b s) = Some b' \<Longrightarrow>
     batcher_step s (s\<lparr>bs_b := b', bs_pub := PubIdle\<rparr>)"
| pub_retry_full: "bs_pub s = PubRetry full \<Longrightarrow> enqueue_batch full (bs_b s) = None \<Longrightarrow>
     batcher_step s (s\<lparr>bs_b := (bs_b s)\<lparr>bt_flushBatchesDropped := bt_flushBatchesDropped (bs_b s) + 1\<rparr>,
                       bs_pub := PubIdle, bs_evicted := bs_evicted s @ [full]\<rparr>)"
| loop_take: "bs_loop s = LSelect \<Longrightarrow> take_batch LPublish s = Some s' \<Longrightarrow> batcher_step s s'"
| loop_published: "bs_loop s = LPublish batch \<Longrightarrow> batcher_step s ((settle ok dn push batch s)\<lparr>bs_loop := LSelect\<rparr>)"
| loop_tick: "bs_loop s = LSelect \<Longrightarrow> 0 < bt_flushInterval (bs_b s) \<Longrightarrow> batcher_step s (s\<lparr>bs_loop := LDrain\<rparr>)"
| backlog_take: "bs_loop s = LDrain \<Longrightarrow> take_batch LDrainPublish s = Some s' \<Longrightarrow> batcher_step s s'"
| backlog_published: "bs_loop s = LDrainPublish batch \<Longrightarrow> batcher_step s ((settle ok dn push batch s)\<lparr>bs_loop := LDrain\<rparr>)"
| backlog_end: "bs_loop s = LDrain \<Longrightarrow> take_batch LDrainPublish s = None \<Longrightarrow> batcher_step s (s\<lparr>bs_loop := LFlush\<rparr>)"
| loop_flush: "bs_loop s = LFlush \<Longrightarrow> bs_pub s = PubIdle \<Longrightarrow> flush (bs_b s) = (Some batch, b') \<Longrightarrow>
     batcher_step s (s\<lparr>bs_b := b', bs_handed := bs_handed s @ [batch], bs_loop := LFlushPublish batch\<rparr>)"
| loop_no_flush: "bs_loop s = LFlush \<Longrightarrow> bs_pub s = PubIdle \<Longrightarrow> flush (bs_b s) = (None, b') \<Longrightarrow>
     batcher_step s (s\<lparr>bs_b := b', bs_loop := LSelect\<rparr>)"
| flush_published: "bs_loop s = LFlushPublish batch \<Longrightarrow> batcher_step s ((settle ok dn push batch s)\<lparr>bs_loop := LSelect\<rparr>)"
| loop_cancel: "bs_loop s = LSelect \<Longrightarrow> ctx_done s \<Longrightarrow> batcher_step s (s\<lparr>bs_loop := LExit\<rparr>)"
| exit_take: "bs_loop s = LExit \<Longrightarrow> take_batch LExitPublish s = Some s' \<Longrightarrow> batcher_step s s'"
| exit_published: "bs_loop s = LExitPublish batch \<Longrightarrow> batcher_step s ((settle ok dn push batch s)\<lparr>bs_loop := LExit\<rparr>)"
| exit_end: "bs_loop s = LExit \<Longrightarrow> take_batch LExitPublish s = None \<Longrightarrow> batcher_step s (s\<lparr>bs_loop := LDone\<rparr>)"
| drain_tick: "bs_drain s = DSelect \<Longrightarrow> batcher_step s (s\<lparr>bs_drain := DWait\<rparr>)"
| drain_lock: "bs_drain s = DWait \<Longrightarrow> \<not> bs_drainMu s \<Longrightarrow> batcher_step s (s\<lparr>bs_drain := DReplay\<rparr>)"
| drain_replay: "bs_drain s = DReplay \<Longrightarrow> batch \<in> set (bs_buffered s) \<union> set (bs_earlier s) \<Longrightarrow>
     batcher_step s (s\<lparr>bs_replayed := bs_replayed s @ [batch]\<rparr>)"
| drain_unlock: "bs_drain s = DReplay \<Longrightarrow> batcher_step s (s\<lparr>bs_drain := DSelect\<rparr>)"
| drain_exit: "bs_drain s = DSelect \<Longrightarrow> ctx_done s \<Longrightarrow> batcher_step s (s\<lparr>bs_drain := DDone\<rparr>)"
| stop_flag: "bs_stop s = SRunning \<Longrightarrow> bs_pub s = PubIdle \<Longrightarrow>
     batcher_step s (s\<lparr>bs_b := (bs_b s)\<lparr>bt_stopped := True\<rparr>, bs_stop := SFlagged\<rparr>)"
| stop_cancel: "bs_stop s = SFlagged \<Longrightarrow> batcher_step s (s\<lparr>bs_cancelled := True, bs_stop := SCancelled\<rparr>)"
| stop_join: "bs_stop s = SCancelled \<Longrightarrow> bs_loop s = LDone \<Longrightarrow> bs_drain s = DDone \<Longrightarrow> batcher_step s (s\<lparr>bs_stop := SFinal\<rparr>)"
| stop_flush: "bs_stop s = SFinal \<Longrightarrow> bs_pub s = PubIdle \<Longrightarrow> flushFinal (bs_b s) = (Some batch, b') \<Longrightarrow>
     batcher_step s (s\<lparr>bs_b := b', bs_handed := bs_handed s @ [batch], bs_stop := SFinalPublish batch\<rparr>)"
| stop_no_flush: "bs_stop s = SFinal \<Longrightarrow> bs_pub s = PubIdle \<Longrightarrow> flushFinal (bs_b s) = (None, b') \<Longrightarrow>
     batcher_step s (s\<lparr>bs_b := b', bs_stop := SStopped\<rparr>)"
| stop_published: "bs_stop s = SFinalPublish batch \<Longrightarrow> batcher_step s ((settle ok dn push batch s)\<lparr>bs_stop := SStopped\<rparr>)"
| engine_cancel: "batcher_step s (s\<lparr>bs_engineDone := True\<rparr>)"
| other_lock: "\<not> bs_drainMu s \<Longrightarrow> bs_drain s \<noteq> DReplay \<Longrightarrow> batcher_step s (s\<lparr>bs_drainMu := True\<rparr>)"
| other_unlock: "bs_drainMu s \<Longrightarrow> batcher_step s (s\<lparr>bs_drainMu := False\<rparr>)"

definition batcher_init :: "batcher \<Rightarrow> data_point list list \<Rightarrow> batcher_sys" where
  "batcher_init b earlier = \<lparr>bs_b = batcher_start b, bs_pub = PubIdle, bs_loop = LSelect,
     bs_drain = (if bt_hasOffline b then DSelect else DDone), bs_stop = SRunning,
     bs_cancelled = False, bs_engineDone = False, bs_drainMu = False, bs_accepted = [], bs_handed = [],
     bs_published = [], bs_buffered = [], bs_lost = [], bs_evicted = [], bs_replayed = [], bs_earlier = earlier\<rparr>"

text \<open>Reachable from a batcher as it was built: empty, not stopped, with a batch size.\<close>

inductive batcher_reach :: "batcher \<Rightarrow> batcher_sys \<Rightarrow> bool" for b where
  reach_init: "bt_buffer b = [] \<Longrightarrow> \<not> bt_stopped b \<Longrightarrow> bt_flushBatchesDropped b = 0 \<Longrightarrow> bt_offlineBufferPushes b = 0 \<Longrightarrow>
     0 < bt_batchSize b \<Longrightarrow> batcher_reach b (batcher_init b earlier)"
| reach_step: "batcher_reach b s \<Longrightarrow> batcher_step s s' \<Longrightarrow> batcher_reach b s'"

section \<open>Order and accounting\<close>

definition pub_points :: "pub_pc \<Rightarrow> data_point list" where
  "pub_points pc = (case pc of PubIdle \<Rightarrow> [] | PubSend x \<Rightarrow> x | PubEvict x \<Rightarrow> x | PubRetry x \<Rightarrow> x)"

text \<open>Everything on its way, oldest first: handed over, queued, in the hands of \<^verbatim>\<open>publish\<close>, buffered.\<close>

definition in_flight :: "batcher_sys \<Rightarrow> data_point list" where
  "in_flight s = concat (bs_handed s) @ concat (ch_buf (bt_flushBatches (bs_b s))) @ pub_points (bs_pub s) @ bt_buffer (bs_b s)"

text \<open>The batches that are being published.\<close>

definition loop_batch :: "loop_pc \<Rightarrow> data_point list list" where
  "loop_batch pc = (case pc of LPublish x \<Rightarrow> [x] | LDrainPublish x \<Rightarrow> [x] | LFlushPublish x \<Rightarrow> [x] | LExitPublish x \<Rightarrow> [x] | _ \<Rightarrow> [])"

definition stop_batch :: "stop_pc \<Rightarrow> data_point list list" where
  "stop_batch pc = (case pc of SFinalPublish x \<Rightarrow> [x] | _ \<Rightarrow> [])"

definition flushed :: "stop_pc \<Rightarrow> bool" where
  "flushed pc \<longleftrightarrow> (case pc of SFinalPublish _ \<Rightarrow> True | SStopped \<Rightarrow> True | _ \<Rightarrow> False)"

definition queue_inv :: "batcher_sys \<Rightarrow> bool" where
  "queue_inv s \<longleftrightarrow>
     subseq (concat (bs_handed s)) (bs_accepted s) \<and>
     (\<not> flushed (bs_stop s) \<longrightarrow> subseq (in_flight s) (bs_accepted s)) \<and>
     mset (bs_accepted s) = mset (in_flight s) + mset (concat (bs_evicted s)) \<and>
     length (bs_evicted s) = bt_flushBatchesDropped (bs_b s) \<and>
     \<not> ch_closed (bt_flushBatches (bs_b s)) \<and> ch_cap (bt_flushBatches (bs_b s)) = defaultFlushBatchQueueSize \<and>
     chan_wf (bt_flushBatches (bs_b s)) \<and>
     (bs_pub s \<noteq> PubIdle \<longrightarrow> \<not> bt_stopped (bs_b s) \<and> bt_buffer (bs_b s) = []) \<and>
     ((\<exists>x. bs_pub s = PubRetry x) \<longrightarrow> length (ch_buf (bt_flushBatches (bs_b s))) < defaultFlushBatchQueueSize)"

definition fate_inv :: "batcher_sys \<Rightarrow> bool" where
  "fate_inv s \<longleftrightarrow>
     mset (bs_handed s) = mset (bs_published s) + mset (bs_buffered s) + mset (bs_lost s) + mset (loop_batch (bs_loop s) @ stop_batch (bs_stop s)) \<and>
     length (bs_buffered s) = bt_offlineBufferPushes (bs_b s) \<and>
     set (bs_replayed s) \<subseteq> set (bs_buffered s) \<union> set (bs_earlier s)"

text \<open>How far a shutdown has come.\<close>

definition exiting :: "loop_pc \<Rightarrow> bool" where
  "exiting pc \<longleftrightarrow> (case pc of LExit \<Rightarrow> True | LExitPublish _ \<Rightarrow> True | LDone \<Rightarrow> True | _ \<Rightarrow> False)"

definition stop_inv :: "batcher_sys \<Rightarrow> bool" where
  "stop_inv s \<longleftrightarrow>
     (bt_stopped (bs_b s) \<longleftrightarrow> bs_stop s \<noteq> SRunning) \<and>
     (bs_cancelled s \<longleftrightarrow> bs_stop s \<notin> {SRunning, SFlagged}) \<and>
     (exiting (bs_loop s) \<longrightarrow> ctx_done s) \<and>
     (bs_loop s = LDone \<and> \<not> bs_engineDone s \<longrightarrow> ch_buf (bt_flushBatches (bs_b s)) = []) \<and>
     (bs_stop s = SFinal \<or> flushed (bs_stop s) \<longrightarrow> bs_loop s = LDone \<and> bs_drain s = DDone) \<and>
     (flushed (bs_stop s) \<longrightarrow> bt_buffer (bs_b s) = [])"

lemmas op_defs = append_point_def enqueue_batch_def evict_batch_def flush_def flushFinal_def take_batch_def
  ch_try_send_def ch_try_recv_def Let_def

lemmas pc_defs = loop_batch_def stop_batch_def flushed_def exiting_def ctx_done_def pub_points_def

lemma subseq_drop_middle: "subseq (xs @ ys @ zs) t \<Longrightarrow> subseq (xs @ zs) t"
  by (metis list_emb_append2 list_emb_append_mono subseq_order.order_refl subseq_order.order_trans)

lemma subseq_take: "subseq (xs @ ys) t \<Longrightarrow> subseq xs t"
  using subseq_drop_middle [of xs ys "[]" t] by simp

lemma subseq_snoc: "subseq xs ys \<Longrightarrow> subseq (xs @ [p]) (ys @ [p])"
  by simp

lemma subseq_more: "subseq xs ys \<Longrightarrow> subseq xs (ys @ [p])"
  by (rule list_emb_prefix)

text \<open>The end of a publish changes the fate of one batch and a counter, nothing else.\<close>

lemma settle_keeps:
  "bs_pub (settle ok dn push batch s) = bs_pub s" "bs_loop (settle ok dn push batch s) = bs_loop s"
  "bs_drain (settle ok dn push batch s) = bs_drain s" "bs_stop (settle ok dn push batch s) = bs_stop s"
  "bs_cancelled (settle ok dn push batch s) = bs_cancelled s" "bs_engineDone (settle ok dn push batch s) = bs_engineDone s"
  "bs_drainMu (settle ok dn push batch s) = bs_drainMu s" "bs_accepted (settle ok dn push batch s) = bs_accepted s"
  "bs_handed (settle ok dn push batch s) = bs_handed s" "bs_evicted (settle ok dn push batch s) = bs_evicted s"
  "bs_replayed (settle ok dn push batch s) = bs_replayed s" "bs_earlier (settle ok dn push batch s) = bs_earlier s"
  by (simp_all add: settle_def split: prod.split)

lemma settle_b:
  "bt_flushBatches (bs_b (settle ok dn push batch s)) = bt_flushBatches (bs_b s)"
  "bt_buffer (bs_b (settle ok dn push batch s)) = bt_buffer (bs_b s)"
  "bt_stopped (bs_b (settle ok dn push batch s)) = bt_stopped (bs_b s)"
  "bt_flushBatchesDropped (bs_b (settle ok dn push batch s)) = bt_flushBatchesDropped (bs_b s)"
  by (simp_all add: settle_def publishWithRetryAndBuffer_def split: prod.split bool.split option.split)

lemma settle_fate:
  "mset (bs_published (settle ok dn push batch s)) + mset (bs_buffered (settle ok dn push batch s)) + mset (bs_lost (settle ok dn push batch s)) =
     add_mset batch (mset (bs_published s) + mset (bs_buffered s) + mset (bs_lost s))"
  "length (bs_buffered s) = bt_offlineBufferPushes (bs_b s) \<Longrightarrow>
     length (bs_buffered (settle ok dn push batch s)) = bt_offlineBufferPushes (bs_b (settle ok dn push batch s))"
  "set (bs_buffered s) \<subseteq> set (bs_buffered (settle ok dn push batch s))"
  by (auto simp: settle_def publishWithRetryAndBuffer_def split: prod.split bool.split option.split)

lemmas settle_simps = settle_keeps settle_b

lemma queue_inv_init: "bt_buffer b = [] \<Longrightarrow> bt_flushBatchesDropped b = 0 \<Longrightarrow> queue_inv (batcher_init b earlier)"
  by (simp add: queue_inv_def batcher_init_def batcher_start_def in_flight_def pub_points_def make_chan_def
      defaultFlushBatchQueueSize_def chan_wf_def)

lemma enqueue_batch_Some:
  "enqueue_batch full b = Some b' \<Longrightarrow> length (ch_buf (bt_flushBatches b)) < ch_cap (bt_flushBatches b) \<and>
     b' = b\<lparr>bt_flushBatches := (bt_flushBatches b)\<lparr>ch_buf := ch_buf (bt_flushBatches b) @ [full]\<rparr>\<rparr>"
  by (auto simp: enqueue_batch_def ch_try_send_def split: if_splits)

lemma take_batch_Some:
  assumes "take_batch pc s = Some s'"
  obtains x xs where "ch_buf (bt_flushBatches (bs_b s)) = x # xs"
    and "s' = s\<lparr>bs_b := (bs_b s)\<lparr>bt_flushBatches := (bt_flushBatches (bs_b s))\<lparr>ch_buf := xs\<rparr>\<rparr>, bs_handed := bs_handed s @ [x], bs_loop := pc x\<rparr>"
proof (cases "ch_buf (bt_flushBatches (bs_b s))")
  case (Cons x xs)
  then show ?thesis using assms by (intro that [of x xs]) (simp_all add: take_batch_def ch_try_recv_def)
qed (use assms in \<open>simp add: take_batch_def ch_try_recv_def\<close>)

lemma queue_take:
  assumes "take_batch pc s = Some s'" "queue_inv s" "\<not> flushed (bs_stop s)"
  shows "queue_inv s'"
proof (rule take_batch_Some [OF assms(1)])
  fix x xs
  assume x: "ch_buf (bt_flushBatches (bs_b s)) = x # xs"
  assume s': "s' = s\<lparr>bs_b := (bs_b s)\<lparr>bt_flushBatches := (bt_flushBatches (bs_b s))\<lparr>ch_buf := xs\<rparr>\<rparr>, bs_handed := bs_handed s @ [x], bs_loop := pc x\<rparr>"
  have f: "in_flight s' = in_flight s" by (simp add: in_flight_def x s')
  have "subseq (in_flight s) (bs_accepted s)" using assms(2,3) by (simp add: queue_inv_def)
  then have "subseq (concat (bs_handed s @ [x]) @ concat xs @ pub_points (bs_pub s) @ bt_buffer (bs_b s)) (bs_accepted s)"
    by (simp add: in_flight_def x)
  then have h: "subseq (concat (bs_handed s @ [x])) (bs_accepted s)" by (rule subseq_take)
  have c: "Suc (length xs) \<le> defaultFlushBatchQueueSize" using assms(2) x by (simp add: queue_inv_def chan_wf_def)
  show ?thesis unfolding queue_inv_def f
    using assms(2) h c by (simp add: s' queue_inv_def chan_wf_def)
qed

lemma queue_settle:
  assumes "queue_inv s"
  shows "queue_inv ((settle ok dn push batch s)\<lparr>bs_loop := l\<rparr>)"
    "flushed (bs_stop s) \<Longrightarrow> queue_inv ((settle ok dn push batch s)\<lparr>bs_stop := SStopped\<rparr>)"
  using assms by (simp_all add: queue_inv_def in_flight_def settle_simps flushed_def)

lemma not_flushed: "stop_inv s \<Longrightarrow> bs_loop s \<noteq> LDone \<Longrightarrow> \<not> flushed (bs_stop s)"
  by (auto simp: stop_inv_def)

lemma queue_inv_step:
  assumes "batcher_step s s'" "queue_inv s" "stop_inv s"
  shows "queue_inv s'"
  using assms
proof (induction rule: batcher_step.induct)
  case (pub_append s p b')
  then show ?case
    using subseq_snoc [of "in_flight s" "bs_accepted s" p] subseq_more [of "concat (bs_handed s)" "bs_accepted s" p]
    by (auto simp: queue_inv_def in_flight_def append_point_def Let_def pub_points_def split: if_splits)
next
  case (pub_full s p full b')
  then show ?case
    using subseq_snoc [of "in_flight s" "bs_accepted s" p] subseq_more [of "concat (bs_handed s)" "bs_accepted s" p]
    by (auto simp: queue_inv_def in_flight_def append_point_def Let_def pub_points_def split: if_splits)
next
  case (pub_send_ok s full b')
  note q = enqueue_batch_Some [OF pub_send_ok(2)]
  have "bt_buffer (bs_b s) = []" using pub_send_ok(1,3) by (simp add: queue_inv_def)
  then show ?case using pub_send_ok(1,3,4) q by (simp add: queue_inv_def in_flight_def pub_points_def chan_wf_def)
next
  case (pub_evict s full old b')
  show ?case
  proof (cases "ch_buf (bt_flushBatches (bs_b s))")
    case Nil
    then show ?thesis using pub_evict
      by (auto simp: queue_inv_def in_flight_def op_defs pub_points_def defaultFlushBatchQueueSize_def)
  next
    case (Cons x xs)
    then show ?thesis using pub_evict subseq_drop_middle [of "concat (bs_handed s)" x "concat xs @ full" "bs_accepted s"]
      by (auto simp: queue_inv_def in_flight_def op_defs pub_points_def chan_wf_def)
  qed
next
  case (pub_retry_ok s full b')
  note q = enqueue_batch_Some [OF pub_retry_ok(2)]
  have "bt_buffer (bs_b s) = []" using pub_retry_ok(1,3) by (simp add: queue_inv_def)
  then show ?case using pub_retry_ok(1,3,4) q by (simp add: queue_inv_def in_flight_def pub_points_def chan_wf_def)
next
  case (pub_retry_full s full)
  then have False by (auto simp: queue_inv_def enqueue_batch_def ch_try_send_def)
  then show ?case ..
next
  case (loop_flush s batch b')
  then have "\<not> flushed (bs_stop s)" by (simp add: not_flushed)
  then show ?case using loop_flush subseq_take [of "concat (bs_handed s) @ batch" "[]" "bs_accepted s"]
    by (auto simp: queue_inv_def in_flight_def flush_def pub_points_def split: if_splits)
next
  case (stop_flush s batch b')
  then have "\<not> flushed (bs_stop s)" by (simp add: flushed_def)
  then show ?case using stop_flush
      subseq_drop_middle [of "concat (bs_handed s)" "concat (ch_buf (bt_flushBatches (bs_b s)))" "bt_buffer (bs_b s)" "bs_accepted s"]
    by (auto simp: queue_inv_def in_flight_def flushFinal_def pub_points_def flushed_def split: if_splits)
next
  case (stop_no_flush s b')
  then show ?case by (auto simp: queue_inv_def in_flight_def flushFinal_def flushed_def split: if_splits)
next
  case (loop_no_flush s b')
  then show ?case by (auto simp: queue_inv_def in_flight_def flush_def split: if_splits)
next
  case (loop_take s s')
  then show ?case using queue_take not_flushed by simp
next
  case (backlog_take s s')
  then show ?case using queue_take not_flushed by simp
next
  case (exit_take s s')
  then show ?case using queue_take not_flushed by simp
next
  case (stop_published s batch)
  then show ?case by (simp add: queue_settle flushed_def)
qed (simp_all add: queue_settle, auto simp: queue_inv_def in_flight_def pub_points_def flushed_def)

lemma stop_inv_init: "\<not> bt_stopped b \<Longrightarrow> stop_inv (batcher_init b earlier)"
  by (simp add: stop_inv_def batcher_init_def batcher_start_def pc_defs)

text \<open>What each operation leaves alone.\<close>

lemma ops_keep:
  "append_point p b = (r, b') \<Longrightarrow> bt_stopped b' = bt_stopped b \<and> bt_flushBatches b' = bt_flushBatches b"
  "flush b = (r, b') \<Longrightarrow> bt_stopped b' = bt_stopped b \<and> bt_flushBatches b' = bt_flushBatches b"
  "flushFinal b = (r, b') \<Longrightarrow> bt_stopped b' = bt_stopped b \<and> bt_flushBatches b' = bt_flushBatches b \<and> bt_buffer b' = []"
  "evict_batch b = (r', b') \<Longrightarrow> bt_stopped b' = bt_stopped b"
  by (auto simp: append_point_def flush_def flushFinal_def evict_batch_def Let_def split: if_splits option.splits)

lemma stop_take:
  assumes "take_batch pc s = Some s'" "stop_inv s" "exiting (bs_loop s) \<or> \<not> exiting (pc [])" "bs_loop s \<noteq> LDone"
    and "\<And>x. pc x \<noteq> LDone" "\<And>x. exiting (pc x) = exiting (pc [])"
  shows "stop_inv s'"
proof (rule take_batch_Some [OF assms(1)])
  fix x xs
  assume "s' = s\<lparr>bs_b := (bs_b s)\<lparr>bt_flushBatches := (bt_flushBatches (bs_b s))\<lparr>ch_buf := xs\<rparr>\<rparr>, bs_handed := bs_handed s @ [x], bs_loop := pc x\<rparr>"
  then show ?thesis using assms(2-4) assms(5) [of x] assms(6) [of x] by (auto simp: stop_inv_def ctx_done_def)
qed

lemma stop_inv_step:
  assumes "batcher_step s s'" "stop_inv s" "queue_inv s"
  shows "stop_inv s'"
  using assms
proof (induction rule: batcher_step.induct)
  case (pub_append s p b')
  then show ?case using ops_keep(1) [OF pub_append(3)] by (auto simp: stop_inv_def ctx_done_def flushed_def)
next
  case (pub_full s p full b')
  then show ?case using ops_keep(1) [OF pub_full(3)] by (auto simp: stop_inv_def ctx_done_def flushed_def)
next
  case (pub_send_ok s full b')
  then have "\<not> bt_stopped (bs_b s)" by (simp add: queue_inv_def)
  then show ?case using pub_send_ok enqueue_batch_Some [OF pub_send_ok(2)] by (auto simp: stop_inv_def ctx_done_def exiting_def)
next
  case (pub_retry_ok s full b')
  then have "\<not> bt_stopped (bs_b s)" by (simp add: queue_inv_def)
  then show ?case using pub_retry_ok enqueue_batch_Some [OF pub_retry_ok(2)] by (auto simp: stop_inv_def ctx_done_def exiting_def)
next
  case (pub_evict s full old b')
  then have "\<not> bt_stopped (bs_b s)" by (simp add: queue_inv_def)
  then show ?case using pub_evict ops_keep(4) [OF pub_evict(2)] by (auto simp: stop_inv_def ctx_done_def exiting_def flushed_def)
next
  case (loop_take s s')
  then show ?case using stop_take [OF loop_take(2,3)] by (simp add: exiting_def)
next
  case (backlog_take s s')
  then show ?case using stop_take [OF backlog_take(2,3)] by (simp add: exiting_def)
next
  case (exit_take s s')
  then show ?case using stop_take [OF exit_take(2,3)] by (simp add: exiting_def)
next
  case (exit_end s)
  then have "ch_buf (bt_flushBatches (bs_b s)) = []" by (simp add: take_batch_def ch_try_recv_def split: list.splits)
  then show ?case using exit_end by (auto simp: stop_inv_def ctx_done_def exiting_def)
next
  case (loop_flush s batch b')
  then show ?case using ops_keep(2) [OF loop_flush(3)] by (auto simp: stop_inv_def ctx_done_def exiting_def)
next
  case (loop_no_flush s b')
  then show ?case using ops_keep(2) [OF loop_no_flush(3)] by (auto simp: stop_inv_def ctx_done_def exiting_def)
next
  case (stop_flush s batch b')
  then show ?case using ops_keep(3) [OF stop_flush(3)] by (simp add: stop_inv_def ctx_done_def flushed_def)
next
  case (stop_no_flush s b')
  then show ?case using ops_keep(3) [OF stop_no_flush(3)] by (simp add: stop_inv_def ctx_done_def flushed_def)
next
  case (loop_published s batch)
  then show ?case by (auto simp: stop_inv_def ctx_done_def exiting_def settle_simps)
next
  case (backlog_published s batch)
  then show ?case by (auto simp: stop_inv_def ctx_done_def exiting_def settle_simps)
next
  case (flush_published s batch)
  then show ?case by (auto simp: stop_inv_def ctx_done_def exiting_def settle_simps)
next
  case (exit_published s batch)
  then show ?case by (auto simp: stop_inv_def ctx_done_def exiting_def settle_simps)
next
  case (stop_published s batch)
  then show ?case by (simp add: stop_inv_def ctx_done_def flushed_def settle_simps)
qed (auto simp: stop_inv_def ctx_done_def exiting_def flushed_def)

lemma fate_inv_init: "bt_offlineBufferPushes b = 0 \<Longrightarrow> fate_inv (batcher_init b earlier)"
  by (simp add: fate_inv_def batcher_init_def batcher_start_def pc_defs)

lemma fate_settle:
  assumes "fate_inv s" "loop_batch (bs_loop s) @ stop_batch (bs_stop s) = xs @ batch # ys"
    and "s' = settle ok dn push batch s" "bs_b s'' = bs_b s'" "bs_handed s'' = bs_handed s'" "bs_published s'' = bs_published s'"
    and "bs_buffered s'' = bs_buffered s'" "bs_lost s'' = bs_lost s'" "bs_replayed s'' = bs_replayed s'" "bs_earlier s'' = bs_earlier s'"
    and "loop_batch (bs_loop s'') @ stop_batch (bs_stop s'') = xs @ ys"
  shows "fate_inv s''"
proof -
  note f = settle_fate(1) [of ok dn push batch s] settle_fate(2) [of s ok dn push batch] settle_fate(3) [of s ok dn push batch]
  have "mset (bs_handed s'') = mset (bs_published s'') + mset (bs_buffered s'') + mset (bs_lost s'') + mset (xs @ ys)"
    using assms f(1) by (simp add: fate_inv_def settle_keeps)
  moreover have "length (bs_buffered s'') = bt_offlineBufferPushes (bs_b s'')" using assms f(2) by (simp add: fate_inv_def)
  moreover have "set (bs_replayed s'') \<subseteq> set (bs_buffered s'') \<union> set (bs_earlier s'')"
    using assms f(3) by (auto simp: fate_inv_def settle_keeps)
  ultimately show ?thesis using assms(11) by (simp add: fate_inv_def)
qed

lemma fate_inv_step:
  assumes "batcher_step s s'" "fate_inv s"
  shows "fate_inv s'"
  using assms
proof (induction rule: batcher_step.induct)
  case (loop_published s batch ok dn push)
  show ?case by (rule fate_settle [OF loop_published(2) _ refl, where xs = "[]" and ys = "stop_batch (bs_stop s)"])
    (use loop_published(1) in \<open>simp_all add: loop_batch_def settle_keeps\<close>)
next
  case (backlog_published s batch ok dn push)
  show ?case by (rule fate_settle [OF backlog_published(2) _ refl, where xs = "[]" and ys = "stop_batch (bs_stop s)"])
    (use backlog_published(1) in \<open>simp_all add: loop_batch_def settle_keeps\<close>)
next
  case (flush_published s batch ok dn push)
  show ?case by (rule fate_settle [OF flush_published(2) _ refl, where xs = "[]" and ys = "stop_batch (bs_stop s)"])
    (use flush_published(1) in \<open>simp_all add: loop_batch_def settle_keeps\<close>)
next
  case (exit_published s batch ok dn push)
  show ?case by (rule fate_settle [OF exit_published(2) _ refl, where xs = "[]" and ys = "stop_batch (bs_stop s)"])
    (use exit_published(1) in \<open>simp_all add: loop_batch_def settle_keeps\<close>)
next
  case (stop_published s batch ok dn push)
  show ?case by (rule fate_settle [OF stop_published(2) _ refl, where xs = "loop_batch (bs_loop s)" and ys = "[]"])
    (use stop_published(1) in \<open>simp_all add: stop_batch_def settle_keeps\<close>)
qed (auto simp: fate_inv_def op_defs loop_batch_def stop_batch_def split: if_splits list.splits)

lemma batcher_reach_inv:
  assumes "batcher_reach b s"
  shows "queue_inv s \<and> stop_inv s \<and> fate_inv s"
  using assms
  by (induction rule: batcher_reach.induct)
     (auto intro: queue_inv_init stop_inv_init fate_inv_init queue_inv_step stop_inv_step fate_inv_step)

text \<open>
  C8. Under every interleaving of publishers, the flush loop, the drain loop, a shutdown of the batcher and a
  cancellation of the engine's context, what the flush loop and \<^verbatim>\<open>stop\<close> hand to the transport is, in order, a
  subsequence of what \<^verbatim>\<open>publish\<close> accepted: batches never overtake each other, and no point is handed over
  twice; up to the final flush the same holds with the queue and the buffer appended. Every accepted
  point is handed over, on its way, or in a batch that was evicted and counted; the error for a full
  queue never occurs, since after an eviction there is room. Every batch handed over is published, in the
  offline buffer (and counted), given up, or still being published; and the drain loop replays only
  batches that went to the offline buffer, in this run or in an earlier one.
\<close>

theorem batcher_order_and_accounting:
  assumes "batcher_reach b s"
  shows "subseq (concat (bs_handed s)) (bs_accepted s) \<and>
    (\<not> flushed (bs_stop s) \<longrightarrow>
       subseq (concat (bs_handed s) @ concat (ch_buf (bt_flushBatches (bs_b s))) @ pub_points (bs_pub s) @ bt_buffer (bs_b s)) (bs_accepted s)) \<and>
    mset (bs_accepted s) = mset (in_flight s) + mset (concat (bs_evicted s)) \<and>
    length (bs_evicted s) = bt_flushBatchesDropped (bs_b s) \<and>
    (\<forall>full. bs_pub s = PubRetry full \<longrightarrow> enqueue_batch full (bs_b s) \<noteq> None) \<and>
    mset (bs_handed s) = mset (bs_published s) + mset (bs_buffered s) + mset (bs_lost s) + mset (loop_batch (bs_loop s) @ stop_batch (bs_stop s)) \<and>
    length (bs_buffered s) = bt_offlineBufferPushes (bs_b s) \<and>
    set (bs_replayed s) \<subseteq> set (bs_buffered s) \<union> set (bs_earlier s)"
proof -
  have i: "queue_inv s" "fate_inv s" using batcher_reach_inv [OF assms] by simp_all
  have "\<forall>full. bs_pub s = PubRetry full \<longrightarrow> enqueue_batch full (bs_b s) \<noteq> None"
    using i by (simp add: queue_inv_def op_defs)
  then show ?thesis using i unfolding queue_inv_def fate_inv_def in_flight_def by blast
qed


section \<open>A shutdown always completes\<close>

fun pub_weight :: "pub_pc \<Rightarrow> nat" where
  "pub_weight PubIdle = 0" | "pub_weight (PubSend _) = 9" | "pub_weight (PubEvict _) = 6" | "pub_weight (PubRetry _) = 4"

fun loop_weight :: "loop_pc \<Rightarrow> nat" where
  "loop_weight LDone = 0" | "loop_weight LExit = 1" | "loop_weight (LExitPublish _) = 2" | "loop_weight LSelect = 3"
| "loop_weight (LPublish _) = 4" | "loop_weight (LFlushPublish _) = 4" | "loop_weight LFlush = 5" | "loop_weight LDrain = 6"
| "loop_weight (LDrainPublish _) = 7"

fun drain_weight :: "drain_pc \<Rightarrow> nat" where
  "drain_weight DDone = 0" | "drain_weight DSelect = 1" | "drain_weight DReplay = 2" | "drain_weight DWait = 3"

fun stop_weight :: "stop_pc \<Rightarrow> nat" where
  "stop_weight SStopped = 0" | "stop_weight (SFinalPublish _) = 1" | "stop_weight SFinal = 2" | "stop_weight SCancelled = 3"
| "stop_weight SFlagged = 4" | "stop_weight SRunning = 5"

definition work_left :: "batcher_sys \<Rightarrow> nat" where
  "work_left s = pub_weight (bs_pub s) + loop_weight (bs_loop s) + drain_weight (bs_drain s) + stop_weight (bs_stop s)
     + (if bs_drainMu s then 1 else 0) + 2 * length (ch_buf (bt_flushBatches (bs_b s)))"

lemma progressI:
  "batcher_step s s' \<Longrightarrow> work_left s' < work_left s \<Longrightarrow> \<exists>s'. batcher_step s s' \<and> work_left s' < work_left s"
  by blast

lemma pub_progress:
  assumes "queue_inv s" "bs_pub s \<noteq> PubIdle"
  shows "\<exists>s'. batcher_step s s' \<and> work_left s' < work_left s"
proof (cases "bs_pub s")
  case (PubSend full)
  show ?thesis
  proof (cases "enqueue_batch full (bs_b s)")
    case None
    from pub_send_full [OF PubSend None] show ?thesis by (rule progressI) (simp add: work_left_def PubSend)
  next
    case (Some b')
    from pub_send_ok [OF PubSend Some] show ?thesis
      by (rule progressI) (use Some in \<open>auto simp: work_left_def PubSend op_defs split: if_splits\<close>)
  qed
next
  case (PubEvict full)
  obtain old b' where e: "evict_batch (bs_b s) = (old, b')" by fastforce
  from pub_evict [OF PubEvict e] show ?thesis
    by (rule progressI) (use e in \<open>auto simp: work_left_def PubEvict op_defs split: list.splits\<close>)
next
  case (PubRetry full)
  then obtain b' where e: "enqueue_batch full (bs_b s) = Some b'" using assms(1) by (auto simp: queue_inv_def op_defs)
  from pub_retry_ok [OF PubRetry e] show ?thesis
    by (rule progressI) (use e in \<open>auto simp: work_left_def PubRetry op_defs split: if_splits\<close>)
qed (use assms in simp)

lemma take_progress:
  assumes "take_batch pc s = Some s'" "\<And>x. loop_weight (pc x) \<le> Suc (loop_weight (bs_loop s))"
  shows "work_left s' < work_left s"
proof -
  obtain x xs where "ch_buf (bt_flushBatches (bs_b s)) = x # xs"
    "s' = s\<lparr>bs_b := (bs_b s)\<lparr>bt_flushBatches := (bt_flushBatches (bs_b s))\<lparr>ch_buf := xs\<rparr>\<rparr>, bs_handed := bs_handed s @ [x], bs_loop := pc x\<rparr>"
    using assms(1) by (rule take_batch_Some)
  then show ?thesis using assms(2) [of x] by (simp add: work_left_def)
qed

lemma loop_progress:
  assumes "bs_pub s = PubIdle" "ctx_done s" "bs_loop s \<noteq> LDone"
  shows "\<exists>s'. batcher_step s s' \<and> work_left s' < work_left s"
proof (cases "bs_loop s")
  case LSelect
  from loop_cancel [OF LSelect assms(2)] show ?thesis by (rule progressI) (simp add: work_left_def LSelect)
next
  case (LPublish x)
  from loop_published [OF LPublish] show ?thesis by (rule progressI) (simp add: work_left_def LPublish settle_simps)
next
  case LDrain
  show ?thesis
  proof (cases "take_batch LDrainPublish s")
    case None
    from backlog_end [OF LDrain None] show ?thesis by (rule progressI) (simp add: work_left_def LDrain)
  next
    case (Some s')
    from backlog_take [OF LDrain Some] show ?thesis by (rule progressI) (simp add: take_progress [OF Some] LDrain)
  qed
next
  case (LDrainPublish x)
  from backlog_published [OF LDrainPublish] show ?thesis by (rule progressI) (simp add: work_left_def LDrainPublish settle_simps)
next
  case LFlush
  obtain r b' where f: "flush (bs_b s) = (r, b')" by fastforce
  then have q: "ch_buf (bt_flushBatches b') = ch_buf (bt_flushBatches (bs_b s))" by (auto simp: flush_def split: if_splits)
  show ?thesis
  proof (cases r)
    case None
    from loop_no_flush [OF LFlush assms(1) f [unfolded None]] show ?thesis by (rule progressI) (simp add: work_left_def LFlush q)
  next
    case (Some batch)
    from loop_flush [OF LFlush assms(1) f [unfolded Some]] show ?thesis by (rule progressI) (simp add: work_left_def LFlush q)
  qed
next
  case (LFlushPublish x)
  from flush_published [OF LFlushPublish] show ?thesis by (rule progressI) (simp add: work_left_def LFlushPublish settle_simps)
next
  case LExit
  show ?thesis
  proof (cases "take_batch LExitPublish s")
    case None
    from exit_end [OF LExit None] show ?thesis by (rule progressI) (simp add: work_left_def LExit)
  next
    case (Some s')
    from exit_take [OF LExit Some] show ?thesis by (rule progressI) (simp add: take_progress [OF Some] LExit)
  qed
next
  case (LExitPublish x)
  from exit_published [OF LExitPublish] show ?thesis by (rule progressI) (simp add: work_left_def LExitPublish settle_simps)
qed (use assms in simp)

lemma drain_progress:
  assumes "ctx_done s" "bs_drain s \<noteq> DDone"
  shows "\<exists>s'. batcher_step s s' \<and> work_left s' < work_left s"
proof (cases "bs_drain s")
  case DSelect
  from drain_exit [OF DSelect assms(1)] show ?thesis by (rule progressI) (simp add: work_left_def DSelect)
next
  case DWait
  show ?thesis
  proof (cases "bs_drainMu s")
    case True
    from other_unlock [OF True] show ?thesis by (rule progressI) (simp add: work_left_def True)
  next
    case False
    from drain_lock [OF DWait False] show ?thesis by (rule progressI) (simp add: work_left_def DWait)
  qed
next
  case DReplay
  from drain_unlock [OF DReplay] show ?thesis by (rule progressI) (simp add: work_left_def DReplay)
qed (use assms in simp)

lemma stop_progress:
  assumes "bs_pub s = PubIdle" "bs_loop s = LDone \<and> bs_drain s = DDone \<or> bs_stop s \<in> {SRunning, SFlagged}" "bs_stop s \<noteq> SStopped"
  shows "\<exists>s'. batcher_step s s' \<and> work_left s' < work_left s"
proof (cases "bs_stop s")
  case SRunning
  from stop_flag [OF SRunning assms(1)] show ?thesis by (rule progressI) (simp add: work_left_def SRunning)
next
  case SFlagged
  from stop_cancel [OF SFlagged] show ?thesis by (rule progressI) (simp add: work_left_def SFlagged)
next
  case SCancelled
  then have "bs_loop s = LDone" "bs_drain s = DDone" using assms(2) by simp_all
  from stop_join [OF SCancelled this] show ?thesis by (rule progressI) (simp add: work_left_def SCancelled)
next
  case SFinal
  obtain r b' where f: "flushFinal (bs_b s) = (r, b')" by fastforce
  then have q: "ch_buf (bt_flushBatches b') = ch_buf (bt_flushBatches (bs_b s))" by (auto simp: flushFinal_def split: if_splits)
  show ?thesis
  proof (cases r)
    case None
    from stop_no_flush [OF SFinal assms(1) f [unfolded None]] show ?thesis by (rule progressI) (simp add: work_left_def SFinal q)
  next
    case (Some batch)
    from stop_flush [OF SFinal assms(1) f [unfolded Some]] show ?thesis by (rule progressI) (simp add: work_left_def SFinal q)
  qed
next
  case (SFinalPublish x)
  from stop_published [OF SFinalPublish] show ?thesis by (rule progressI) (simp add: work_left_def SFinalPublish settle_simps)
qed (use assms in simp)

lemma shutdown_progress:
  assumes "batcher_reach b s" "bs_stop s \<noteq> SStopped"
  shows "\<exists>s'. batcher_step s s' \<and> work_left s' < work_left s"
proof -
  have i: "queue_inv s" "stop_inv s" using batcher_reach_inv [OF assms(1)] by simp_all
  consider "bs_pub s \<noteq> PubIdle" | "bs_pub s = PubIdle" "ctx_done s" "bs_loop s \<noteq> LDone" | "ctx_done s" "bs_drain s \<noteq> DDone"
    | "bs_pub s = PubIdle" "bs_loop s = LDone \<and> bs_drain s = DDone \<or> bs_stop s \<in> {SRunning, SFlagged}"
    using i(2) by (auto simp: stop_inv_def ctx_done_def)
  then show ?thesis using pub_progress [OF i(1)] loop_progress drain_progress stop_progress assms(2) by cases blast+
qed

text \<open>
  C19. A shutdown can always complete: from every reachable state, whatever the publishers, the flush loop
  and the drain loop are doing, however full the queue is and whether or not another transport holds
  \<^verbatim>\<open>drainMu\<close>, there is a run of the goroutines after which both loops have ended and \<^verbatim>\<open>stop\<close> has returned,
  provided each call of a transport returns.
\<close>

theorem batcher_stop_completes:
  assumes "batcher_reach b s"
  shows "\<exists>s'. batcher_step\<^sup>*\<^sup>* s s' \<and> bs_stop s' = SStopped \<and> bs_loop s' = LDone \<and> bs_drain s' = DDone"
  using assms
proof (induction "work_left s" arbitrary: s rule: less_induct)
  case less
  show ?case
  proof (cases "bs_stop s = SStopped")
    case True
    then have "bs_loop s = LDone \<and> bs_drain s = DDone" using batcher_reach_inv [OF less.prems] by (simp add: stop_inv_def flushed_def)
    then show ?thesis using True by blast
  next
    case False
    then obtain s1 where s1: "batcher_step s s1" "work_left s1 < work_left s" using shutdown_progress [OF less.prems] by blast
    then show ?thesis using less.hyps [OF s1(2) reach_step [OF less.prems s1(1)]] by (meson converse_rtranclp_into_rtranclp)
  qed
qed

section \<open>The queue keeps the newest batches\<close>

definition queue_ok :: "batcher \<Rightarrow> bool" where
  "queue_ok b \<longleftrightarrow> \<not> ch_closed (bt_flushBatches b) \<and> 0 < ch_cap (bt_flushBatches b) \<and> chan_wf (bt_flushBatches b)"

lemma push_batch_queue:
  assumes "queue_ok b"
  shows "fst (push_batch full b) = None"
    "ch_buf (bt_flushBatches (snd (push_batch full b))) = keep_last (ch_cap (bt_flushBatches b)) (ch_buf (bt_flushBatches b) @ [full])"
    "ch_cap (bt_flushBatches (snd (push_batch full b))) = ch_cap (bt_flushBatches b)"
    "queue_ok (snd (push_batch full b))"
proof -
  let ?q = "bt_flushBatches b"
  have "fst (push_batch full b) = None \<and>
    ch_buf (bt_flushBatches (snd (push_batch full b))) = keep_last (ch_cap ?q) (ch_buf ?q @ [full]) \<and>
    ch_cap (bt_flushBatches (snd (push_batch full b))) = ch_cap ?q \<and> queue_ok (snd (push_batch full b))"
  proof (cases "length (ch_buf ?q) < ch_cap ?q")
    case True
    then show ?thesis using assms by (simp add: push_batch_def op_defs queue_ok_def chan_wf_def)
  next
    case False
    then obtain x xs where q: "ch_buf ?q = x # xs" and l: "ch_cap ?q = Suc (length xs)"
      using assms by (cases "ch_buf ?q") (auto simp: queue_ok_def chan_wf_def)
    then show ?thesis using assms by (simp add: push_batch_def op_defs queue_ok_def chan_wf_def keep_last_def)
  qed
  then show "fst (push_batch full b) = None"
    "ch_buf (bt_flushBatches (snd (push_batch full b))) = keep_last (ch_cap ?q) (ch_buf ?q @ [full])"
    "ch_cap (bt_flushBatches (snd (push_batch full b))) = ch_cap ?q"
    "queue_ok (snd (push_batch full b))" by simp_all
qed

lemma queue_ok_bounded: "queue_ok b \<Longrightarrow> length (ch_buf (bt_flushBatches b)) \<le> ch_cap (bt_flushBatches b)"
  by (simp add: queue_ok_def chan_wf_def)

interpretation flush_queue: drop_oldest "\<lambda>full b. snd (push_batch full b)" "\<lambda>b. ch_buf (bt_flushBatches b)" "\<lambda>b. ch_cap (bt_flushBatches b)" queue_ok
  by unfold_locales (simp_all add: push_batch_queue queue_ok_bounded)

text \<open>With no consumer, a burst of full batches leaves the newest 64 in the queue.\<close>

lemma burst_keeps_newest_batches:
  "ch_buf (bt_flushBatches (fold (\<lambda>full b. snd (push_batch full b)) batches (batcher_start b))) = keep_last 64 batches"
proof -
  have "queue_ok (batcher_start b)" by (simp add: queue_ok_def batcher_start_def make_chan_def chan_wf_def defaultFlushBatchQueueSize_def)
  then show ?thesis using flush_queue.items_fold [of "batcher_start b" batches]
    by (simp add: batcher_start_def make_chan_def defaultFlushBatchQueueSize_def)
qed

section \<open>Published or persisted\<close>

lemma batch_delay_bounds: "batch_delay k \<le> 5 * second" "k < 37 \<Longrightarrow> batch_delay k = min (100 * millisecond * 2 ^ k) (5 * second)"
proof -
  show "batch_delay k \<le> 5 * second" by (simp add: batch_delay_def Let_def defaultRetryMaxDelay_def)
  assume "k < 37"
  define q where "q = (2 :: int) ^ k"
  have "q \<le> 2 ^ 36" unfolding q_def using \<open>k < 37\<close> by (intro power_increasing) auto
  moreover have "0 \<le> q" by (simp add: q_def)
  ultimately have "i64 q = q" and "i64 (100000000 * q) = 100000000 * q" by simp_all
  then show "batch_delay k = min (100 * millisecond * 2 ^ k) (5 * second)"
    by (simp add: batch_delay_def defaultRetryBaseDelay_def defaultRetryMaxDelay_def Let_def min_def q_def [symmetric])
qed

lemma publish_attempts_spec:
  assumes "publish_attempts ok dn n k = (r, made, ds)"
  shows "(r \<longleftrightarrow> (\<exists>i<n. ok (k + i) \<and> (\<forall>j<i. \<not> ok (k + j) \<and> \<not> dn (k + j)))) \<and> k \<le> made \<and> made \<le> k + n \<and> (0 < n \<longrightarrow> k < made) \<and>
    ds = map batch_delay [k..<k + length ds] \<and> length ds \<le> made - k"
  using assms
proof (induction n arbitrary: k made ds)
  case (Suc n)
  show ?case
  proof (cases "ok k \<or> n = 0 \<or> dn k")
    case True
    have "(\<exists>i<Suc n. ok (k + i) \<and> (\<forall>j<i. \<not> ok (k + j) \<and> \<not> dn (k + j))) \<longleftrightarrow> ok k"
      using True by (metis add.right_neutral less_Suc0 not_gr_zero zero_less_Suc less_nat_zero_code)
    then show ?thesis using Suc.prems True by (auto split: if_splits)
  next
    case False
    then obtain made' ds' where rest: "publish_attempts ok dn n (Suc k) = (r, made', ds')" "made = made'" "ds = batch_delay k # ds'"
      using Suc.prems by (auto split: prod.splits)
    have ex: "(\<exists>i<Suc n. ok (k + i) \<and> (\<forall>j<i. \<not> ok (k + j) \<and> \<not> dn (k + j))) \<longleftrightarrow>
        (\<exists>i<n. ok (Suc k + i) \<and> (\<forall>j<i. \<not> ok (Suc k + j) \<and> \<not> dn (Suc k + j)))" (is "?L \<longleftrightarrow> ?R")
    proof
      assume ?L
      then obtain i where i: "i < Suc n" "ok (k + i)" "\<forall>j<i. \<not> ok (k + j) \<and> \<not> dn (k + j)" by blast
      then obtain i' where "i = Suc i'" using False by (cases i) auto
      then show ?R using i by (intro exI [of _ i']) auto
    next
      assume ?R
      then obtain i where i: "i < n" "ok (Suc k + i)" "\<forall>j<i. \<not> ok (Suc k + j) \<and> \<not> dn (Suc k + j)" by blast
      then show ?L using False by (intro exI [of _ "Suc i"]) (auto simp: less_Suc_eq_0_disj)
    qed
    have ds: "[k..<k + length ds] = k # [Suc k..<Suc k + length ds']" unfolding rest(3) by (subst upt_conv_Cons) simp_all
    show ?thesis using Suc.IH [OF rest(1)] ex rest(2,3) ds by auto
  qed
qed auto

text \<open>
  C20. A batch is published or persisted: it is published exactly when some attempt within the retry
  budget succeeds before the context ends, and then the offline buffer is not touched; otherwise,
  with an offline buffer, it is pushed there under the transport's name, exactly once, and a
  successful push is counted. At least one and at most \<open>retryCount + 1\<close> attempts are made, with waits
  of 100 ms doubling up to 5 s (for fewer than 37 retries).
\<close>

theorem batch_published_or_persisted:
  assumes "0 \<le> bt_retryCount b" "bt_retryCount b < 37"
    and "publishWithRetryAndBuffer ok dn push batch b ob = (published, made, ds, b', ob')"
  shows "(published \<longleftrightarrow> (\<exists>i\<le>nat (bt_retryCount b). ok i \<and> (\<forall>j<i. \<not> ok j \<and> \<not> dn j))) \<and>
    1 \<le> made \<and> int made \<le> bt_retryCount b + 1 \<and>
    ds = map (\<lambda>k. min (100 * millisecond * 2 ^ k) (5 * second)) [0..<length ds] \<and> length ds \<le> made \<and>
    (published \<longrightarrow> b' = b \<and> ob' = ob) \<and>
    (\<not> published \<longrightarrow> ob' = map_option (\<lambda>o1. snd (push batch (bt_transport b) o1)) ob \<and>
       b' = b\<lparr>bt_offlineBufferPushes := bt_offlineBufferPushes b +
          (case ob of Some o1 \<Rightarrow> if fst (push batch (bt_transport b) o1) = None then 1 else 0 | None \<Rightarrow> 0)\<rparr>)"
proof -
  let ?n = "nat (bt_retryCount b + 1)"
  obtain r m ws where a: "publish_attempts ok dn ?n 0 = (r, m, ws)" by (metis prod_cases3)
  have n: "?n = Suc (nat (bt_retryCount b))" using assms(1) by simp
  note sp = publish_attempts_spec [OF a]
  have res: "published = r" "made = m" "ds = ws" using assms(3) by (auto simp: publishWithRetryAndBuffer_def a split: bool.splits option.splits prod.splits)
  have len: "length ws \<le> m" "m \<le> ?n" using sp by auto
  have "made \<ge> 1" "int made \<le> bt_retryCount b + 1" using sp res n by auto
  moreover have "ds = map (\<lambda>k. min (100 * millisecond * 2 ^ k) (5 * second)) [0..<length ds]"
  proof -
    have "batch_delay k = min (100 * millisecond * 2 ^ k) (5 * second)" if "k < length ws" for k
    proof (rule batch_delay_bounds(2))
      have "length ws < m \<or> length ws = 0 \<or> length ws \<le> 37" using len n assms(2) by linarith
      then show "k < 37" using that len n assms(2) sp by auto
    qed
    then have eq: "map batch_delay [0..<length ws] = map (\<lambda>k. min (100 * millisecond * 2 ^ k) (5 * second)) [0..<length ws]" by simp
    have "ws = map batch_delay [0..<length ws]" using sp by simp
    then show ?thesis unfolding res(3) using eq by (rule trans)
  qed
  moreover have "published \<longleftrightarrow> (\<exists>i\<le>nat (bt_retryCount b). ok i \<and> (\<forall>j<i. \<not> ok j \<and> \<not> dn j))"
    using sp res n by (auto simp: less_Suc_eq_le)
  moreover have "published \<longrightarrow> b' = b \<and> ob' = ob"
    using assms(3) res by (auto simp: publishWithRetryAndBuffer_def a)
  moreover have "\<not> published \<longrightarrow> ob' = map_option (\<lambda>o1. snd (push batch (bt_transport b) o1)) ob \<and>
       b' = b\<lparr>bt_offlineBufferPushes := bt_offlineBufferPushes b +
          (case ob of Some o1 \<Rightarrow> if fst (push batch (bt_transport b) o1) = None then 1 else 0 | None \<Rightarrow> 0)\<rparr>"
    using assms(3) res by (auto simp: publishWithRetryAndBuffer_def a split: option.splits prod.splits)
  ultimately show ?thesis using len res by blast
qed

section \<open>An outage\<close>

text \<open>The batches of one transport among the entries of a directory.\<close>

fun select_own :: "(string \<Rightarrow> offline_entry option) \<Rightarrow> string \<Rightarrow> (nat \<times> string) list \<Rightarrow> data_point list list" where
  "select_own u src [] = []"
| "select_own u src (x # xs) =
     (case u (snd x) of
        None \<Rightarrow> select_own u src xs
      | Some e \<Rightarrow> if oe_source e = src then oe_points e # select_own u src xs else select_own u src xs)"

lemma select_own_append: "select_own u src (xs @ ys) = select_own u src xs @ select_own u src ys"
  by (induction xs) (auto split: option.split)

text \<open>Dropping entries drops at most as many batches, from the front.\<close>

lemma select_own_drop: "\<exists>j\<le>k. select_own u src (drop k xs) = drop j (select_own u src xs)"
proof (induction k arbitrary: xs)
  case (Suc k)
  show ?case
  proof (cases xs)
    case (Cons x ys)
    obtain j where j: "j \<le> k" "select_own u src (drop k ys) = drop j (select_own u src ys)" using Suc.IH by blast
    show ?thesis
    proof (cases "\<exists>e. u (snd x) = Some e \<and> oe_source e = src")
      case True
      then show ?thesis using j by (intro exI [of _ "Suc j"]) (auto simp: Cons)
    next
      case False
      then have "select_own u src (x # ys) = select_own u src ys" by (auto split: option.split)
      then show ?thesis using j by (intro exI [of _ j]) (simp add: Cons)
    qed
  qed auto
qed simp

lemma pick_select:
  assumes "\<And>s. s \<in> set ss \<Longrightarrow> map_of d (seqFileName s) \<noteq> None"
  shows "pick u src d ss = select_own u src (map (\<lambda>s. (s, the (map_of d (seqFileName s)))) ss)"
  using assms
proof (induction ss)
  case (Cons s ss)
  then obtain y where "map_of d (seqFileName s) = Some y" by fastforce
  then show ?case using Cons by (simp add: decoded_def split: option.split)
qed simp

lemma pending_select: "buffer_ok ob \<Longrightarrow> pending u src ob = select_own u src (entries (ob_dir ob))"
  unfolding pending_def entries_def by (rule pick_select) (simp add: buffer_ok_def dir_ok_seqs)

text \<open>
  What \<^verbatim>\<open>encoding/json\<close> makes of a buffer entry, with the repository's \<^verbatim>\<open>DataPoint.UnmarshalJSON\<close> (theory
  \<open>Json_Decode\<close>) for its points: an entry encodes when the value of each of its points does, and decodes to
  the entry with the decoded points. This holds for texts of plain characters and for metadata, which is
  a map that \<^verbatim>\<open>Marshal\<close> writes in the order of the keys.
\<close>

definition plain_point :: "data_point \<Rightarrow> bool" where
  "plain_point p \<longleftrightarrow> ascii (dp_driver p) \<and> ascii (dp_device p) \<and> ascii (dp_group p) \<and> ascii (dp_tag p) \<and>
     list_all (\<lambda>(k, v). ascii k \<and> ascii v) (dp_metadata p) \<and> sorted (map fst (dp_metadata p)) \<and> distinct (map fst (dp_metadata p))"

definition entry_codec :: "json_lib \<Rightarrow> (offline_entry \<Rightarrow> string option) \<Rightarrow> (string \<Rightarrow> offline_entry option) \<Rightarrow> bool" where
  "entry_codec L marshal unmarshal \<longleftrightarrow>
     (\<forall>e. ascii (oe_source e) \<and> list_all plain_point (oe_points e) \<longrightarrow>
        (case those (map (json_point L) (oe_points e)) of
           None \<Rightarrow> marshal e = None
         | Some ps \<Rightarrow> (\<exists>x. marshal e = Some x \<and> unmarshal x = Some (e\<lparr>oe_points := ps\<rparr>))))"

text \<open>A point whose value has the type the point declares, so that it survives the encoding.\<close>

definition storable :: "data_point list \<Rightarrow> bool" where
  "storable batch \<longleftrightarrow> batch \<noteq> [] \<and> list_all (\<lambda>p. plain_point p \<and> typed_value (dp_type p) (dp_value p)) batch"

lemma those_same: "list_all (\<lambda>p. f p = Some p) xs \<Longrightarrow> those (map f xs) = Some xs"
  by (induction xs) simp_all

lemma storable_roundtrip:
  assumes "json_laws L" "entry_codec L marshal unmarshal" "storable (oe_points e)" "ascii (oe_source e)"
  obtains x where "marshal e = Some x" "unmarshal x = Some e"
proof -
  have "list_all (\<lambda>p. json_point L p = Some p) (oe_points e)"
    using assms(3) typed_value_json [OF assms(1)] by (force simp: storable_def list_all_iff json_point_def)
  then have t: "those (map (json_point L) (oe_points e)) = Some (oe_points e)" by (rule those_same)
  have "list_all plain_point (oe_points e)" using assms(3) by (auto simp: storable_def list_all_iff)
  then have "\<exists>x. marshal e = Some x \<and> unmarshal x = Some (e\<lparr>oe_points := oe_points e\<rparr>)"
    using assms(2) [unfolded entry_codec_def, rule_format, of e] assms(4) by (simp add: t)
  then show ?thesis using that by auto
qed

text \<open>
  A push to the buffer that all transports share: the transport, the time, the batch that exhausted its
  retries and the disk fault that the push meets.
\<close>

record buffer_push =
  bp_source :: string
  bp_now :: time
  bp_batch :: "data_point list"
  bp_fault :: "push_fault option"

definition outage :: "(offline_entry \<Rightarrow> string option) \<Rightarrow> (string \<Rightarrow> bool) \<Rightarrow> buffer_push list \<Rightarrow> offline_buffer \<Rightarrow> offline_buffer" where
  "outage marshal rm pushes ob =
     fold (\<lambda>b ob. snd (offline_Push marshal True rm (bp_fault b) (bp_now b) (bp_batch b) (bp_source b) ob)) pushes ob"

text \<open>The batches of a transport whose push met no fault.\<close>

definition stored :: "string \<Rightarrow> buffer_push list \<Rightarrow> data_point list list" where
  "stored src pushes = map bp_batch (filter (\<lambda>b. bp_source b = src \<and> bp_fault b = None) pushes)"

lemma drop_drop_append: "k1 \<le> length xs \<Longrightarrow> drop k2 (drop k1 xs @ ys) = drop (k1 + k2) (xs @ ys)"
  by (cases "k2 \<le> length xs - k1") (simp_all add: add.commute)

lemma evictions_bound:
  fixes k m n mx :: nat
  assumes "k1 = n + 1 - mx" "0 < mx" "l \<le> 1" "k \<le> (n - k1 + l) + m - mx"
  shows "k1 + k \<le> n + Suc m - mx"
proof (cases "mx \<le> n + 1")
  case True
  then show ?thesis using assms by linarith
qed (use assms in linarith)

text \<open>The entries after an outage: the oldest are gone, one for each eviction, and the counter has them.\<close>

lemma outage_entries:
  assumes "buffer_ok ob" "ob_nextSeq ob + length pushes < 2 ^ 64" "\<forall>f. rm f" "json_laws L" "entry_codec L marshal u"
    and "list_all (\<lambda>b. storable (bp_batch b) \<and> ascii (bp_source b)) pushes"
  shows "\<exists>new k. buffer_ok (outage marshal rm pushes ob) \<and> entries (ob_dir (outage marshal rm pushes ob)) = drop k (entries (ob_dir ob) @ new) \<and>
    (\<forall>src. select_own u src new = stored src pushes) \<and> ob_evictCount (outage marshal rm pushes ob) = ob_evictCount ob + k \<and>
    k \<le> length (entries (ob_dir ob)) + length pushes - ob_maxEntries ob"
  using assms
proof (induction pushes arbitrary: ob)
  case Nil
  then show ?case by (intro exI [of _ "[]"] exI [of _ 0]) (simp add: outage_def stored_def)
next
  case (Cons b pushes)
  let ?e = "\<lparr>oe_seq = ob_nextSeq ob, oe_time = bp_now b, oe_points = bp_batch b, oe_source = bp_source b\<rparr>"
  let ?old = "entries (ob_dir ob)" and ?mx = "ob_maxEntries ob"
  obtain x where x: "marshal ?e = Some x" "u x = Some ?e"
    using storable_roundtrip [OF Cons.prems(4,5), of ?e] Cons.prems(6) by (auto simp: list_all_iff)
  obtain err ob1 where p: "offline_Push marshal True rm (bp_fault b) (bp_now b) (bp_batch b) (bp_source b) ob = (err, ob1)" by fastforce
  have ne: "bp_batch b \<noteq> []" using Cons.prems(6) by (simp add: storable_def)
  have mx: "0 < ?mx" using Cons.prems(1) by (simp add: buffer_ok_def)
  define one where "one = (if bp_fault b = None then [(ob_nextSeq ob, x)] else [])"
  define k1 where "k1 = length ?old + 1 - ?mx"
  have sp: "buffer_ok ob1" "ob_nextSeq ob1 = ob_nextSeq ob + 1" "ob_maxEntries ob1 = ?mx" "ob_evictCount ob1 = ob_evictCount ob + k1"
    using offline_push_spec [OF Cons.prems(1) _ ne Cons.prems(3) x(1) p] Cons.prems(2) by (simp_all add: k1_def)
  have le: "k1 \<le> length ?old" using mx by (simp add: k1_def)
  have en: "entries (ob_dir ob1) = drop k1 ?old @ one"
    using offline_push_spec [OF Cons.prems(1) _ ne Cons.prems(3) x(1) p] Cons.prems(2) mx
    by (simp add: keep_last_def one_def k1_def Suc_diff_le split: if_splits)
  obtain new k where ih: "buffer_ok (outage marshal rm pushes ob1)" "entries (ob_dir (outage marshal rm pushes ob1)) = drop k (entries (ob_dir ob1) @ new)"
    "\<forall>src. select_own u src new = stored src pushes" "ob_evictCount (outage marshal rm pushes ob1) = ob_evictCount ob1 + k"
    "k \<le> length (entries (ob_dir ob1)) + length pushes - ?mx"
    using Cons.IH [OF sp(1) _ Cons.prems(3-5)] Cons.prems(2,6) sp(2,3) by auto
  have o: "outage marshal rm (b # pushes) ob = outage marshal rm pushes ob1" by (simp add: outage_def p)
  have d: "drop k (entries (ob_dir ob1) @ new) = drop (k1 + k) (?old @ one @ new)" using drop_drop_append [OF le, of k "one @ new"] by (simp only: en append_assoc)
  have s: "\<forall>src. select_own u src (one @ new) = stored src (b # pushes)"
    using ih(3) x(2) by (simp add: select_own_append one_def stored_def)
  have "length one \<le> 1" by (simp add: one_def)
  then have "k1 + k \<le> length ?old + length (b # pushes) - ?mx" using evictions_bound [OF k1_def mx] ih(5) by (simp add: en)
  then show ?case using ih(1,2,4) sp(4) d s by (intro exI [of _ "one @ new"] exI [of _ "k1 + k"]) (simp add: o)
qed


section \<open>Witnesses\<close>

definition demo_batcher :: batcher where
  "demo_batcher = the (newTransportBatcher ''mqtt''
     \<lparr>tc_Name = ''mqtt'', tc_Type = ''mqtt'', tc_Settings = [], tc_BatchSize = 1, tc_FlushInterval = [], tc_RetryCount = 2,
      tc_BufferSize = 0, tc_Fallback = []\<rparr> True 0)"

lemma demo_batcher_simps [simp]:
  "bt_buffer demo_batcher = []" "\<not> bt_stopped demo_batcher" "bt_flushBatchesDropped demo_batcher = 0" "bt_batchSize demo_batcher = 1"
  "bt_retryCount demo_batcher = 2" "bt_transport demo_batcher = ''mqtt''" "bt_offlineBufferPushes demo_batcher = 0" "bt_hasOffline demo_batcher"
  by (simp_all add: demo_batcher_def newTransportBatcher_def Let_def)

lemma demo_reach: "batcher_reach demo_batcher (batcher_init demo_batcher [])"
  by (rule reach_init) simp_all

text \<open>One point is accepted and completes a batch.\<close>

definition demo_after_point :: batcher_sys where
  "demo_after_point = (batcher_init demo_batcher [])
     \<lparr>bs_pub := PubSend [sample_point ''a'' ''x''], bs_accepted := [sample_point ''a'' ''x'']\<rparr>"

lemma demo_reach_point: "batcher_reach demo_batcher demo_after_point"
proof -
  let ?p = "sample_point ''a'' ''x''" and ?s = "batcher_init demo_batcher []"
  have "append_point ?p (bs_b ?s) = (Some [?p], bs_b ?s)"
    by (simp add: append_point_def batcher_init_def batcher_start_def Let_def)
  then have "batcher_step ?s (?s\<lparr>bs_b := bs_b ?s, bs_accepted := bs_accepted ?s @ [?p], bs_pub := PubSend [?p]\<rparr>)"
    by (intro pub_full) (simp_all add: batcher_init_def batcher_start_def)
  then show ?thesis using reach_step [OF demo_reach] by (simp add: demo_after_point_def batcher_init_def)
qed

theorem batcher_order_and_accounting_witness:
  "mset (bs_accepted demo_after_point) = mset (in_flight demo_after_point)"
  using batcher_order_and_accounting [OF demo_reach_point] by (simp add: demo_after_point_def batcher_init_def)

theorem batcher_stop_completes_witness: "\<exists>s'. batcher_step\<^sup>*\<^sup>* demo_after_point s' \<and> bs_stop s' = SStopped"
  using batcher_stop_completes [OF demo_reach_point] by blast

lemma demo_stopped:
  "\<exists>s'. batcher_reach demo_batcher s' \<and> bs_stop s' = SStopped \<and> \<not> bs_engineDone s'"
proof -
  let ?s0 = "batcher_init demo_batcher []"
  let ?s1 = "?s0\<lparr>bs_b := (bs_b ?s0)\<lparr>bt_stopped := True\<rparr>, bs_stop := SFlagged\<rparr>"
  let ?s2 = "?s1\<lparr>bs_cancelled := True, bs_stop := SCancelled\<rparr>"
  let ?s3 = "?s2\<lparr>bs_loop := LExit\<rparr>" let ?s4 = "?s3\<lparr>bs_loop := LDone\<rparr>" let ?s5 = "?s4\<lparr>bs_drain := DDone\<rparr>"
  let ?s6 = "?s5\<lparr>bs_stop := SFinal\<rparr>" let ?s7 = "?s6\<lparr>bs_b := bs_b ?s6, bs_stop := SStopped\<rparr>"
  have e: "ch_buf (bt_flushBatches (batcher_start demo_batcher)) = []" by (simp add: batcher_start_def make_chan_def)
  have "batcher_step ?s0 ?s1" by (rule stop_flag) (simp_all add: batcher_init_def)
  moreover have "batcher_step ?s1 ?s2" by (rule stop_cancel) simp
  moreover have "batcher_step ?s2 ?s3" by (rule loop_cancel) (simp_all add: batcher_init_def ctx_done_def)
  moreover have "batcher_step ?s3 ?s4" by (rule exit_end) (simp_all add: batcher_init_def take_batch_def ch_try_recv_def e)
  moreover have "batcher_step ?s4 ?s5" by (rule drain_exit) (simp_all add: batcher_init_def ctx_done_def)
  moreover have "batcher_step ?s5 ?s6" by (rule stop_join) simp_all
  moreover have "batcher_step ?s6 ?s7" by (rule stop_no_flush) (simp_all add: batcher_init_def flushFinal_def batcher_start_def)
  ultimately have "batcher_reach demo_batcher ?s7" using demo_reach by (meson reach_step)
  then show ?thesis by (intro exI [of _ ?s7]) (simp add: batcher_init_def)
qed


text \<open>
  With the engine's context cancelled first, as \<^verbatim>\<open>engineRuntime.Stop\<close> does, a batch can be stranded: the flush
  loop ends, a worker completes a batch and enqueues it, and \<^verbatim>\<open>stop\<close> flushes only the partial buffer.
\<close>

lemma engine_stop_strands_batch:
  "\<exists>s'. batcher_reach demo_batcher s' \<and> bs_stop s' = SStopped \<and> bs_handed s' = [] \<and> bs_evicted s' = [] \<and>
     bs_accepted s' = [sample_point ''a'' ''x''] \<and> ch_buf (bt_flushBatches (bs_b s')) = [[sample_point ''a'' ''x'']]"
proof -
  let ?p = "sample_point ''a'' ''x''" and ?s0 = "demo_after_point"
  let ?s1 = "?s0\<lparr>bs_engineDone := True\<rparr>" let ?s2 = "?s1\<lparr>bs_loop := LExit\<rparr>" let ?s3 = "?s2\<lparr>bs_loop := LDone\<rparr>"
  let ?b = "(bs_b ?s3)\<lparr>bt_flushBatches := (bt_flushBatches (bs_b ?s3))\<lparr>ch_buf := [[?p]]\<rparr>\<rparr>"
  let ?s4 = "?s3\<lparr>bs_b := ?b, bs_pub := PubIdle\<rparr>"
  let ?s5 = "?s4\<lparr>bs_b := (bs_b ?s4)\<lparr>bt_stopped := True\<rparr>, bs_stop := SFlagged\<rparr>"
  let ?s6 = "?s5\<lparr>bs_cancelled := True, bs_stop := SCancelled\<rparr>" let ?s7 = "?s6\<lparr>bs_drain := DDone\<rparr>"
  let ?s8 = "?s7\<lparr>bs_stop := SFinal\<rparr>" let ?s9 = "?s8\<lparr>bs_b := bs_b ?s8, bs_stop := SStopped\<rparr>"
  note d = demo_after_point_def batcher_init_def batcher_start_def make_chan_def
  have "batcher_step ?s0 ?s1" by (rule engine_cancel)
  moreover have "batcher_step ?s1 ?s2" by (rule loop_cancel) (simp_all add: d ctx_done_def)
  moreover have "batcher_step ?s2 ?s3" by (rule exit_end) (simp_all add: d take_batch_def ch_try_recv_def)
  moreover have "batcher_step ?s3 ?s4"
    by (rule pub_send_ok [where full = "[?p]"]) (simp_all add: d enqueue_batch_def ch_try_send_def defaultFlushBatchQueueSize_def)
  moreover have "batcher_step ?s4 ?s5" by (rule stop_flag) (simp_all add: d)
  moreover have "batcher_step ?s5 ?s6" by (rule stop_cancel) simp
  moreover have "batcher_step ?s6 ?s7" by (rule drain_exit) (simp_all add: d ctx_done_def)
  moreover have "batcher_step ?s7 ?s8" by (rule stop_join) simp_all
  moreover have "batcher_step ?s8 ?s9" by (rule stop_no_flush) (simp_all add: d flushFinal_def)
  ultimately have "batcher_reach demo_batcher ?s9" using demo_reach_point by (meson reach_step)
  then show ?thesis by (intro exI [of _ ?s9]) (simp add: d)
qed

theorem batch_published_or_persisted_witness:
  "fst (publishWithRetryAndBuffer (\<lambda>k. k = 2) (\<lambda>_. False) (\<lambda>_ _ o1. (None, o1 + 1)) [sample_point ''a'' ''x''] demo_batcher (Some (0 :: nat)))
   \<and> snd (snd (snd (snd (publishWithRetryAndBuffer (\<lambda>k. k = 2) (\<lambda>_. False) (\<lambda>_ _ o1. (None, o1 + 1)) [sample_point ''a'' ''x''] demo_batcher (Some (0 :: nat)))))) = Some 0"
proof -
  let ?r = "publishWithRetryAndBuffer (\<lambda>k. k = 2) (\<lambda>_. False) (\<lambda>_ _ o1. (None, o1 + 1)) [sample_point ''a'' ''x''] demo_batcher (Some (0 :: nat))"
  obtain published made ds b' ob' where r: "?r = (published, made, ds, b', ob')" by (metis prod_cases5)
  have "published \<longleftrightarrow> (\<exists>i\<le>2. i = 2 \<and> (\<forall>j<i. j \<noteq> (2 :: nat)))" "published \<longrightarrow> ob' = Some 0"
    using batch_published_or_persisted [OF _ _ r] by simp_all
  then show ?thesis unfolding r by auto
qed

text \<open>An encoding for the witness of the replay: a number for the entry with its points encoded one by one.\<close>

instance data_type :: countable by countable_datatype

instance quality :: countable by countable_datatype

instance go_value :: countable by countable_datatype

instance data_point_ext :: (countable) countable
proof
  show "\<exists>f :: 'a data_point_ext \<Rightarrow> nat. inj f"
  proof (rule exI [of _ "\<lambda>p. to_nat (dp_driver p, dp_device p, dp_group p, dp_tag p, (dp_value p, dp_type p, dp_quality p,
      dp_timestamp p, (dp_metadata p, dp_is_stale p, data_point.more p)))"])
    show "inj (\<lambda>p. to_nat (dp_driver p, dp_device p, dp_group p, dp_tag p, (dp_value p, dp_type p, dp_quality p,
      dp_timestamp p, (dp_metadata p, dp_is_stale p, data_point.more (p :: 'a data_point_ext)))))"
      by (rule injI) simp
  qed
qed

definition number_marshal :: "json_lib \<Rightarrow> offline_entry \<Rightarrow> string option" where
  "number_marshal L e = map_option (\<lambda>ps. show_nat (to_nat (oe_seq e, oe_time e, ps, oe_source e))) (those (map (json_point L) (oe_points e)))"

definition number_unmarshal :: "string \<Rightarrow> offline_entry option" where
  "number_unmarshal x =
     (case from_nat (digits_val x) of (n, t, ps, src) \<Rightarrow> Some \<lparr>oe_seq = n, oe_time = t, oe_points = ps, oe_source = src\<rparr>)"

lemma number_codec: "entry_codec L (number_marshal L) number_unmarshal"
  by (auto simp: entry_codec_def number_marshal_def number_unmarshal_def split: option.split)

definition empty_buffer :: offline_buffer where
  "empty_buffer = \<lparr>ob_maxEntries = 10, ob_nextSeq = 1, ob_dir = [], ob_drainCount = 0, ob_evictCount = 0\<rparr>"

lemma empty_buffer_ok: "buffer_ok empty_buffer" "entries (ob_dir empty_buffer) = []"
  by (simp_all add: empty_buffer_def buffer_ok_def dir_ok_def entries_def list_seqs_def List.map_filter_def)

text \<open>Three pushes of a 16-bit reading, the second on a full disk.\<close>

definition reading :: "u16 \<Rightarrow> data_point list" where
  "reading v = [(sample_point ''a'' ''x'')\<lparr>dp_value := VInt16 v, dp_type := TypeInt16\<rparr>]"

definition demo_pushes :: "buffer_push list" where
  "demo_pushes = [\<lparr>bp_source = ''mqtt'', bp_now = 0, bp_batch = reading 7, bp_fault = None\<rparr>,
                  \<lparr>bp_source = ''mqtt'', bp_now = 1, bp_batch = reading 8, bp_fault = Some (WriteFails 3)\<rparr>,
                  \<lparr>bp_source = ''mqtt'', bp_now = 2, bp_batch = reading 9, bp_fault = None\<rparr>]"


text \<open>
  A negative retry count is accepted by the configuration and makes no attempt at all: every batch goes
  straight to the offline buffer, or is dropped when there is none.
\<close>

lemma negative_retry_never_publishes:
  "bt_retryCount b = - 1 \<Longrightarrow> publishWithRetryAndBuffer (\<lambda>_. True) dn push batch b None = (False, 0, [], b, None)"
  by (simp add: publishWithRetryAndBuffer_def)

end
