(* ===== verification/Scheduler.thy ===== *)
theory Scheduler
  imports Go_Util Go_Time "HOL-Library.AList" "HOL-Library.List_Lexorder" "HOL-Library.Char_ord" "HOL-Library.Multiset"
begin

text \<open>
  The collection scheduler: \<^verbatim>\<open>engine/scheduler.go\<close>, \<^verbatim>\<open>engine/trigger.go\<close> and the task building of
  \<^verbatim>\<open>engine/driver_manager.go\<close>. A task's goroutine is the function \<open>task_tick\<close> of one tick; the ticker's
  period is a field of the runner. Maps are association lists, one of the orders in which Go may
  iterate over them. Log lines are left out except for the throttling state they depend on.
\<close>

section \<open>Tasks\<close>

record schedule_task =
  st_ID :: string
  st_Driver :: string
  st_Tags :: "string list"
  st_Interval :: time
  st_Priority :: int
  st_DeadBands :: "(string \<times> f64) list"
  st_EnforceIntervals :: "(string \<times> time) list"
  st_GroupTrigger :: "(string \<times> string) list"
  st_GroupGated :: "(string \<times> string list) list"
  st_ReadTimeout :: time

text \<open>Times that the code initialises with the zero \<^verbatim>\<open>time.Time\<close> are \<open>None\<close> until they are set.\<close>

record task_runner =
  tr_task :: schedule_task
  tr_ticker :: time
  tr_lastValues :: "string \<Rightarrow> f64 option"
  tr_lastSent :: "string \<Rightarrow> time option"
  tr_heartbeats :: nat
  tr_skipped :: nat
  tr_lastErrLog :: "time option"
  tr_lastErrMsg :: string
  tr_errCount :: nat
  tr_lastOverrunLog :: "time option"
  tr_overrunCount :: nat
  tr_overrunsTotal :: nat
  tr_inError :: bool
  tr_consecutiveErrors :: nat
  tr_degraded :: bool

definition DefaultTagInterval :: time where "DefaultTagInterval = second"
definition DefaultErrorThrottleWindow :: time where "DefaultErrorThrottleWindow = 10 * second"
definition DefaultHighPriorityInterval :: time where "DefaultHighPriorityInterval = second"

definition task_interval :: "schedule_task \<Rightarrow> time" where
  "task_interval task = (if st_Interval task \<le> 0 then DefaultTagInterval else st_Interval task)"

definition degraded_interval :: "schedule_task \<Rightarrow> time" where
  "degraded_interval task =
     (let d = i64 (task_interval task * 10) in if d < 10 * second then 10 * second else d)"

definition degradeAfterErrors :: nat where "degradeAfterErrors = 5"

definition new_runner :: "schedule_task \<Rightarrow> task_runner" where
  "new_runner task = \<lparr>tr_task = task, tr_ticker = task_interval task, tr_lastValues = Map.empty, tr_lastSent = Map.empty,
     tr_heartbeats = 0, tr_skipped = 0, tr_lastErrLog = None, tr_lastErrMsg = [], tr_errCount = 0,
     tr_lastOverrunLog = None, tr_overrunCount = 0, tr_overrunsTotal = 0, tr_inError = False,
     tr_consecutiveErrors = 0, tr_degraded = False\<rparr>"

section \<open>Trigger groups\<close>

record trigger_plan =
  tp_read :: "string list"
  tp_conditions :: "tag_value list"
  tp_suppressed :: "string list"

definition triggerFired :: "tag_value \<Rightarrow> bool" where
  "triggerFired v =
     (if tv_quality v \<noteq> QualityGood then False
      else case tv_value v of
             VBool b \<Rightarrow> b
           | x \<Rightarrow> (case ToFloat64OK x of Some f \<Rightarrow> \<not> f64_eq f 0 | None \<Rightarrow> False))"

fun gatedOf :: "(string \<times> string list) list \<Rightarrow> string \<Rightarrow> string option" where
  "gatedOf [] tag = None"
| "gatedOf ((g, tags) # gs) tag = (if tag \<in> set tags then Some g else gatedOf gs tag)"

text \<open>\<open>fired[v.Tag] = triggerFired(v)\<close> for each value: the last one of a tag wins, a missing one is false.\<close>

definition fired_map :: "tag_value list \<Rightarrow> string \<Rightarrow> bool" where
  "fired_map vs tag = (case find (\<lambda>v. tv_tag v = tag) (rev vs) of Some v \<Rightarrow> triggerFired v | None \<Rightarrow> False)"

text \<open>\<^verbatim>\<open>r.groupTrigger[group]\<close>, the empty string for a group that is not in the map.\<close>

definition condition_of :: "(string \<times> string) list \<Rightarrow> string \<Rightarrow> string" where
  "condition_of gt g = (case map_of gt g of Some t \<Rightarrow> t | None \<Rightarrow> [])"

definition gate_open :: "(string \<times> string) list \<Rightarrow> (string \<times> string list) list \<Rightarrow> tag_value list \<Rightarrow> string \<Rightarrow> bool" where
  "gate_open gt gated vs tag = (case gatedOf gated tag of Some g \<Rightarrow> fired_map vs (condition_of gt g) | None \<Rightarrow> False)"

definition gateTriggerTags ::
  "(string list \<Rightarrow> (string, tag_value list) result) \<Rightarrow> task_runner \<Rightarrow> trigger_plan \<times> task_runner" where
  "gateTriggerTags rd r =
     (let task = tr_task r; gt = st_GroupTrigger task; gated = st_GroupGated task
      in if gt = [] then (\<lparr>tp_read = st_Tags task, tp_conditions = [], tp_suppressed = []\<rparr>, r)
         else case rd (map snd gt) of
                Inl e \<Rightarrow>
                  (\<lparr>tp_read = [], tp_conditions = [], tp_suppressed = st_Tags task\<rparr>, r\<lparr>tr_skipped := tr_skipped r + 1\<rparr>)
              | Inr vs \<Rightarrow>
                  (let gtags = filter (\<lambda>t. gatedOf gated t \<noteq> None) (st_Tags task);
                       tags = filter (gate_open gt gated vs) gtags;
                       suppressed = filter (\<lambda>t. \<not> gate_open gt gated vs t) gtags
                   in (\<lparr>tp_read = tags, tp_conditions = vs, tp_suppressed = suppressed\<rparr>,
                       if suppressed \<noteq> [] then r\<lparr>tr_skipped := tr_skipped r + 1\<rparr> else r)))"

section \<open>Deadband and heartbeat\<close>

text \<open>Whether one sample is released, at time \<open>now\<close>.\<close>

definition deadband_step :: "time \<Rightarrow> tag_value \<Rightarrow> task_runner \<Rightarrow> bool \<times> task_runner" where
  "deadband_step now v r =
     (case map_of (st_DeadBands (tr_task r)) (tv_tag v) of
        None \<Rightarrow> (True, r)
      | Some threshold \<Rightarrow>
          if f64_le threshold 0 then (True, r)
          else if tv_quality v \<noteq> QualityGood then (True, r)
          else case ToFloat64OK (tv_value v) of
                 None \<Rightarrow> (True, r)
               | Some x \<Rightarrow>
                   if (case tr_lastValues r (tv_tag v) of None \<Rightarrow> True | Some l \<Rightarrow> f64_le threshold (f64_abs (f64_sub x l)))
                   then (True, r\<lparr>tr_lastValues := (tr_lastValues r)(tv_tag v \<mapsto> x), tr_lastSent := (tr_lastSent r)(tv_tag v \<mapsto> now)\<rparr>)
                   else case map_of (st_EnforceIntervals (tr_task r)) (tv_tag v) of
                          None \<Rightarrow> (False, r)
                        | Some heartbeat \<Rightarrow>
                            if heartbeat > 0 \<and> (case tr_lastSent r (tv_tag v) of None \<Rightarrow> True | Some t \<Rightarrow> now - t \<ge> heartbeat)
                            then (True, r\<lparr>tr_lastSent := (tr_lastSent r)(tv_tag v \<mapsto> now), tr_heartbeats := tr_heartbeats r + 1\<rparr>)
                            else (False, r))"

text \<open>The samples of one read with the clock reading at each.\<close>

fun deadband_loop :: "(time \<times> tag_value) list \<Rightarrow> task_runner \<Rightarrow> tag_value list \<times> task_runner" where
  "deadband_loop [] r = ([], r)"
| "deadband_loop ((now, v) # vs) r =
     (case deadband_step now v r of
        (keep, r1) \<Rightarrow> (case deadband_loop vs r1 of (out, r2) \<Rightarrow> (if keep then v # out else out, r2)))"

definition applyDeadbandFilter :: "(nat \<Rightarrow> time) \<Rightarrow> tag_value list \<Rightarrow> task_runner \<Rightarrow> tag_value list \<times> task_runner" where
  "applyDeadbandFilter clock values r =
     (if st_DeadBands (tr_task r) = [] then (values, r)
      else deadband_loop (zip (map clock [0..<length values]) values) r)"

section \<open>One tick\<close>

definition logOverrunIfNeeded :: "time \<Rightarrow> time \<Rightarrow> time \<Rightarrow> time \<Rightarrow> task_runner \<Rightarrow> task_runner" where
  "logOverrunIfNeeded window now latency interval r =
     (if latency \<le> interval then r
      else let r = r\<lparr>tr_overrunCount := tr_overrunCount r + 1, tr_overrunsTotal := tr_overrunsTotal r + 1\<rparr>
           in if (case tr_lastOverrunLog r of Some t \<Rightarrow> now - t < window | None \<Rightarrow> False) then r
              else r\<lparr>tr_lastOverrunLog := Some now, tr_overrunCount := 0\<rparr>)"

definition handleReadError :: "time \<Rightarrow> time \<Rightarrow> string \<Rightarrow> task_runner \<Rightarrow> task_runner" where
  "handleReadError window now errMsg r =
     (let r = r\<lparr>tr_errCount := tr_errCount r + 1\<rparr>;
          r = (if \<not> tr_inError r \<or> errMsg \<noteq> tr_lastErrMsg r \<or>
                  (case tr_lastErrLog r of Some t \<Rightarrow> now - t \<ge> window | None \<Rightarrow> True)
               then r\<lparr>tr_lastErrLog := Some now, tr_lastErrMsg := errMsg, tr_errCount := 0\<rparr> else r);
          r = r\<lparr>tr_inError := True, tr_consecutiveErrors := tr_consecutiveErrors r + 1\<rparr>
      in if tr_consecutiveErrors r \<ge> degradeAfterErrors \<and> \<not> tr_degraded r
         then r\<lparr>tr_degraded := True, tr_ticker := degraded_interval (tr_task r)\<rparr> else r)"

definition handleRecovery :: "task_runner \<Rightarrow> task_runner" where
  "handleRecovery r =
     (let r = r\<lparr>tr_inError := False, tr_lastErrMsg := [], tr_errCount := 0, tr_consecutiveErrors := 0\<rparr>
      in if tr_degraded r then r\<lparr>tr_degraded := False, tr_ticker := task_interval (tr_task r)\<rparr> else r)"

text \<open>
  What a tick meets: whether collection is paused, the driver's answers (\<open>ti_cond\<close> to the read of the
  conditions, \<open>ti_read\<close> to the read of the tags), the read's latency and the clock.
\<close>

record tick_input =
  ti_globalPaused :: bool
  ti_paused :: bool
  ti_cond :: "string list \<Rightarrow> (string, tag_value list) result"
  ti_read :: "string list \<Rightarrow> (string, tag_value list) result"
  ti_latency :: time
  ti_now :: time
  ti_clock :: "nat \<Rightarrow> time"

text \<open>The values handed to \<^verbatim>\<open>onData\<close> with the trigger plan, or nothing.\<close>

definition task_tick :: "time \<Rightarrow> tick_input \<Rightarrow> task_runner \<Rightarrow> (tag_value list \<times> trigger_plan option) option \<times> task_runner" where
  "task_tick window i r =
     (if ti_globalPaused i \<or> ti_paused i then (None, r)
      else
        let task = tr_task r;
            (plan, r) = (if st_GroupGated task \<noteq> []
                         then (case gateTriggerTags (ti_cond i) r of (p, r) \<Rightarrow> (Some p, r)) else (None, r));
            readTags = (case plan of Some p \<Rightarrow> tp_read p | None \<Rightarrow> st_Tags task);
            conds = (case plan of Some p \<Rightarrow> tp_conditions p | None \<Rightarrow> []);
            detail = (if readTags \<noteq> [] then ti_read i readTags else Inr []);
            r = logOverrunIfNeeded window (ti_now i) (ti_latency i) (task_interval task) r
        in case detail of
             Inl e \<Rightarrow> (None, handleReadError window (ti_now i) e r)
           | Inr vs \<Rightarrow>
               (let r = (if tr_inError r then handleRecovery r else r); values = conds @ vs
                in if values = [] then (None, r)
                   else case applyDeadbandFilter (ti_clock i) values r of
                          (out, r) \<Rightarrow> (if out \<noteq> [] then Some (out, plan) else None, r)))"

section \<open>The scheduler\<close>

record scheduler =
  sc_tasks :: "(string \<times> task_runner) list"
  sc_paused :: "string list"
  sc_globalPaused :: bool
  sc_errorThrottleWindow :: time

definition NewScheduler :: "time \<Rightarrow> scheduler" where
  "NewScheduler window = \<lparr>sc_tasks = [], sc_paused = [], sc_globalPaused = False,
     sc_errorThrottleWindow = (if window \<le> 0 then DefaultErrorThrottleWindow else window)\<rparr>"

definition AddTask :: "schedule_task \<Rightarrow> scheduler \<Rightarrow> scheduler" where
  "AddTask task s = s\<lparr>sc_tasks := AList.update (st_ID task) (new_runner task) (sc_tasks s)\<rparr>"

definition sched_Stop :: "scheduler \<Rightarrow> scheduler" where
  "sched_Stop s = s\<lparr>sc_tasks := []\<rparr>"

definition sched_Pause :: "scheduler \<Rightarrow> scheduler" where "sched_Pause s = s\<lparr>sc_globalPaused := True\<rparr>"
definition sched_Resume :: "scheduler \<Rightarrow> scheduler" where "sched_Resume s = s\<lparr>sc_globalPaused := False\<rparr>"

definition RemoveDriverTasks :: "string \<Rightarrow> scheduler \<Rightarrow> scheduler" where
  "RemoveDriverTasks name s =
     s\<lparr>sc_tasks := filter (\<lambda>t. st_Driver (tr_task (snd t)) \<noteq> name) (sc_tasks s), sc_paused := removeAll name (sc_paused s)\<rparr>"

definition PauseDriver :: "string \<Rightarrow> scheduler \<Rightarrow> scheduler" where
  "PauseDriver name s = s\<lparr>sc_paused := List.insert name (sc_paused s)\<rparr>"

definition ResumeDriver :: "string \<Rightarrow> scheduler \<Rightarrow> scheduler" where
  "ResumeDriver name s = s\<lparr>sc_paused := removeAll name (sc_paused s)\<rparr>"

definition PausedDrivers :: "scheduler \<Rightarrow> string list" where
  "PausedDrivers s = sort (sc_paused s)"

text \<open>A tick of the task \<open>tid\<close> within the scheduler.\<close>

definition sched_tick :: "string \<Rightarrow> tick_input \<Rightarrow> scheduler \<Rightarrow> (tag_value list \<times> trigger_plan option) option \<times> scheduler" where
  "sched_tick tid i s =
     (case map_of (sc_tasks s) tid of
        None \<Rightarrow> (None, s)
      | Some r \<Rightarrow>
          (case task_tick (sc_errorThrottleWindow s)
                  (i\<lparr>ti_globalPaused := sc_globalPaused s, ti_paused := st_Driver (tr_task r) \<in> set (sc_paused s)\<rparr>) r of
             (out, r') \<Rightarrow> (out, s\<lparr>sc_tasks := AList.update tid r' (sc_tasks s)\<rparr>)))"

record task_health =
  th_Driver :: string
  th_Degraded :: bool
  th_ConsecutiveErrors :: nat
  th_OverrunsTotal :: nat
  th_HeartbeatsTotal :: nat
  th_TriggerSkipsTotal :: nat

definition driver_health :: "task_runner list \<Rightarrow> string \<Rightarrow> task_health" where
  "driver_health rs name =
     fold (\<lambda>t h. h\<lparr>th_Degraded := th_Degraded h \<or> tr_degraded t,
                    th_ConsecutiveErrors := max (th_ConsecutiveErrors h) (tr_consecutiveErrors t),
                    th_OverrunsTotal := th_OverrunsTotal h + tr_overrunsTotal t,
                    th_HeartbeatsTotal := th_HeartbeatsTotal h + tr_heartbeats t,
                    th_TriggerSkipsTotal := th_TriggerSkipsTotal h + tr_skipped t\<rparr>)
       (filter (\<lambda>t. st_Driver (tr_task t) = name) rs)
       \<lparr>th_Driver = name, th_Degraded = False, th_ConsecutiveErrors = 0, th_OverrunsTotal = 0,
        th_HeartbeatsTotal = 0, th_TriggerSkipsTotal = 0\<rparr>"

definition Health :: "scheduler \<Rightarrow> task_health list" where
  "Health s =
     (let rs = map snd (sc_tasks s)
      in map (driver_health rs) (sort (remdups (map (\<lambda>t. st_Driver (tr_task t)) rs))))"

section \<open>The tasks of a driver\<close>

text \<open>\<^verbatim>\<open>m[k] = append(m[k], v)\<close>\<close>

definition append_at :: "'k \<Rightarrow> 'v \<Rightarrow> ('k \<times> 'v list) list \<Rightarrow> ('k \<times> 'v list) list" where
  "append_at k v m = AList.update k ((case map_of m k of Some vs \<Rightarrow> vs | None \<Rightarrow> []) @ [v]) m"

definition collectTriggerTag ::
  "tag_config \<Rightarrow> (string \<times> string) list \<times> (string \<times> string list) list \<Rightarrow> (string \<times> string) list \<times> (string \<times> string list) list" where
  "collectTriggerTag tag gg =
     (case gg of (gt, gated) \<Rightarrow>
        (if tc_trigger_group tag \<noteq> [] then AList.update (tc_trigger_group tag) (tc_name tag) gt else gt,
         if tc_triggers tag \<noteq> [] then append_at (tc_triggers tag) (tc_name tag) gated else gated))"

definition positive_duration :: "string \<Rightarrow> time option" where
  "positive_duration s = (case parse_duration s of Some d \<Rightarrow> if d > 0 then Some d else None | None \<Rightarrow> None)"

definition tag_interval :: "time \<Rightarrow> tag_config \<Rightarrow> time" where
  "tag_interval dflt tag =
     (if tc_interval tag = [] then dflt else case positive_duration (tc_interval tag) of Some d \<Rightarrow> d | None \<Rightarrow> dflt)"

record task_maps =
  tm_groups :: "(time \<times> string list) list"
  tm_deadBands :: "(string \<times> f64) list"
  tm_enforce :: "(string \<times> time) list"
  tm_trigger :: "(string \<times> string) list \<times> (string \<times> string list) list"
  tm_readTimeouts :: "(time \<times> time) list"

definition collect_tag :: "time \<Rightarrow> tag_config \<Rightarrow> task_maps \<Rightarrow> task_maps" where
  "collect_tag dflt tag m =
     (if tc_protect tag = ''write-only'' then m
      else
        let interval = tag_interval dflt tag;
            name = tc_name tag
        in m\<lparr>tm_groups := append_at interval name (tm_groups m),
             tm_deadBands := (if f64_less 0 (tc_deadband tag) then AList.update name (tc_deadband tag) (tm_deadBands m) else tm_deadBands m),
             tm_enforce :=
               (case (if tc_enforce_interval tag = [] then None else positive_duration (tc_enforce_interval tag)) of
                  Some d \<Rightarrow> AList.update name d (tm_enforce m) | None \<Rightarrow> tm_enforce m),
             tm_trigger := collectTriggerTag tag (tm_trigger m),
             tm_readTimeouts :=
               (case (if tc_read_timeout tag = [] then None else positive_duration (tc_read_timeout tag)) of
                  Some d \<Rightarrow>
                    (if d > (case map_of (tm_readTimeouts m) interval of Some x \<Rightarrow> x | None \<Rightarrow> 0)
                     then AList.update interval d (tm_readTimeouts m) else tm_readTimeouts m)
                | None \<Rightarrow> tm_readTimeouts m)\<rparr>)"

definition effective_interval :: "time \<Rightarrow> time \<Rightarrow> time" where
  "effective_interval minInterval interval = (if minInterval > 0 \<and> interval < minInterval then minInterval else interval)"

definition task_of :: "string \<Rightarrow> time \<Rightarrow> task_maps \<Rightarrow> time \<times> string list \<Rightarrow> schedule_task" where
  "task_of name minInterval m g =
     (let eff = effective_interval minInterval (fst g)
      in \<lparr>st_ID = name @ ''_'' @ duration_string eff, st_Driver = name, st_Tags = snd g, st_Interval = eff,
          st_Priority = (if eff > 0 \<and> eff \<le> DefaultHighPriorityInterval then 1 else 0),
          st_DeadBands = tm_deadBands m, st_EnforceIntervals = tm_enforce m,
          st_GroupTrigger = fst (tm_trigger m), st_GroupGated = snd (tm_trigger m),
          st_ReadTimeout = (case map_of (tm_readTimeouts m) (fst g) of Some d \<Rightarrow> d | None \<Rightarrow> 0)\<rparr>)"

definition driver_tasks :: "time \<Rightarrow> time \<Rightarrow> string \<Rightarrow> tag_config list \<Rightarrow> schedule_task list" where
  "driver_tasks dflt minInterval name tags =
     (let m = fold (collect_tag dflt) tags \<lparr>tm_groups = [], tm_deadBands = [], tm_enforce = [], tm_trigger = ([], []), tm_readTimeouts = []\<rparr>
      in map (task_of name minInterval m) (tm_groups m))"

definition scheduleDriverTags :: "time \<Rightarrow> time \<Rightarrow> string \<Rightarrow> tag_config list \<Rightarrow> scheduler \<Rightarrow> scheduler" where
  "scheduleDriverTags dflt minInterval name tags s = fold AddTask (driver_tasks dflt minInterval name tags) s"

end
