(* ===== verification/Scheduler_Props.thy ===== *)
theory Scheduler_Props
  imports Scheduler
begin

text \<open>
  What the scheduler guarantees: the deadband swallows only samples the consumer does not need, the
  interval follows the error streak, trigger groups are read exactly when their condition fired, and
  the tasks of a driver cover its tags. At the end, what the task building gets wrong.
\<close>

section \<open>Deadband\<close>

text \<open>The samples released, with their times.\<close>

fun released :: "(time \<times> tag_value) list \<Rightarrow> task_runner \<Rightarrow> (time \<times> tag_value) list" where
  "released [] r = []"
| "released (x # xs) r =
     (case deadband_step (fst x) (snd x) r of (keep, r1) \<Rightarrow> if keep then x # released xs r1 else released xs r1)"

lemma released_append: "released (xs @ ys) r = released xs r @ released ys (snd (deadband_loop xs r))"
  by (induction xs r rule: deadband_loop.induct) (auto split: prod.splits)

lemma released_values: "fst (deadband_loop xs r) = map snd (released xs r)"
  by (induction xs r rule: deadband_loop.induct) (auto split: prod.splits)

lemma deadband_loop_append: "snd (deadband_loop (xs @ ys) r) = snd (deadband_loop ys (snd (deadband_loop xs r)))"
  by (induction xs r rule: deadband_loop.induct) (auto split: prod.splits)

text \<open>The baseline of a tag is a released value, and its clock the time of a released sample.\<close>

definition baseline_ok :: "(time \<times> tag_value) list \<Rightarrow> task_runner \<Rightarrow> bool" where
  "baseline_ok hist r \<longleftrightarrow>
     (\<forall>t l. tr_lastValues r t = Some l \<longrightarrow> (\<exists>x\<in>set hist. tv_tag (snd x) = t \<and> ToFloat64OK (tv_value (snd x)) = Some l) \<and> tr_lastSent r t \<noteq> None) \<and>
     (\<forall>t s. tr_lastSent r t = Some s \<longrightarrow> (\<exists>x\<in>set hist. tv_tag (snd x) = t \<and> fst x = s))"

text \<open>A sample passes, moves the baseline, is a heartbeat, or is swallowed.\<close>

lemma deadband_step_cases:
  assumes "deadband_step now v r = (keep, r')"
  obtains (pass) "keep" "r' = r"
    | (change) x where "keep" "ToFloat64OK (tv_value v) = Some x"
        "r' = r\<lparr>tr_lastValues := (tr_lastValues r)(tv_tag v \<mapsto> x), tr_lastSent := (tr_lastSent r)(tv_tag v \<mapsto> now)\<rparr>"
    | (heartbeat) "keep" "r' = r\<lparr>tr_lastSent := (tr_lastSent r)(tv_tag v \<mapsto> now), tr_heartbeats := tr_heartbeats r + 1\<rparr>"
    | (swallow) "\<not> keep" "r' = r"
proof (cases "map_of (st_DeadBands (tr_task r)) (tv_tag v)")
  case None
  then show thesis using assms pass by (simp add: deadband_step_def)
next
  case (Some th)
  show thesis
  proof (cases "f64_le th 0 \<or> tv_quality v \<noteq> QualityGood \<or> ToFloat64OK (tv_value v) = None")
    case True
    then show thesis using assms pass Some by (auto simp: deadband_step_def split: if_splits)
  next
    case False
    then obtain x where x: "ToFloat64OK (tv_value v) = Some x" by auto
    show thesis
    proof (cases "case tr_lastValues r (tv_tag v) of None \<Rightarrow> True | Some l \<Rightarrow> f64_le th (f64_abs (f64_sub x l))")
      case True
      then show thesis using assms Some False x change by (simp add: deadband_step_def)
    next
      case no_change: False
      have d: "deadband_step now v r =
        (case map_of (st_EnforceIntervals (tr_task r)) (tv_tag v) of
           None \<Rightarrow> (False, r)
         | Some h \<Rightarrow>
             if h > 0 \<and> (case tr_lastSent r (tv_tag v) of None \<Rightarrow> True | Some t \<Rightarrow> now - t \<ge> h)
             then (True, r\<lparr>tr_lastSent := (tr_lastSent r)(tv_tag v \<mapsto> now), tr_heartbeats := tr_heartbeats r + 1\<rparr>)
             else (False, r))"
        using no_change False Some x by (simp add: deadband_step_def)
      show thesis
      proof (cases keep)
        case True
        then show thesis using assms heartbeat unfolding d by (simp split: option.splits if_splits)
      next
        case False
        then show thesis using assms swallow unfolding d by (simp split: option.splits if_splits)
      qed
    qed
  qed
qed

lemma deadband_step_task: "deadband_step now v r = (k, r') \<Longrightarrow> tr_task r' = tr_task r"
  by (erule deadband_step_cases) simp_all

lemma baseline_ok_more: "baseline_ok hist r \<Longrightarrow> baseline_ok (hist @ xs) r"
  unfolding baseline_ok_def set_append by blast

lemma baseline_sent:
  assumes "baseline_ok hist r"
  shows "baseline_ok (hist @ [(now, v)]) (r\<lparr>tr_lastSent := (tr_lastSent r)(tv_tag v \<mapsto> now), tr_heartbeats := n\<rparr>)"
  using baseline_ok_more [OF assms, of "[(now, v)]"] by (simp add: baseline_ok_def) blast

lemma baseline_change:
  assumes "baseline_ok hist r" "ToFloat64OK (tv_value v) = Some x"
  shows "baseline_ok (hist @ [(now, v)])
    (r\<lparr>tr_lastValues := (tr_lastValues r)(tv_tag v \<mapsto> x), tr_lastSent := (tr_lastSent r)(tv_tag v \<mapsto> now)\<rparr>)"
  using baseline_ok_more [OF assms(1), of "[(now, v)]"] assms(2) by (simp add: baseline_ok_def) blast

lemma deadband_step_baseline:
  assumes "baseline_ok hist r" "deadband_step now v r = (keep, r')"
  shows "baseline_ok (if keep then hist @ [(now, v)] else hist) r'"
  using assms(2)
  by (cases rule: deadband_step_cases)
     (use assms(1) in \<open>simp_all add: baseline_ok_more baseline_sent baseline_change\<close>)

lemma deadband_loop_baseline:
  "baseline_ok (released xs (new_runner task)) (snd (deadband_loop xs (new_runner task))) \<and>
   tr_task (snd (deadband_loop xs (new_runner task))) = task"
proof (induction xs rule: rev_induct)
  case Nil
  then show ?case by (simp add: baseline_ok_def new_runner_def)
next
  case (snoc x xs)
  let ?r = "snd (deadband_loop xs (new_runner task))"
  obtain now v where x: "x = (now, v)" by fastforce
  obtain keep r' where s: "deadband_step now v ?r = (keep, r')" by fastforce
  have "snd (deadband_loop (xs @ [x]) (new_runner task)) = r'"
    "released (xs @ [x]) (new_runner task) = (if keep then released xs (new_runner task) @ [(now, v)] else released xs (new_runner task))"
    by (simp_all add: released_append deadband_loop_append x s)
  with deadband_step_baseline [OF conjunct1 [OF snoc] s] deadband_step_task [OF s] snoc show ?case by simp
qed

lemma deadband_suppressed:
  assumes "deadband_step now v r = (False, r')"
  obtains th x l where "map_of (st_DeadBands (tr_task r)) (tv_tag v) = Some th" "tv_quality v = QualityGood"
    "ToFloat64OK (tv_value v) = Some x" "tr_lastValues r (tv_tag v) = Some l" "\<not> f64_le th (f64_abs (f64_sub x l))" "r' = r"
    "\<forall>h s. map_of (st_EnforceIntervals (tr_task r)) (tv_tag v) = Some h \<and> 0 < h \<longrightarrow> tr_lastSent r (tv_tag v) = Some s \<longrightarrow> now - s < h"
  using assms by (auto simp: deadband_step_def split: option.splits if_splits)


section \<open>Error streaks\<close>

definition streak_ok :: "nat \<Rightarrow> task_runner \<Rightarrow> bool" where
  "streak_ok n r \<longleftrightarrow> tr_consecutiveErrors r = n \<and> (tr_inError r \<longleftrightarrow> 0 < n) \<and> (tr_degraded r \<longleftrightarrow> degradeAfterErrors \<le> n) \<and>
     tr_ticker r = (if degradeAfterErrors \<le> n then degraded_interval (tr_task r) else task_interval (tr_task r))"

lemma logOverrun_fields [simp]:
  "streak_ok n (logOverrunIfNeeded w now l iv r) = streak_ok n r" "tr_task (logOverrunIfNeeded w now l iv r) = tr_task r"
  "tr_inError (logOverrunIfNeeded w now l iv r) = tr_inError r"
  by (simp_all add: logOverrunIfNeeded_def streak_ok_def Let_def)

lemma streak_error: "streak_ok n r \<Longrightarrow> streak_ok (Suc n) (handleReadError w now e r)"
  by (auto simp: streak_ok_def handleReadError_def Let_def degradeAfterErrors_def)

lemma streak_recovery: "streak_ok n r \<Longrightarrow> streak_ok 0 (if tr_inError r then handleRecovery r else r)"
  by (auto simp: streak_ok_def handleRecovery_def Let_def degradeAfterErrors_def)

lemma handle_task [simp]: "tr_task (handleReadError w now e r) = tr_task r" "tr_task (handleRecovery r) = tr_task r"
  by (simp_all add: handleReadError_def handleRecovery_def Let_def)

lemma deadband_step_streak: "deadband_step now v r = (k, r') \<Longrightarrow> streak_ok n r' = streak_ok n r"
  by (erule deadband_step_cases) (simp_all add: streak_ok_def)

lemma deadband_loop_streak:
  "deadband_loop xs r = (out, r') \<Longrightarrow> streak_ok n r' = streak_ok n r \<and> tr_task r' = tr_task r"
proof (induction xs r arbitrary: out r' rule: deadband_loop.induct)
  case (2 now v vs r)
  obtain k r1 where s: "deadband_step now v r = (k, r1)" by fastforce
  obtain out1 r2 where l: "deadband_loop vs r1 = (out1, r2)" by fastforce
  have "r' = r2" using 2(2) by (simp add: s l)
  then show ?case using 2(1) [OF s [symmetric] l] deadband_step_streak [OF s] deadband_step_task [OF s] by simp
qed simp

lemma deadband_filter_streak:
  "applyDeadbandFilter c vs r = (out, r') \<Longrightarrow> streak_ok n r' = streak_ok n r \<and> tr_task r' = tr_task r"
  by (auto simp: applyDeadbandFilter_def split: if_splits dest: deadband_loop_streak)

text \<open>A tick of a task without trigger groups fails when the read of its tags does; a paused one does nothing.\<close>

definition tick_active :: "tick_input \<Rightarrow> bool" where
  "tick_active i \<longleftrightarrow> \<not> ti_globalPaused i \<and> \<not> ti_paused i"

definition tick_failed :: "schedule_task \<Rightarrow> tick_input \<Rightarrow> bool" where
  "tick_failed task i \<longleftrightarrow> (\<exists>e. ti_read i (st_Tags task) = Inl e)"

definition error_streak :: "schedule_task \<Rightarrow> tick_input list \<Rightarrow> nat" where
  "error_streak task is = length (takeWhile (tick_failed task) (rev (filter tick_active is)))"

lemma task_tick_streak:
  assumes "st_GroupGated (tr_task r) = []" "st_Tags (tr_task r) \<noteq> []" "streak_ok n r" "task_tick w i r = (out, r')"
  shows "tr_task r' = tr_task r \<and>
    streak_ok (if \<not> tick_active i then n else if tick_failed (tr_task r) i then Suc n else 0) r'"
proof (cases "tick_active i")
  case False
  then show ?thesis using assms by (auto simp: task_tick_def tick_active_def)
next
  case True
  let ?r = "logOverrunIfNeeded w (ti_now i) (ti_latency i) (task_interval (tr_task r)) r"
  have s: "streak_ok n ?r" using assms(3) by simp
  show ?thesis
  proof (cases "ti_read i (st_Tags (tr_task r))")
    case (Inl e)
    then show ?thesis using True assms s streak_error [OF s]
      by (auto simp: task_tick_def tick_active_def tick_failed_def)
  next
    case (Inr vs)
    have "streak_ok 0 (if tr_inError ?r then handleRecovery ?r else ?r)" using streak_recovery [OF s] by simp
    then show ?thesis using True assms Inr
      by (auto simp: task_tick_def tick_active_def tick_failed_def Let_def
          split: if_splits prod.splits dest!: deadband_filter_streak [where n = 0])
  qed
qed

lemma run_streak:
  assumes "st_GroupGated task = []" "st_Tags task \<noteq> []"
  shows "streak_ok (error_streak task is) (fold (\<lambda>i r. snd (task_tick w i r)) is (new_runner task)) \<and>
    tr_task (fold (\<lambda>i r. snd (task_tick w i r)) is (new_runner task)) = task"
proof (induction "is" rule: rev_induct)
  case Nil
  then show ?case by (simp add: streak_ok_def error_streak_def new_runner_def degradeAfterErrors_def)
next
  case (snoc i "is")
  let ?r = "fold (\<lambda>i r. snd (task_tick w i r)) is (new_runner task)"
  obtain out r' where t: "task_tick w i ?r = (out, r')" by fastforce
  have st: "tr_task ?r = task" "streak_ok (error_streak task is) ?r" using snoc by simp_all
  from task_tick_streak [OF _ _ st(2) t] assms st(1) show ?case
    by (auto simp: t error_streak_def split: if_splits)
qed


section \<open>Trigger groups\<close>

lemma find_member: "find P xs = Some x \<Longrightarrow> P x \<and> x \<in> set xs"
  by (induction xs) (auto split: if_splits)

lemma fired_map_distinct:
  assumes "distinct (map tv_tag vs)"
  shows "fired_map vs t \<longleftrightarrow> (\<exists>v\<in>set vs. tv_tag v = t \<and> triggerFired v)"
proof (cases "find (\<lambda>v. tv_tag v = t) (rev vs)")
  case None
  then have "\<forall>v\<in>set vs. tv_tag v \<noteq> t" by (auto simp: find_None_iff)
  then show ?thesis using None by (simp add: fired_map_def)
next
  case (Some v)
  then have v: "v \<in> set vs" "tv_tag v = t" using find_member by fastforce+
  then have "w = v" if "w \<in> set vs" "tv_tag w = t" for w
    using assms that v by (metis distinct_map inj_onD)
  then have "(\<exists>v\<in>set vs. tv_tag v = t \<and> triggerFired v) \<longleftrightarrow> triggerFired v" using v by blast
  then show ?thesis using Some by (simp add: fired_map_def)
qed


section \<open>The tasks of a driver cover its tags\<close>

lemma append_at_simps [simp]:
  "append_at k v [] = [(k, [v])]"
  "append_at k v ((k', w) # m) = (if k' = k then (k, w @ [v]) # m else (k', w) # append_at k v m)"
  by (simp_all add: append_at_def)

lemma mset_append_at: "mset (concat (map snd (append_at k v m))) = add_mset v (mset (concat (map snd m)))"
  by (induction m) auto

lemma append_at_mem: "\<exists>vs. (k, vs) \<in> set (append_at k v m) \<and> v \<in> set vs"
proof (induction m)
  case (Cons x m)
  show ?case
  proof (cases "fst x = k")
    case True
    then show ?thesis by (cases x) (auto intro: exI [of _ "snd x @ [v]"])
  next
    case False
    then show ?thesis using Cons by (cases x) auto
  qed
qed simp

lemma append_at_grows: "(k', vs) \<in> set m \<Longrightarrow> \<exists>ws. (k', ws) \<in> set (append_at k v m) \<and> set vs \<subseteq> set ws"
proof (induction m)
  case (Cons x m)
  show ?case
  proof (cases "x = (k', vs)")
    case True
    then show ?thesis by (cases "k' = k") (auto intro: exI [of _ "vs @ [v]"])
  next
    case False
    then have "(k', vs) \<in> set m" using Cons.prems by simp
    then show ?thesis using Cons.IH by (cases x) (auto; blast)
  qed
qed simp

definition empty_maps :: task_maps where
  "empty_maps = \<lparr>tm_groups = [], tm_deadBands = [], tm_enforce = [], tm_trigger = ([], []), tm_readTimeouts = []\<rparr>"

lemma driver_tasks_maps:
  "driver_tasks dflt minI name tags =
     (let m = fold (collect_tag dflt) tags empty_maps in map (task_of name minI m) (tm_groups m))"
  by (simp add: driver_tasks_def empty_maps_def)

definition collected :: "tag_config \<Rightarrow> bool" where
  "collected t \<longleftrightarrow> tc_protect t \<noteq> ''write-only''"

lemma collect_groups:
  "tm_groups (collect_tag dflt t m) = (if collected t then append_at (tag_interval dflt t) (tc_name t) (tm_groups m) else tm_groups m)"
  by (simp add: collect_tag_def collected_def Let_def)

lemma groups_mset:
  "mset (concat (map snd (tm_groups (fold (collect_tag dflt) tags m)))) =
   mset (concat (map snd (tm_groups m))) + mset (map tc_name (filter collected tags))"
  by (induction tags arbitrary: m) (simp_all add: collect_groups mset_append_at)

lemma groups_grow:
  "(k, vs) \<in> set (tm_groups m) \<Longrightarrow> \<exists>ws. (k, ws) \<in> set (tm_groups (fold (collect_tag dflt) tags m)) \<and> set vs \<subseteq> set ws"
proof (induction tags arbitrary: m vs)
  case (Cons t tags)
  obtain ws where "(k, ws) \<in> set (tm_groups (collect_tag dflt t m))" "set vs \<subseteq> set ws"
  proof (cases "collected t")
    case True
    then show thesis using append_at_grows [OF Cons.prems, of "tag_interval dflt t" "tc_name t"] that by (auto simp: collect_groups)
  next
    case False
    then show thesis using that [of vs] Cons.prems by (simp add: collect_groups)
  qed
  with Cons.IH [OF this(1)] show ?case unfolding fold_Cons comp_apply by (meson order_trans)
qed auto

lemma groups_mem:
  assumes "t \<in> set tags" "collected t"
  shows "\<exists>vs. (tag_interval dflt t, vs) \<in> set (tm_groups (fold (collect_tag dflt) tags m)) \<and> tc_name t \<in> set vs"
  using assms
proof (induction tags arbitrary: m)
  case (Cons u tags)
  show ?case
  proof (cases "t = u")
    case True
    then obtain vs where "(tag_interval dflt t, vs) \<in> set (tm_groups (collect_tag dflt u m))" "tc_name t \<in> set vs"
      using append_at_mem Cons.prems by (fastforce simp: collect_groups)
    with groups_grow [OF this(1)] show ?thesis by fastforce
  next
    case False
    then show ?thesis using Cons by simp
  qed
qed simp

lemma AddTask_fold:
  assumes "distinct (map st_ID tasks)" "task \<in> set tasks"
  shows "map_of (sc_tasks (fold AddTask tasks s)) (st_ID task) = Some (new_runner task)"
  using assms
proof (induction tasks rule: rev_induct)
  case (snoc u tasks)
  show ?case
  proof (cases "task = u")
    case True
    then show ?thesis by (simp add: AddTask_def update_conv')
  next
    case False
    then have mem: "task \<in> set tasks" using snoc.prems by simp
    moreover have "st_ID task \<noteq> st_ID u" using snoc.prems(1) imageI [OF mem, of st_ID] by auto
    ultimately show ?thesis using snoc by (simp add: AddTask_def update_conv')
  qed
qed simp


section \<open>What goes wrong\<close>

text \<open>
  A baseline that is not a number never lets go: every later sample compares false, so without a
  heartbeat the tag is frozen although good values arrive.
\<close>

lemma f64_abs_nan: "f64_isNaN (f64_abs f64_nan)"
proof -
  have "f64_isNaN f64_nan" by (simp add: f64_isNaN_def f64_mag_def f64_nan_def f64_inf_def)
  then show ?thesis using f64_make_fields [OF f64_mag_less] by (simp add: f64_isNaN_def f64_abs_def)
qed

lemma nan_baseline_freezes:
  assumes "tr_lastValues r (tv_tag v) = Some l" "f64_isNaN l" "map_of (st_DeadBands (tr_task r)) (tv_tag v) = Some th"
    and "f64_less 0 th" "map_of (st_EnforceIntervals (tr_task r)) (tv_tag v) = None" "tv_quality v = QualityGood"
    and "ToFloat64OK (tv_value v) = Some x"
  shows "deadband_step now v r = (False, r)"
proof -
  have "f64_isNaN (f64_abs (f64_sub x l))" using assms(2) f64_abs_nan by (simp add: f64_sub_def)
  then have "\<not> f64_le th (f64_abs (f64_sub x l))" by (simp add: f64_le_def)
  moreover have "\<not> f64_le th 0" using assms(4) by (auto simp: f64_le_def f64_less_def)
  ultimately show ?thesis using assms by (simp add: deadband_step_def)
qed

text \<open>
  The groups of the gated tags are keyed by the condition's tag name, the conditions by the group's
  name. Where the two differ, as in the documentation, no detail tag is ever read.
\<close>

lemma collect_trigger_keys:
  "fst ` set (fst (tm_trigger (collect_tag dflt t m))) \<subseteq> insert (tc_trigger_group t) (fst ` set (fst (tm_trigger m)))"
  "fst ` set (snd (tm_trigger (collect_tag dflt t m))) \<subseteq> fst ` set (snd (tm_trigger m)) \<union> ({tc_triggers t} - {[]})"
  by (cases "tm_trigger m"; simp add: collect_tag_def Let_def collectTriggerTag_def append_at_def dom_update subset_insertI)+

lemma trigger_group_keys:
  "fst ` set (fst (tm_trigger (fold (collect_tag dflt) tags m))) \<subseteq> fst ` set (fst (tm_trigger m)) \<union> tc_trigger_group ` set tags"
proof (induction tags arbitrary: m)
  case (Cons t tags)
  from Cons.IH [of "collect_tag dflt t m"] collect_trigger_keys(1) [of dflt t m] show ?case by auto
qed simp

lemma gated_group_keys:
  "fst ` set (snd (tm_trigger (fold (collect_tag dflt) tags m))) \<subseteq> fst ` set (snd (tm_trigger m)) \<union> (tc_triggers ` set tags - {[]})"
proof (induction tags arbitrary: m)
  case (Cons t tags)
  from Cons.IH [of "collect_tag dflt t m"] collect_trigger_keys(2) [of dflt t m] show ?case by auto
qed simp

lemma gatedOf_key: "gatedOf gs t = Some g \<Longrightarrow> g \<in> fst ` set gs"
  by (induction gs t rule: gatedOf.induct) (auto split: if_splits)

lemma documented_trigger_never_reads:
  assumes "\<forall>t\<in>set tags. \<forall>u\<in>set tags. tc_triggers t \<noteq> [] \<longrightarrow> tc_triggers t \<noteq> tc_trigger_group u"
    and "task \<in> set (driver_tasks dflt minI name tags)" "st_GroupTrigger task \<noteq> []"
    and "\<And>vs. rd (map snd (st_GroupTrigger task)) = Inr vs \<Longrightarrow> [] \<notin> tv_tag ` set vs"
  shows "tp_read (fst (gateTriggerTags rd (new_runner task))) = []"
proof -
  let ?m = "fold (collect_tag dflt) tags empty_maps"
  have task: "st_GroupTrigger task = fst (tm_trigger ?m)" "st_GroupGated task = snd (tm_trigger ?m)"
    using assms(2) by (auto simp: driver_tasks_maps Let_def task_of_def)
  have key: "map_of (st_GroupTrigger task) g = None" if "gatedOf (st_GroupGated task) t = Some g" for t g
  proof -
    have "g \<in> tc_triggers ` set tags - {[]}"
      using gatedOf_key [OF that] gated_group_keys [of dflt tags empty_maps] unfolding task by (auto simp: empty_maps_def)
    then have "g \<notin> tc_trigger_group ` set tags" using assms(1) by auto
    then have "g \<notin> fst ` set (st_GroupTrigger task)"
      using trigger_group_keys [of dflt tags empty_maps] unfolding task by (auto simp: empty_maps_def)
    then show ?thesis by (simp add: map_of_eq_None_iff)
  qed
  show ?thesis
  proof (cases "rd (map snd (st_GroupTrigger task))")
    case (Inl e)
    then show ?thesis using assms(3) by (simp add: gateTriggerTags_def new_runner_def)
  next
    case (Inr vs)
    have "find (\<lambda>v. tv_tag v = []) (rev vs) = None"
    proof (rule ccontr)
      assume "find (\<lambda>v. tv_tag v = []) (rev vs) \<noteq> None"
      then obtain v where "find (\<lambda>v. tv_tag v = []) (rev vs) = Some v" by blast
      from find_member [OF this] show False using assms(4) [OF Inr] by (metis image_eqI set_rev)
    qed
    then have nf: "\<not> fired_map vs []" by (simp add: fired_map_def)
    have "\<not> gate_open (st_GroupTrigger task) (st_GroupGated task) vs t" for t
    proof (cases "gatedOf (st_GroupGated task) t")
      case (Some g)
      then show ?thesis using key [OF Some] nf by (simp add: gate_open_def condition_of_def)
    qed (simp add: gate_open_def)
    then show ?thesis using assms(3) Inr by (simp add: gateTriggerTags_def new_runner_def Let_def)
  qed
qed

text \<open>Tags of a driver with a trigger group that are neither condition nor gated are not read at all.\<close>

lemma ungated_tags_starve:
  assumes "st_GroupTrigger (tr_task r) \<noteq> []" "gatedOf (st_GroupGated (tr_task r)) t = None"
  shows "t \<notin> set (tp_read (fst (gateTriggerTags rd r)))"
  using assms by (auto simp: gateTriggerTags_def Let_def split: sum.split)

text \<open>A paused driver gives no data, and adding its tasks anew does not lift the pause.\<close>

lemma paused_driver_silent:
  assumes "map_of (sc_tasks s) tid = Some r" "st_Driver (tr_task r) \<in> set (sc_paused s)"
  shows "fst (sched_tick tid i s) = None"
  using assms by (simp add: sched_tick_def task_tick_def)

lemma scheduleDriverTags_paused: "sc_paused (scheduleDriverTags dflt minI name tags s) = sc_paused s"
proof -
  have "sc_paused (fold AddTask ts s) = sc_paused s" for ts by (induction ts arbitrary: s) (simp_all add: AddTask_def)
  then show ?thesis by (simp add: scheduleDriverTags_def)
qed

lemma replaced_driver_stays_paused:
  "name \<in> set (sc_paused (scheduleDriverTags dflt minI name tags (PauseDriver name s)))"
  by (simp add: scheduleDriverTags_paused PauseDriver_def)

text \<open>Two interval groups below the driver's floor get the same task name: the second replaces the first.\<close>

definition demo_tag :: "string \<Rightarrow> string \<Rightarrow> tag_config" where
  "demo_tag name interval = \<lparr>tc_name = name, tc_address = ''40001'', tc_type = ''int16'', tc_group = [], tc_interval = interval,
     tc_scale = 0, tc_offset = 0, tc_deadband = 0, tc_enforce_interval = [], tc_read_timeout = [], tc_protect = [],
     tc_trigger_group = [], tc_triggers = []\<rparr>"

lemma parse_ms: "n * 1000000 < 2 ^ 63 \<Longrightarrow> parse_duration (show_nat n @ ''ms'') = Some (int n * 1000000)"
  using parse_duration_whole [of "''ms''" 1000000 n] by (simp add: duration_units_def unit_char_def is_digit_def)

lemma show_10_20: "show_nat 10 = ''10''" "show_nat 20 = ''20''"
  by code_simp+

lemma tag_interval_demo: "tag_interval dflt (demo_tag a ''10ms'') = 10 * millisecond" "tag_interval dflt (demo_tag a ''20ms'') = 20 * millisecond"
  using parse_ms [of 10] parse_ms [of 20] by (simp_all add: tag_interval_def demo_tag_def positive_duration_def show_10_20)

lemma clamp_collision_drops_tags:
  "map (\<lambda>t. st_Tags (tr_task (snd t)))
     (sc_tasks (scheduleDriverTags second (100 * millisecond) ''rtu'' [demo_tag ''a'' ''10ms'', demo_tag ''b'' ''20ms''] (NewScheduler 0))) = [[''b'']]"
proof -
  let ?m = "fold (collect_tag second) [demo_tag ''a'' ''10ms'', demo_tag ''b'' ''20ms''] empty_maps"
  have g: "tm_groups ?m = [(10 * millisecond, [''a'']), (20 * millisecond, [''b''])]"
    by (simp add: collect_groups collected_def tag_interval_demo empty_maps_def) (simp add: demo_tag_def)
  show ?thesis
    unfolding scheduleDriverTags_def driver_tasks_maps Let_def g
    by (simp add: AddTask_def task_of_def effective_interval_def NewScheduler_def new_runner_def Let_def)
qed

section \<open>Witnesses\<close>

lemma f64_abs_val: "f64_val (f64_abs x) = \<bar>f64_val x\<bar>" "f64_finite (f64_abs x) = f64_finite x"
  using f64_make_val [OF f64_mag_less, of False x] f64_make_fields [OF f64_mag_less, of False x]
  by (simp_all add: f64_abs_def f64_val_def f64_finite_def)

definition demo_sample :: "int \<Rightarrow> tag_value" where
  "demo_sample n = \<lparr>tv_tag = ''t'', tv_value = VFloat64 (f64_of_int n), tv_type = TypeFloat64, tv_quality = QualityGood,
     tv_timestamp = 0, tv_error = None\<rparr>"

definition demo_task :: schedule_task where
  "demo_task = \<lparr>st_ID = ''id'', st_Driver = ''plc'', st_Tags = [''t''], st_Interval = second, st_Priority = 1,
     st_DeadBands = [(''t'', f64_of_int 10)], st_EnforceIntervals = [], st_GroupTrigger = [], st_GroupGated = [], st_ReadTimeout = 0\<rparr>"

lemma demo_within: "\<not> f64_le (f64_of_int 10) (f64_abs (f64_sub (f64_of_int 101) (f64_of_int 100)))" "\<not> f64_le (f64_of_int 10) 0"
proof -
  have v: "f64_val (f64_of_int 101) = 101" "f64_val (f64_of_int 100) = 100" "f64_val (f64_of_int 10) = 10"
    "f64_finite (f64_of_int 101)" "f64_finite (f64_of_int 100)" "f64_finite (f64_of_int 10)"
    using f64_of_int_val [of 101] f64_of_int_val [of 100] f64_of_int_val [of 10] by simp_all
  have "f64_representable (f64_val (f64_of_int 101) - f64_val (f64_of_int 100))" using f64_int_representable [of 1] by (simp add: v)
  from f64_sub_exact [OF v(4,5) this]
  have s: "f64_val (f64_sub (f64_of_int 101) (f64_of_int 100)) = 1" "f64_finite (f64_sub (f64_of_int 101) (f64_of_int 100))" by (simp_all add: v)
  show "\<not> f64_le (f64_of_int 10) (f64_abs (f64_sub (f64_of_int 101) (f64_of_int 100)))"
    using f64_le_val [OF v(6), of "f64_abs (f64_sub (f64_of_int 101) (f64_of_int 100))"] by (simp add: f64_abs_val s v)
  have z: "f64_finite 0" "f64_val 0 = 0" by (simp_all add: f64_finite_def f64_mag_def f64_inf_def f64_val_def f64_neg_def mag_val_def)
  show "\<not> f64_le (f64_of_int 10) 0" using f64_le_val [OF v(6) z(1)] by (simp add: v z)
qed


definition demo_failure :: tick_input where
  "demo_failure = \<lparr>ti_globalPaused = False, ti_paused = False, ti_cond = \<lambda>_. Inl ''down'', ti_read = \<lambda>_. Inl ''down'',
     ti_latency = 0, ti_now = 0, ti_clock = \<lambda>_. 0\<rparr>"


definition demo_alarm :: tag_value where
  "demo_alarm = \<lparr>tv_tag = ''alarm'', tv_value = VBool True, tv_type = TypeBool, tv_quality = QualityGood, tv_timestamp = 0, tv_error = None\<rparr>"

definition demo_gated :: task_runner where
  "demo_gated = new_runner (demo_task\<lparr>st_Tags := [''alarm'', ''d1''], st_GroupTrigger := [(''g'', ''alarm'')], st_GroupGated := [(''g'', [''d1''])]\<rparr>)"



end
