(* ===== verification/Derived.thy ===== *)
theory Derived
  imports Data_Bus Latest_Cache Go_Util Go_Time
begin

text \<open>
  Derived tags (\<^verbatim>\<open>engine/derived.go\<close>, \<^verbatim>\<open>core/derived.go\<close>): expressions over the latest values of
  other tags, evaluated on their own interval and pushed onto the data bus. The theory holds the
  extraction of the references from the expression text, the compilation, the depth-first cycle
  check, and one evaluation. The expression language is a parameter. The cycle check is shown to
  accept exactly the acyclic reference graphs, and a good-quality point to stand on present, fresh
  and finite values.
\<close>

section \<open>Configuration\<close>

record derived_tag_config =
  dt_name :: string
  dt_expr :: string
  dt_type :: data_type
  dt_group :: string
  dt_interval :: string
  dt_unit :: string
  dt_on_missing :: string
  dt_stale_guard :: string

definition derivedDriverName :: string where "derivedDriverName = ''derived''"

section \<open>References in an expression\<close>

text \<open>The byte classes of \<^verbatim>\<open>[a-zA-Z_]\<close> and \<^verbatim>\<open>\w\<close>, which is ASCII in Go.\<close>

definition ident_start :: "char \<Rightarrow> bool" where
  "ident_start c \<longleftrightarrow>
     (let n = of_char c :: nat in 65 \<le> n \<and> n \<le> 90 \<or> 97 \<le> n \<and> n \<le> 122) \<or> c = CHR ''_''"

definition word_char :: "char \<Rightarrow> bool" where
  "word_char c \<longleftrightarrow> ident_start c \<or> is_digit c"

text \<open>
  \<^verbatim>\<open>qualifiedRefRe\<close> at the front of a string: the driver, the tag and the rest. Giving back
  characters of the first \<^verbatim>\<open>\w*\<close> never helps, since the next one is then not a dot.
\<close>

definition qualified_at :: "string \<Rightarrow> (string \<times> string \<times> string) option" where
  "qualified_at s =
     (case s of
        [] \<Rightarrow> None
      | c # _ \<Rightarrow>
          if \<not> ident_start c then None
          else case dropWhile word_char s of
                 CHR ''.'' # c2 # r \<Rightarrow>
                   if ident_start c2
                   then Some (takeWhile word_char s, takeWhile word_char (c2 # r), dropWhile word_char (c2 # r))
                   else None
               | _ \<Rightarrow> None)"

lemma qualified_at_shorter: "qualified_at s = Some (d, t, r) \<Longrightarrow> length r < length s"
proof -
  assume q: "qualified_at s = Some (d, t, r)"
  then obtain c2 u where u: "dropWhile word_char s = CHR ''.'' # c2 # u" and r: "r = dropWhile word_char (c2 # u)"
    by (auto simp: qualified_at_def split: list.splits if_splits char.splits bool.splits)
  have "length (dropWhile word_char (c2 # u)) \<le> length (c2 # u)" by (rule length_dropWhile_le)
  moreover have "length (dropWhile word_char s) \<le> length s" by (rule length_dropWhile_le)
  ultimately show ?thesis using u r by simp
qed

text \<open>\<^verbatim>\<open>FindAllStringSubmatch\<close> and \<^verbatim>\<open>ReplaceAllString\<close> with that pattern: leftmost, not overlapping.\<close>

function find_qualified :: "string \<Rightarrow> (string \<times> string) list" where
  "find_qualified [] = []"
| "find_qualified (c # s) =
     (case qualified_at (c # s) of
        Some (d, t, r) \<Rightarrow> (d, t) # find_qualified r
      | None \<Rightarrow> find_qualified s)"
  by pat_completeness auto
termination
  by (relation "measure length") (auto dest: qualified_at_shorter)

text \<open>The replacement text is four times U+2017, which no identifier contains.\<close>

definition blank :: string where
  "blank = concat (replicate 4 (map char_of [226 :: nat, 128, 151]))"

function blank_qualified :: "string \<Rightarrow> string" where
  "blank_qualified [] = []"
| "blank_qualified (c # s) =
     (case qualified_at (c # s) of
        Some (_, _, r) \<Rightarrow> blank @ blank_qualified r
      | None \<Rightarrow> c # blank_qualified s)"
  by pat_completeness auto
termination
  by (relation "measure length") (auto dest: qualified_at_shorter)

text \<open>\<^verbatim>\<open>FindAllString\<close> with \<^verbatim>\<open>identRe\<close>.\<close>

function find_idents :: "string \<Rightarrow> string list" where
  "find_idents [] = []"
| "find_idents (c # s) =
     (if ident_start c then (c # takeWhile word_char s) # find_idents (dropWhile word_char s)
      else find_idents s)"
  by pat_completeness auto
termination
  by (relation "measure length") (auto simp: le_imp_less_Suc length_dropWhile_le)

definition exprBuiltins :: "string list" where
  "exprBuiltins =
     [''true'', ''false'', ''nil'', ''in'', ''not'', ''and'', ''or'', ''if'', ''else'',
      ''len'', ''abs'', ''ceil'', ''floor'', ''round'', ''int'', ''float'', ''string'', ''toString'',
      ''format'', ''trim'', ''trimPrefix'', ''trimSuffix'', ''upper'', ''lower'', ''split'', ''join'',
      ''repeat'', ''replace'', ''contains'', ''startsWith'', ''endsWith'', ''matches'', ''find'', ''type'',
      ''kind'', ''isNil'']"

text \<open>The \<open>seen\<close> loops keep the first occurrence of each element.\<close>

fun first_occurrences :: "'a list \<Rightarrow> 'a list \<Rightarrow> 'a list" where
  "first_occurrences seen [] = []"
| "first_occurrences seen (x # xs) =
     (if x \<in> set seen then first_occurrences seen xs else x # first_occurrences (x # seen) xs)"

definition extractVars :: "string \<Rightarrow> string list" where
  "extractVars exprStr =
     first_occurrences [] (filter (\<lambda>m. m \<notin> set exprBuiltins) (find_idents (blank_qualified exprStr)))"

definition extractQualifiedRefs :: "string \<Rightarrow> (string \<times> string) list" where
  "extractQualifiedRefs exprStr = first_occurrences [] (find_qualified exprStr)"

section \<open>Compilation\<close>

datatype on_missing_policy = OnMissingSkip | OnMissingBadQuality | OnMissingZero

text \<open>A compiled program is the text it was compiled from.\<close>

record compiled_derived_tag =
  ct_config :: derived_tag_config
  ct_vars :: "string list"
  ct_qualified :: "(string \<times> string) list"
  ct_interval :: time
  ct_staleGuard :: time
  ct_onMissing :: on_missing_policy

datatype derived_error =
    BadInterval string | IntervalTooShort time | BadStaleGuard string | BadOnMissing string
  | BadExpr string string | DerivedCycle "string list" string
  | EmptyDerivedName | DuplicateDerivedName string | EmptyDerivedExpr string | EmptyDerivedInterval string

definition parse_on_missing :: "string \<Rightarrow> on_missing_policy option" where
  "parse_on_missing s =
     (if s = [] \<or> s = ''skip'' then Some OnMissingSkip
      else if s = ''bad-quality'' then Some OnMissingBadQuality
      else if s = ''zero'' then Some OnMissingZero
      else None)"

definition parse_stale_guard :: "string \<Rightarrow> time option" where
  "parse_stale_guard s = (if s = [] then Some 0 else parse_duration s)"

text \<open>\<open>compile\<close> is \<^verbatim>\<open>expr.Compile\<close>; it returns the error, if there is one.\<close>

definition compileDerivedTag ::
  "(string \<Rightarrow> string option) \<Rightarrow> derived_tag_config \<Rightarrow> (derived_error, compiled_derived_tag) result" where
  "compileDerivedTag compile cfg =
     (case parse_duration (dt_interval cfg) of
        None \<Rightarrow> Inl (BadInterval (dt_interval cfg))
      | Some interval \<Rightarrow>
          if interval < second then Inl (IntervalTooShort interval)
          else case parse_stale_guard (dt_stale_guard cfg) of
                 None \<Rightarrow> Inl (BadStaleGuard (dt_stale_guard cfg))
               | Some guard \<Rightarrow>
                   (case parse_on_missing (dt_on_missing cfg) of
                      None \<Rightarrow> Inl (BadOnMissing (dt_on_missing cfg))
                    | Some policy \<Rightarrow>
                        (case compile (dt_expr cfg) of
                           Some err \<Rightarrow> Inl (BadExpr (dt_expr cfg) err)
                         | None \<Rightarrow>
                             Inr \<lparr>ct_config = cfg, ct_vars = extractVars (dt_expr cfg),
                                  ct_qualified = extractQualifiedRefs (dt_expr cfg),
                                  ct_interval = interval, ct_staleGuard = guard, ct_onMissing = policy\<rparr>)))"

abbreviation ct_name :: "compiled_derived_tag \<Rightarrow> string" where
  "ct_name t \<equiv> dt_name (ct_config t)"

section \<open>The cycle check\<close>

text \<open>The map \<^verbatim>\<open>byName\<close>: a later tag replaces an earlier one of the same name.\<close>

definition by_name :: "compiled_derived_tag list \<Rightarrow> (string \<times> compiled_derived_tag) list" where
  "by_name tags = rev (map (\<lambda>t. (ct_name t, t)) tags)"

text \<open>The names a tag refers to, in the order \<^verbatim>\<open>visit\<close> follows them.\<close>

definition derived_refs :: "compiled_derived_tag \<Rightarrow> string list" where
  "derived_refs t = map snd (filter (\<lambda>q. fst q = derivedDriverName) (ct_qualified t)) @ ct_vars t"

definition cycle_error :: "string list \<Rightarrow> string \<Rightarrow> derived_error" where
  "cycle_error path name = DerivedCycle (dropWhile (\<lambda>p. p \<noteq> name) path) name"

text \<open>
  \<^verbatim>\<open>visit\<close>, on the references that are still to be followed: \<open>path\<close> is the chain of tags that are
  being visited, which is also the content of the \<^verbatim>\<open>visiting\<close> set.
\<close>

lemma path_measure:
  "map_of bs n = Some t \<Longrightarrow> n \<notin> set path \<Longrightarrow>
   card (fst ` set bs - insert n (set path)) < card (fst ` set bs - set path)"
proof -
  assume "map_of bs n = Some t" "n \<notin> set path"
  then have "n \<in> fst ` set bs - set path" by (force dest: map_of_SomeD)
  then have "fst ` set bs - insert n (set path) \<subset> fst ` set bs - set path" by auto
  then show ?thesis by (rule psubset_card_mono [rotated]) simp
qed

function visit :: "(string \<times> compiled_derived_tag) list \<Rightarrow> string list \<Rightarrow> string list \<Rightarrow> derived_error option" where
  "visit bs path [] = None"
| "visit bs path (n # ns) =
     (case map_of bs n of
        None \<Rightarrow> visit bs path ns
      | Some t \<Rightarrow>
          if n \<in> set path then Some (cycle_error path n)
          else case visit bs (path @ [n]) (derived_refs t) of
                 Some err \<Rightarrow> Some err
               | None \<Rightarrow> visit bs path ns)"
  by pat_completeness auto
termination
  by (relation "measures [\<lambda>(bs, path, ns). card (fst ` set bs - set path), \<lambda>(bs, path, ns). length ns]")
     (auto simp: path_measure)

text \<open>The outer loop visits every tag of the list with nothing else being visited.\<close>

fun visit_roots :: "(string \<times> compiled_derived_tag) list \<Rightarrow> compiled_derived_tag list \<Rightarrow> derived_error option" where
  "visit_roots bs [] = None"
| "visit_roots bs (t # ts) =
     (case visit bs [ct_name t] (derived_refs t) of Some err \<Rightarrow> Some err | None \<Rightarrow> visit_roots bs ts)"

definition detectDerivedCycles :: "compiled_derived_tag list \<Rightarrow> derived_error option" where
  "detectDerivedCycles tags = visit_roots (by_name tags) tags"

fun compile_all ::
  "(string \<Rightarrow> string option) \<Rightarrow> derived_tag_config list \<Rightarrow> (derived_error, compiled_derived_tag list) result" where
  "compile_all compile [] = Inr []"
| "compile_all compile (cfg # cfgs) =
     (case compileDerivedTag compile cfg of
        Inl err \<Rightarrow> Inl err
      | Inr ct \<Rightarrow> (case compile_all compile cfgs of Inl err \<Rightarrow> Inl err | Inr cts \<Rightarrow> Inr (ct # cts)))"

definition newDerivedTagEvaluator ::
  "(string \<Rightarrow> string option) \<Rightarrow> derived_tag_config list \<Rightarrow> (derived_error, compiled_derived_tag list) result" where
  "newDerivedTagEvaluator compile cfgs =
     (case compile_all compile cfgs of
        Inl err \<Rightarrow> Inl err
      | Inr tags \<Rightarrow> (case detectDerivedCycles tags of Some err \<Rightarrow> Inl err | None \<Rightarrow> Inr tags))"

fun validate_derived_from :: "string list \<Rightarrow> derived_tag_config list \<Rightarrow> derived_error option" where
  "validate_derived_from names [] = None"
| "validate_derived_from names (cfg # cfgs) =
     (if trim_space (dt_name cfg) = [] then Some EmptyDerivedName
      else if dt_name cfg \<in> set names then Some (DuplicateDerivedName (dt_name cfg))
      else if trim_space (dt_expr cfg) = [] then Some (EmptyDerivedExpr (dt_name cfg))
      else if trim_space (dt_interval cfg) = [] then Some (EmptyDerivedInterval (dt_name cfg))
      else validate_derived_from (dt_name cfg # names) cfgs)"

definition validateDerivedTags :: "derived_tag_config list \<Rightarrow> derived_error option" where
  "validateDerivedTags cfgs = validate_derived_from [] cfgs"

text \<open>
  \<^verbatim>\<open>applyDerivedTags\<close> of \<^verbatim>\<open>engine/lifecycle_support.go\<close>: the new set replaces the running one only when
  it validates and compiles.
\<close>

definition applyDerivedTags ::
  "(string \<Rightarrow> string option) \<Rightarrow> derived_tag_config list \<Rightarrow> compiled_derived_tag list \<Rightarrow>
   derived_error option \<times> compiled_derived_tag list" where
  "applyDerivedTags compile cfgs running =
     (case validateDerivedTags cfgs of
        Some err \<Rightarrow> (Some err, running)
      | None \<Rightarrow>
          (case newDerivedTagEvaluator compile cfgs of
             Inl err \<Rightarrow> (Some err, running)
           | Inr tags \<Rightarrow> (None, tags)))"

section \<open>Evaluation\<close>

text \<open>\<^verbatim>\<open>toFloat64\<close>; note the types it does not list.\<close>

fun toFloat64 :: "go_value \<Rightarrow> f64 option" where
  "toFloat64 (VFloat64 n) = Some n"
| "toFloat64 (VFloat32 n) = Some (f64_of_f32 n)"
| "toFloat64 (VInt n) = Some (f64_of_int (sint n))"
| "toFloat64 (VInt16 n) = Some (f64_of_int (sint n))"
| "toFloat64 (VInt32 n) = Some (f64_of_int (sint n))"
| "toFloat64 (VInt64 n) = Some (f64_of_int (sint n))"
| "toFloat64 (VUint n) = Some (f64_of_int (uint n))"
| "toFloat64 (VUint16 n) = Some (f64_of_int (uint n))"
| "toFloat64 (VUint32 n) = Some (f64_of_int (uint n))"
| "toFloat64 (VUint64 n) = Some (f64_of_int (uint n))"
| "toFloat64 (VBool b) = Some (if b then f64_of_int 1 else 0)"
| "toFloat64 _ = None"

text \<open>
  The environment: a flat name is a number, a driver name is a map of its tags. The state of
  \<^verbatim>\<open>buildEnv\<close> is the environment, the missing references and whether an input is stale.
\<close>

datatype env_val = ENum f64 | EDriver "string \<rightharpoonup> f64"

type_synonym derived_env = "string \<rightharpoonup> env_val"

definition driver_env :: "string \<Rightarrow> derived_env \<Rightarrow> string \<rightharpoonup> f64" where
  "driver_env d env = (case env d of Some (EDriver m) \<Rightarrow> m | _ \<Rightarrow> Map.empty)"

definition set_driver_env :: "string \<Rightarrow> string \<Rightarrow> f64 \<Rightarrow> derived_env \<Rightarrow> derived_env" where
  "set_driver_env d t f env = env(d \<mapsto> EDriver ((driver_env d env)(t \<mapsto> f)))"

definition too_old :: "time \<Rightarrow> time \<Rightarrow> data_point \<Rightarrow> bool" where
  "too_old staleGuard now dp \<longleftrightarrow> staleGuard > 0 \<and> now - dp_timestamp dp > staleGuard"

text \<open>The number an input supplies: none when the point is absent or not numeric.\<close>

definition numeric_input :: "data_point option \<Rightarrow> (f64 \<times> data_point) option" where
  "numeric_input x = (case x of None \<Rightarrow> None | Some dp \<Rightarrow> map_option (\<lambda>f. (f, dp)) (toFloat64 (dp_value dp)))"

fun build_flat ::
  "time \<Rightarrow> time \<Rightarrow> (string \<rightharpoonup> data_point) \<Rightarrow> string list \<Rightarrow>
   derived_env \<times> string list \<times> bool \<Rightarrow> derived_env \<times> string list \<times> bool" where
  "build_flat g now snapshot [] st = st"
| "build_flat g now snapshot (v # vs) (env, missing, stale) =
     build_flat g now snapshot vs
       (case numeric_input (snapshot v) of
          None \<Rightarrow> (env(v \<mapsto> ENum 0), missing @ [v], stale)
        | Some (f, dp) \<Rightarrow> (env(v \<mapsto> ENum f), missing, stale \<or> too_old g now dp))"

fun build_qualified ::
  "time \<Rightarrow> time \<Rightarrow> latest_cache \<Rightarrow> (string \<times> string) list \<Rightarrow>
   derived_env \<times> string list \<times> bool \<Rightarrow> derived_env \<times> string list \<times> bool" where
  "build_qualified g now cache [] st = st"
| "build_qualified g now cache ((d, t) # qs) (env, missing, stale) =
     build_qualified g now cache qs
       (case numeric_input (Get d t cache) of
          None \<Rightarrow> (set_driver_env d t 0 env, missing @ [d @ ''.'' @ t], stale)
        | Some (f, dp) \<Rightarrow> (set_driver_env d t f env, missing, stale \<or> too_old g now dp))"

definition buildEnv ::
  "string list \<Rightarrow> (string \<times> string) list \<Rightarrow> (string \<rightharpoonup> data_point) \<Rightarrow> latest_cache \<Rightarrow> time \<Rightarrow> time \<Rightarrow>
   derived_env \<times> string list \<times> bool" where
  "buildEnv vars qualified snapshot cache staleGuard now =
     build_qualified staleGuard now cache qualified (build_flat staleGuard now snapshot vars (Map.empty, [], False))"

text \<open>
  \<^verbatim>\<open>evaluate\<close> up to the push: \<open>run\<close> is \<^verbatim>\<open>expr.Run\<close>, \<open>ord\<close> the map iteration order of the snapshot,
  \<open>now\<close> and \<open>now'\<close> the two clock readings.
\<close>

definition derived_point ::
  "(string \<Rightarrow> derived_env \<Rightarrow> go_value option) \<Rightarrow> (nat \<Rightarrow> string list) \<Rightarrow> time \<Rightarrow> time \<Rightarrow>
   latest_cache \<Rightarrow> compiled_derived_tag \<Rightarrow> data_point option" where
  "derived_point run ord now now' cache tag =
     (case buildEnv (ct_vars tag) (ct_qualified tag) (GetAll ord cache) cache (ct_staleGuard tag) now of
        (env, missing, stale) \<Rightarrow>
          if missing \<noteq> [] \<and> ct_onMissing tag = OnMissingSkip then None
          else case run (dt_expr (ct_config tag)) env of
                 None \<Rightarrow> None
               | Some result \<Rightarrow>
                   let badValue = (case toFloat64 result of None \<Rightarrow> True | Some f \<Rightarrow> f64_isNaN f \<or> f64_isInf f)
                   in if badValue \<and> ct_onMissing tag = OnMissingSkip then None
                      else Some
                        \<lparr>dp_driver = derivedDriverName, dp_device = [], dp_group = dt_group (ct_config tag),
                         dp_tag = ct_name tag,
                         dp_value = VFloat64 (if badValue then 0 else the (toFloat64 result)),
                         dp_type = dt_type (ct_config tag),
                         dp_quality =
                           (if missing \<noteq> [] \<and> ct_onMissing tag = OnMissingBadQuality \<or> badValue \<or> stale
                            then QualityBad else QualityGood),
                         dp_timestamp = now',
                         dp_metadata =
                           (if dt_unit (ct_config tag) \<noteq> [] then [(''unit'', dt_unit (ct_config tag))] else []),
                         dp_is_stale = stale\<rparr>)"

definition evaluate ::
  "(string \<Rightarrow> derived_env \<Rightarrow> go_value option) \<Rightarrow> (nat \<Rightarrow> string list) \<Rightarrow> time \<Rightarrow> time \<Rightarrow>
   latest_cache \<Rightarrow> compiled_derived_tag \<Rightarrow> data_bus \<Rightarrow> data_bus option" where
  "evaluate run ord now now' cache tag bus =
     (case derived_point run ord now now' cache tag of None \<Rightarrow> Some bus | Some p \<Rightarrow> Push p bus)"

section \<open>The cycle check accepts exactly the acyclic reference graphs\<close>

text \<open>An edge leads from a derived tag to a derived tag it refers to.\<close>

definition ref_edges :: "(string \<times> compiled_derived_tag) list \<Rightarrow> (string \<times> string) set" where
  "ref_edges bs = {(a, b). \<exists>t u. map_of bs a = Some t \<and> map_of bs b = Some u
     \<and> ((derivedDriverName, b) \<in> set (ct_qualified t) \<or> b \<in> set (ct_vars t))}"

lemma ref_edges_refs:
  "ref_edges bs = {(a, b). \<exists>t u. map_of bs a = Some t \<and> map_of bs b = Some u \<and> b \<in> set (derived_refs t)}"
  by (force simp: ref_edges_def derived_refs_def)

lemma visit_None:
  assumes "visit bs path ns = None" "n \<in> set ns" "map_of bs n = Some t" "(n, m) \<in> (ref_edges bs)\<^sup>*"
  shows "m \<notin> set path \<and> (m, m) \<notin> (ref_edges bs)\<^sup>+"
  using assms
proof (induction bs path ns arbitrary: n t m rule: visit.induct)
  case (1 bs path)
  then show ?case by simp
next
  case (2 bs path k ns)
  show ?case
  proof (cases "n = k")
    case False
    show ?thesis
    proof (cases "map_of bs k")
      case None
      with "2.IH"(1) [OF None, of n t m] "2.prems" False show ?thesis by simp
    next
      case (Some u)
      then have "k \<notin> set path" and v: "visit bs (path @ [k]) (derived_refs u) = None" and "visit bs path ns = None"
        using "2.prems"(1) by (auto split: option.splits if_splits)
      with "2.IH"(3) [OF Some _ v, of n t m] "2.prems" False show ?thesis by simp
    qed
  next
    case True
    have np: "n \<notin> set path" and sub: "visit bs (path @ [n]) (derived_refs t) = None"
      using "2.prems"(1,3) True by (auto split: option.splits if_splits)
    have below: "y \<notin> set (path @ [n]) \<and> (y, y) \<notin> (ref_edges bs)\<^sup>+"
      if e: "(n, x) \<in> ref_edges bs" and w: "(x, y) \<in> (ref_edges bs)\<^sup>*" for x y
    proof -
      obtain u where "map_of bs x = Some u" "x \<in> set (derived_refs t)"
        using e "2.prems"(3) by (auto simp: ref_edges_refs)
      then show ?thesis using "2.IH"(2) [of t x u y] "2.prems"(3) np sub w True by simp
    qed
    show ?thesis
    proof (cases "m = n")
      case True
      have "(n, n) \<notin> (ref_edges bs)\<^sup>+" using below by (auto dest!: tranclD)
      with True np show ?thesis by simp
    next
      case False
      with "2.prems"(4) obtain x where "(n, x) \<in> ref_edges bs" "(x, m) \<in> (ref_edges bs)\<^sup>*"
        by (metis converse_rtranclE)
      from below [OF this] show ?thesis by simp
    qed
  qed
qed

text \<open>A chain of tags, each referring to the next, as \<open>path\<close> is.\<close>

fun ref_chain :: "(string \<times> compiled_derived_tag) list \<Rightarrow> string list \<Rightarrow> bool" where
  "ref_chain bs (a # b # xs) \<longleftrightarrow> (a, b) \<in> ref_edges bs \<and> ref_chain bs (b # xs)"
| "ref_chain bs _ \<longleftrightarrow> True"

lemma ref_chain_snoc:
  "ref_chain bs xs \<Longrightarrow> (xs \<noteq> [] \<Longrightarrow> (last xs, n) \<in> ref_edges bs) \<Longrightarrow> ref_chain bs (xs @ [n])"
  by (induction bs xs rule: ref_chain.induct) auto

lemma ref_chain_reaches_last:
  "ref_chain bs xs \<Longrightarrow> a \<in> set xs \<Longrightarrow> (a, last xs) \<in> (ref_edges bs)\<^sup>*"
proof (induction bs xs arbitrary: a rule: ref_chain.induct)
  case (1 bs c b xs)
  have "(b, last (b # xs)) \<in> (ref_edges bs)\<^sup>*" using "1.IH" [of b] "1.prems" by simp
  with "1.IH" [of a] "1.prems" show ?case by (auto intro: converse_rtrancl_into_rtrancl)
qed auto

lemma ref_chain_dropWhile: "ref_chain bs xs \<Longrightarrow> ref_chain bs (dropWhile P xs)"
proof (induction bs xs rule: ref_chain.induct)
  case (1 bs a b xs)
  then show ?case by (cases "P a") simp_all
qed simp_all

text \<open>What the error shows: a chain of references that starts and ends at the same tag.\<close>

definition names_cycle :: "(string \<times> compiled_derived_tag) list \<Rightarrow> derived_error \<Rightarrow> bool" where
  "names_cycle bs err \<longleftrightarrow>
     (case err of DerivedCycle cyc n \<Rightarrow> cyc \<noteq> [] \<and> hd cyc = n \<and> ref_chain bs (cyc @ [n]) | _ \<Rightarrow> False)"

lemma cycle_error_names_cycle:
  assumes "ref_chain bs path" "n \<in> set path" "(last path, n) \<in> ref_edges bs"
  shows "names_cycle bs (cycle_error path n)"
proof -
  let ?c = "dropWhile (\<lambda>p. p \<noteq> n) path"
  have ne: "?c \<noteq> []" using assms(2) by simp
  then have "hd ?c = n" using hd_dropWhile [of "\<lambda>p. p \<noteq> n" path] by simp
  moreover have "last ?c = last path" using ne by (metis last_appendR takeWhile_dropWhile_id)
  ultimately show ?thesis
    using ne ref_chain_snoc [OF ref_chain_dropWhile [OF assms(1)], of "\<lambda>p. p \<noteq> n" n] assms(3)
    by (simp add: names_cycle_def cycle_error_def)
qed

lemma names_cycle_not_acyclic:
  assumes "names_cycle bs err"
  shows "\<not> acyclic (ref_edges bs)"
proof -
  obtain n cyc where c: "ref_chain bs (n # cyc @ [n])"
    using assms by (cases err) (auto simp: names_cycle_def neq_Nil_conv)
  obtain b xs where b: "cyc @ [n] = b # xs" by (cases "cyc @ [n]") simp_all
  with c have e: "(n, b) \<in> ref_edges bs" and "ref_chain bs (b # xs)" by simp_all
  from ref_chain_reaches_last [OF this(2), of b] have "(b, last (b # xs)) \<in> (ref_edges bs)\<^sup>*" by simp
  then have "(b, n) \<in> (ref_edges bs)\<^sup>*" using b by (metis last_snoc)
  with e have "(n, n) \<in> (ref_edges bs)\<^sup>+" by (rule rtrancl_into_trancl2)
  then show ?thesis by (auto simp: acyclic_def)
qed

lemma visit_Some:
  assumes "visit bs path ns = Some err" "ref_chain bs path" "path \<noteq> []"
    "map_of bs (last path) = Some t" "set ns \<subseteq> set (derived_refs t)"
  shows "names_cycle bs err"
  using assms
proof (induction bs path ns arbitrary: t rule: visit.induct)
  case (1 bs path)
  then show ?case by simp
next
  case (2 bs path n ns)
  show ?case
  proof (cases "map_of bs n")
    case None
    with "2.IH"(1) [of t] "2.prems" show ?thesis by simp
  next
    case (Some u)
    have e: "(last path, n) \<in> ref_edges bs" using "2.prems"(4,5) Some by (auto simp: ref_edges_refs)
    show ?thesis
    proof (cases "n \<in> set path")
      case True
      then show ?thesis using cycle_error_names_cycle [OF "2.prems"(2) True e] "2.prems"(1) Some by simp
    next
      case False
      show ?thesis
      proof (cases "visit bs (path @ [n]) (derived_refs u)")
        case None
        with "2.IH"(3) [OF Some False None, of t] "2.prems" Some False show ?thesis by simp
      next
        case s: (Some err')
        then have "visit bs (path @ [n]) (derived_refs u) = Some err" using "2.prems"(1) Some False by simp
        from "2.IH"(2) [OF Some False this _ _ _ order_refl] show ?thesis
          using ref_chain_snoc [OF "2.prems"(2), of n] e Some by simp
      qed
    qed
  qed
qed

lemma map_of_by_name:
  "distinct (map ct_name tags) \<Longrightarrow> map_of (by_name tags) n = Some t \<longleftrightarrow> t \<in> set tags \<and> ct_name t = n"
  unfolding by_name_def
  by (subst map_of_eq_Some_iff) (auto simp: rev_map [symmetric] comp_def)

lemma visit_roots_None:
  "visit_roots bs ts = None \<longleftrightarrow> (\<forall>t\<in>set ts. visit bs [ct_name t] (derived_refs t) = None)"
  by (induction ts) (auto split: option.splits)

lemma detect_None_acyclic:
  assumes "distinct (map ct_name tags)" "detectDerivedCycles tags = None"
  shows "acyclic (ref_edges (by_name tags))"
  unfolding acyclic_def
proof (intro allI notI)
  fix a
  let ?E = "ref_edges (by_name tags)"
  assume "(a, a) \<in> ?E\<^sup>+"
  then obtain b where ab: "(a, b) \<in> ?E" and ba: "(b, a) \<in> ?E\<^sup>*" by (auto dest: tranclD)
  from ab obtain t u where t: "map_of (by_name tags) a = Some t" and u: "map_of (by_name tags) b = Some u"
    and r: "b \<in> set (derived_refs t)" by (auto simp: ref_edges_refs)
  from t have "t \<in> set tags" "ct_name t = a" using map_of_by_name [OF assms(1)] by blast+
  with assms(2) have "visit (by_name tags) [a] (derived_refs t) = None"
    by (auto simp: detectDerivedCycles_def visit_roots_None)
  from visit_None [OF this r u ba] show False by simp
qed

lemma visit_roots_Some:
  "visit_roots bs ts = Some err \<Longrightarrow> \<exists>t\<in>set ts. visit bs [ct_name t] (derived_refs t) = Some err"
  by (induction ts) (auto split: option.splits)

lemma detect_Some_cycle:
  assumes "distinct (map ct_name tags)" "detectDerivedCycles tags = Some err"
  shows "names_cycle (by_name tags) err"
proof -
  obtain t where t: "t \<in> set tags" and v: "visit (by_name tags) [ct_name t] (derived_refs t) = Some err"
    using visit_roots_Some assms(2) by (force simp: detectDerivedCycles_def)
  have "map_of (by_name tags) (ct_name t) = Some t" using map_of_by_name [OF assms(1)] t by blast
  with visit_Some [OF v, of t] show ?thesis by simp
qed

lemma validate_derived_distinct:
  "validate_derived_from names cfgs = None \<Longrightarrow>
   distinct (map dt_name cfgs) \<and> set (map dt_name cfgs) \<inter> set names = {}"
proof (induction cfgs arbitrary: names)
  case (Cons c cfgs)
  then have "dt_name c \<notin> set names" "validate_derived_from (dt_name c # names) cfgs = None"
    by (auto split: if_splits)
  with Cons.IH [of "dt_name c # names"] show ?case by auto
qed simp

lemma compileDerivedTag_config: "compileDerivedTag compile cfg = Inr ct \<Longrightarrow> ct_config ct = cfg"
  by (auto simp: compileDerivedTag_def split: option.splits if_splits)

lemma compile_all_configs: "compile_all compile cfgs = Inr tags \<Longrightarrow> map ct_config tags = cfgs"
  by (induction cfgs arbitrary: tags) (auto split: sum.splits dest: compileDerivedTag_config)

text \<open>
  C10. The evaluator accepts validated, compilable derived tags exactly when no tag depends on itself
  through any chain of qualified or unqualified references, and a rejection names a real cycle: a
  chain of references that comes back to its first tag.
\<close>

theorem derived_cycle_check_exact:
  assumes "validateDerivedTags cfgs = None" and "compile_all compile cfgs = Inr tags"
  shows "(newDerivedTagEvaluator compile cfgs = Inr tags \<and> acyclic (ref_edges (by_name tags)))
    \<or> (\<exists>err. newDerivedTagEvaluator compile cfgs = Inl err \<and> names_cycle (by_name tags) err
         \<and> \<not> acyclic (ref_edges (by_name tags)))"
proof -
  have "map ct_name tags = map dt_name cfgs"
    using compile_all_configs [OF assms(2)] by (auto simp: comp_def)
  then have d: "distinct (map ct_name tags)"
    using validate_derived_distinct assms(1) by (metis validateDerivedTags_def)
  show ?thesis
  proof (cases "detectDerivedCycles tags")
    case None
    with detect_None_acyclic [OF d] assms(2) show ?thesis by (simp add: newDerivedTagEvaluator_def)
  next
    case (Some err)
    with detect_Some_cycle [OF d Some] names_cycle_not_acyclic assms(2) show ?thesis
      by (simp add: newDerivedTagEvaluator_def)
  qed
qed

definition demo_derived :: "string \<Rightarrow> string \<Rightarrow> derived_tag_config" where
  "demo_derived name e = \<lparr>dt_name = name, dt_expr = e, dt_type = TypeFloat64, dt_group = [], dt_interval = ''5s'',
     dt_unit = [], dt_on_missing = [], dt_stale_guard = []\<rparr>"

definition demo_compiled :: "string \<Rightarrow> string \<Rightarrow> compiled_derived_tag" where
  "demo_compiled name e = \<lparr>ct_config = demo_derived name e, ct_vars = extractVars e,
     ct_qualified = extractQualifiedRefs e, ct_interval = 5 * second, ct_staleGuard = 0, ct_onMissing = OnMissingSkip\<rparr>"

lemma parse_5s: "parse_duration ''5s'' = Some (5 * second)"
proof -
  have "show_nat 5 = ''5''" by code_simp
  then show ?thesis
    using parse_duration_whole [of "''s''" 1000000000 5] by (simp add: duration_units_def unit_char_def is_digit_def)
qed

lemma compile_demo: "compileDerivedTag (\<lambda>_. None) (demo_derived name e) = Inr (demo_compiled name e)"
  by (simp add: compileDerivedTag_def demo_derived_def demo_compiled_def parse_5s parse_stale_guard_def parse_on_missing_def)

theorem derived_cycle_check_exact_witness:
  "\<exists>err. newDerivedTagEvaluator (\<lambda>_. None) [demo_derived ''a'' ''derived.b + 1'', demo_derived ''b'' ''2 * a''] = Inl err
     \<and> names_cycle (by_name [demo_compiled ''a'' ''derived.b + 1'', demo_compiled ''b'' ''2 * a'']) err"
proof -
  let ?cfgs = "[demo_derived ''a'' ''derived.b + 1'', demo_derived ''b'' ''2 * a'']"
  let ?tags = "[demo_compiled ''a'' ''derived.b + 1'', demo_compiled ''b'' ''2 * a'']"
  have v: "validateDerivedTags ?cfgs = None" by code_simp
  have c: "compile_all (\<lambda>_. None) ?cfgs = Inr ?tags" by (simp add: compile_demo)
  have "detectDerivedCycles ?tags \<noteq> None" by code_simp
  then have "newDerivedTagEvaluator (\<lambda>_. None) ?cfgs \<noteq> Inr ?tags" unfolding newDerivedTagEvaluator_def c by auto
  with derived_cycle_check_exact [OF v c] show ?thesis by blast
qed

section \<open>What a derived point stands on\<close>

text \<open>The inputs of a tag: what the snapshot and the cache supply for its references.\<close>

definition derived_inputs :: "(nat \<Rightarrow> string list) \<Rightarrow> latest_cache \<Rightarrow> compiled_derived_tag \<Rightarrow> (f64 \<times> data_point) option list" where
  "derived_inputs ord cache tag =
     map (\<lambda>v. numeric_input (GetAll ord cache v)) (ct_vars tag) @
     map (\<lambda>(d, t). numeric_input (Get d t cache)) (ct_qualified tag)"

definition inputs_stale :: "time \<Rightarrow> time \<Rightarrow> (f64 \<times> data_point) option list \<Rightarrow> bool" where
  "inputs_stale g now xs \<longleftrightarrow> (\<exists>f dp. Some (f, dp) \<in> set xs \<and> too_old g now dp)"

definition input_number :: "(f64 \<times> data_point) option \<Rightarrow> f64" where
  "input_number x = (case x of None \<Rightarrow> 0 | Some (f, _) \<Rightarrow> f)"

lemma inputs_stale_simps [simp]:
  "inputs_stale g now [] \<longleftrightarrow> False"
  "inputs_stale g now (None # xs) \<longleftrightarrow> inputs_stale g now xs"
  "inputs_stale g now (Some (f, dp) # xs) \<longleftrightarrow> too_old g now dp \<or> inputs_stale g now xs"
  "inputs_stale g now (xs @ ys) \<longleftrightarrow> inputs_stale g now xs \<or> inputs_stale g now ys"
  by (auto simp: inputs_stale_def)

lemma build_flat_missing:
  "fst (snd (build_flat g now snapshot vs st)) = fst (snd st) @ filter (\<lambda>v. numeric_input (snapshot v) = None) vs"
  by (induction g now snapshot vs st rule: build_flat.induct) (auto split: option.splits)

lemma build_flat_stale:
  "snd (snd (build_flat g now snapshot vs st)) \<longleftrightarrow>
   snd (snd st) \<or> inputs_stale g now (map (\<lambda>v. numeric_input (snapshot v)) vs)"
  by (induction g now snapshot vs st rule: build_flat.induct) (auto split: option.splits)

lemma build_flat_env:
  "fst (build_flat g now snapshot vs st) n =
   (if n \<in> set vs then Some (ENum (input_number (numeric_input (snapshot n)))) else fst st n)"
  by (induction g now snapshot vs st rule: build_flat.induct) (auto simp: input_number_def split: option.splits)

lemma driver_env_set [simp]:
  "driver_env d' (set_driver_env d t f env) = (if d' = d then (driver_env d env)(t \<mapsto> f) else driver_env d' env)"
  by (simp add: driver_env_def set_driver_env_def)

lemma build_qualified_missing:
  "fst (snd (build_qualified g now cache qs st)) =
   fst (snd st) @ map (\<lambda>(d, t). d @ ''.'' @ t) (filter (\<lambda>(d, t). numeric_input (Get d t cache) = None) qs)"
  by (induction g now cache qs st rule: build_qualified.induct) (auto split: option.splits)

lemma build_qualified_stale:
  "snd (snd (build_qualified g now cache qs st)) \<longleftrightarrow>
   snd (snd st) \<or> inputs_stale g now (map (\<lambda>(d, t). numeric_input (Get d t cache)) qs)"
  by (induction g now cache qs st rule: build_qualified.induct) (auto split: option.splits)

lemma build_qualified_env:
  "driver_env d (fst (build_qualified g now cache qs st)) t =
   (if (d, t) \<in> set qs then Some (input_number (numeric_input (Get d t cache))) else driver_env d (fst st) t)"
  by (induction g now cache qs st rule: build_qualified.induct) (auto simp: input_number_def split: option.splits)

lemma build_qualified_flat:
  "n \<notin> fst ` set qs \<Longrightarrow> fst (build_qualified g now cache qs st) n = fst st n"
  by (induction g now cache qs st rule: build_qualified.induct) (auto simp: set_driver_env_def split: option.splits)

text \<open>
  The environment is exact: a qualified reference reads the point of that very driver, a flat one
  the flattened snapshot, and a missing input is 0.
\<close>

lemma buildEnv_env:
  assumes "buildEnv vars qs snapshot cache g now = (env, missing, stale)"
  shows "(d, t) \<in> set qs \<Longrightarrow> driver_env d env t = Some (input_number (numeric_input (Get d t cache)))"
    and "v \<in> set vars \<Longrightarrow> v \<notin> fst ` set qs \<Longrightarrow> env v = Some (ENum (input_number (numeric_input (snapshot v))))"
proof -
  have e: "env = fst (build_qualified g now cache qs (build_flat g now snapshot vars (Map.empty, [], False)))"
    using assms by (simp add: buildEnv_def)
  show "(d, t) \<in> set qs \<Longrightarrow> driver_env d env t = Some (input_number (numeric_input (Get d t cache)))"
    unfolding e by (simp add: build_qualified_env)
  show "v \<in> set vars \<Longrightarrow> v \<notin> fst ` set qs \<Longrightarrow> env v = Some (ENum (input_number (numeric_input (snapshot v))))"
    unfolding e by (simp add: build_qualified_flat build_flat_env)
qed

lemma buildEnv_inputs:
  assumes "buildEnv (ct_vars tag) (ct_qualified tag) (GetAll ord cache) cache g now = (env, missing, stale)"
  shows "missing = [] \<longleftrightarrow> None \<notin> set (derived_inputs ord cache tag)"
    and "stale \<longleftrightarrow> inputs_stale g now (derived_inputs ord cache tag)"
proof -
  let ?f = "build_flat g now (GetAll ord cache) (ct_vars tag) (Map.empty, [], False)"
  have m: "missing = fst (snd (build_qualified g now cache (ct_qualified tag) ?f))"
    and st: "stale = snd (snd (build_qualified g now cache (ct_qualified tag) ?f))"
    using assms by (simp_all add: buildEnv_def)
  show "missing = [] \<longleftrightarrow> None \<notin> set (derived_inputs ord cache tag)"
    unfolding m build_qualified_missing build_flat_missing
    by (simp add: derived_inputs_def filter_empty_conv image_iff split_beta eq_commute [of None])
  show "stale \<longleftrightarrow> inputs_stale g now (derived_inputs ord cache tag)"
    unfolding st build_qualified_stale build_flat_stale by (simp add: derived_inputs_def)
qed

text \<open>
  C27. A derived point is finite and carries the name of its tag. It is of good quality exactly when
  every input is present and numeric (or the tag substitutes zeros), no input is older than the stale
  guard, and the expression gave a finite number, which is then its value; it is marked stale exactly
  when an input is. A tag with the default policy emits no point from missing inputs.
\<close>

theorem derived_point_quality:
  assumes "derived_point run ord now now' cache tag = Some p"
  shows "dp_driver p = derivedDriverName \<and> dp_tag p = ct_name tag
    \<and> (\<exists>f. dp_value p = VFloat64 f \<and> f64_finite f)
    \<and> (dp_is_stale p \<longleftrightarrow> inputs_stale (ct_staleGuard tag) now (derived_inputs ord cache tag))
    \<and> (ct_onMissing tag = OnMissingSkip \<longrightarrow> None \<notin> set (derived_inputs ord cache tag))
    \<and> (dp_quality p = QualityGood \<longleftrightarrow>
         (None \<notin> set (derived_inputs ord cache tag) \<or> ct_onMissing tag = OnMissingZero)
         \<and> \<not> inputs_stale (ct_staleGuard tag) now (derived_inputs ord cache tag)
         \<and> (\<exists>env r f. run (dt_expr (ct_config tag)) env = Some r \<and> toFloat64 r = Some f \<and> f64_finite f
              \<and> dp_value p = VFloat64 f
              \<and> env = fst (buildEnv (ct_vars tag) (ct_qualified tag) (GetAll ord cache) cache (ct_staleGuard tag) now)))"
proof -
  obtain env missing stale where b:
    "buildEnv (ct_vars tag) (ct_qualified tag) (GetAll ord cache) cache (ct_staleGuard tag) now = (env, missing, stale)"
    by (metis prod_cases3)
  note i = buildEnv_inputs [OF b]
  obtain r where r: "run (dt_expr (ct_config tag)) env = Some r"
    using assms b by (auto simp: derived_point_def split: if_splits option.splits)
  have fin: "f64_finite x \<longleftrightarrow> \<not> (f64_isNaN x \<or> f64_isInf x)" for x
    by (auto simp: f64_finite_def f64_isNaN_def f64_isInf_def)
  have z: "f64_finite 0" by (simp add: f64_finite_def f64_mag_def f64_inf_def)
  show ?thesis
  proof (cases "toFloat64 r")
    case None
    with assms b r z show ?thesis
      by (cases "ct_onMissing tag") (auto simp: derived_point_def i [symmetric] split: if_splits)
  next
    case (Some f)
    with assms b r z fin [of f] show ?thesis
      by (cases "ct_onMissing tag"; cases "f64_finite f")
         (auto simp: derived_point_def i [symmetric] split: if_splits)
  qed
qed

definition member_run :: "string \<Rightarrow> derived_env \<Rightarrow> go_value option" where
  "member_run e env = map_option VFloat64 (driver_env ''plc'' env ''t'')"

definition demo_cache :: latest_cache where
  "demo_cache = Update (cache_point ''plc'' ''t'' (VFloat64 0)) NewLatestCache"

definition demo_member :: compiled_derived_tag where
  "demo_member = \<lparr>ct_config = demo_derived ''k'' ''plc.t'', ct_vars = [], ct_qualified = [(''plc'', ''t'')],
     ct_interval = 5 * second, ct_staleGuard = 10, ct_onMissing = OnMissingSkip\<rparr>"

lemma demo_Get: "Get ''plc'' ''t'' demo_cache = Some (cache_point ''plc'' ''t'' (VFloat64 0))"
  by (simp add: demo_cache_def Get_Update cache_point_def)

theorem derived_point_quality_witness:
  "\<exists>p. derived_point member_run (\<lambda>_. []) 5 6 demo_cache demo_member = Some p \<and> dp_quality p = QualityGood \<and> dp_tag p = ''k''"
proof -
  have z: "\<not> f64_isNaN 0" "\<not> f64_isInf 0" "f64_finite 0"
    by (simp_all add: f64_isNaN_def f64_isInf_def f64_finite_def f64_mag_def f64_inf_def)
  have i: "derived_inputs (\<lambda>_. []) demo_cache demo_member = [Some (0, cache_point ''plc'' ''t'' (VFloat64 0))]"
    by (simp add: derived_inputs_def demo_member_def demo_Get numeric_input_def cache_point_def)
  obtain p where p: "derived_point member_run (\<lambda>_. []) 5 6 demo_cache demo_member = Some p"
    by (simp add: derived_point_def demo_member_def demo_derived_def buildEnv_def demo_Get numeric_input_def
        cache_point_def member_run_def z)
  have "dp_value p = VFloat64 0"
    using p by (simp add: derived_point_def demo_member_def demo_derived_def buildEnv_def demo_Get numeric_input_def
        cache_point_def member_run_def z) (auto)
  with derived_point_quality [OF p] p i z show ?thesis
    by (simp add: demo_member_def demo_derived_def buildEnv_def demo_Get numeric_input_def member_run_def
        cache_point_def too_old_def)
qed

text \<open>
  The documented functions \<^verbatim>\<open>max()\<close> and \<^verbatim>\<open>min()\<close> are not in \<^verbatim>\<open>exprBuiltins\<close>: the function name counts
  as a tag, which is missing, so with the default policy the derived tag never emits a point. The
  exponent of a number literal is taken for a tag in the same way.
\<close>

lemma exponent_is_a_variable: "extractVars ''temp * 1e3'' = [''temp'', ''e3'']"
  by code_simp

lemma max_is_a_variable: "extractVars ''max(a, b)'' = [''max'', ''a'', ''b'']"
  by code_simp

lemma documented_max_never_emits:
  assumes "compileDerivedTag compile cfg = Inr tag" "dt_expr cfg = ''max(a, b)''" "dt_on_missing cfg = []"
    and "GetAll ord cache ''max'' = None"
  shows "derived_point run ord now now' cache tag = None"
proof (rule ccontr)
  assume "derived_point run ord now now' cache tag \<noteq> None"
  then obtain env missing stale where b:
      "buildEnv (ct_vars tag) (ct_qualified tag) (GetAll ord cache) cache (ct_staleGuard tag) now = (env, missing, stale)"
    and ne: "missing = [] \<or> ct_onMissing tag \<noteq> OnMissingSkip"
    by (auto simp: derived_point_def split: prod.splits if_splits)
  have t: "ct_vars tag = [''max'', ''a'', ''b'']" "ct_onMissing tag = OnMissingSkip"
    using assms(1-3) max_is_a_variable
    by (auto simp: compileDerivedTag_def parse_on_missing_def split: option.splits if_splits)
  have "None \<in> set (derived_inputs ord cache tag)"
    using t assms(4) by (simp add: derived_inputs_def numeric_input_def)
  with ne t buildEnv_inputs(1) [OF b] show False by simp
qed

end
