(* ===== verification/Processing.thy ===== *)
theory Processing
  imports Data_Bus Latest_Cache Rule_Engine Alerts Batcher Go_Util
begin

text \<open>
  The processing pipeline (\<^verbatim>\<open>engine/processing.go\<close>, \<^verbatim>\<open>tryFallback\<close> of
  \<^verbatim>\<open>engine/transport_manager.go\<close>): what the engine does with one data point taken from the bus.
  The bad-quality policy comes first, then the cache, the subscribers, the rules, and the actions of
  the matched rules, which publish to transports, directly or through their batchers, with a
  fallback. The theory composes the models of these components. It shows what is published, that
  every target gets its attempts and is accounted for, and what the policy guarantees.
\<close>

section \<open>State\<close>

datatype bad_quality_policy = BadQualityPublish | BadQualityDrop | BadQualityMarkAndPublish | BadQualityAlert

definition parseBadQualityPolicy :: "string \<Rightarrow> (string, bad_quality_policy) result" where
  "parseBadQualityPolicy s =
     (let l = to_lower s
      in if l = [] \<or> l = ''publish'' then Inr BadQualityPublish
         else if l = ''drop'' then Inr BadQualityDrop
         else if l = ''mark-and-publish'' then Inr BadQualityMarkAndPublish
         else if l = ''alert'' then Inr BadQualityAlert
         else Inl s)"

text \<open>
  The part of the transport manager that publishing uses, and the two counters. \<open>pb_attempts\<close> is a
  history variable: every call of \<^verbatim>\<open>Publish\<close> on a transport and of \<^verbatim>\<open>publish\<close> on a batcher, with
  whether it succeeded.
\<close>

record publisher =
  pb_transports :: "string list"
  pb_batchers :: "string \<rightharpoonup> batcher"
  pb_transportCfg :: "string \<rightharpoonup> transport_config"
  pb_totalErrors :: nat
  pb_totalPublish :: nat
  pb_attempts :: "(string \<times> data_point \<times> bool) list"

text \<open>
  \<^verbatim>\<open>processingCore\<close> with the rule set it reaches through the engine. \<open>pc_handlerCalls\<close> is the history
  of the calls of the \<open>pc_handlers\<close> registered alert handlers.
\<close>

record processing_core =
  pc_dataBus :: data_bus
  pc_cache :: latest_cache
  pc_handlers :: nat
  pc_handlerCalls :: "(nat \<times> data_point \<times> string) list"
  pc_alerts :: "alert_manager option"
  pc_alertActiveWindow :: time
  pc_badQualityPolicy :: bad_quality_policy
  pc_numWorkers :: int
  pc_dataBusSize :: int
  pc_numHighPriorityWorkers :: int
  pc_badQualityDrops :: nat
  pc_rules :: engine
  pc_world :: rule_world
  pc_arithCache :: "string set"
  pc_pub :: publisher

section \<open>Publishing\<close>

text \<open>
  The transports are code outside this component: \<open>ok n t p\<close> says whether the call number \<open>n\<close>, to
  transport \<open>t\<close> with point \<open>p\<close>, succeeds.
\<close>

type_synonym transport_ok = "nat \<Rightarrow> string \<Rightarrow> data_point \<Rightarrow> bool"

definition publish_entry :: "transport_ok \<Rightarrow> data_point \<Rightarrow> string \<Rightarrow> publisher \<Rightarrow> bool \<times> publisher" where
  "publish_entry ok p t pb =
     (case pb_batchers pb t of
        Some b \<Rightarrow>
          (case batcher_publish p b of
             (None, b') \<Rightarrow>
               (True, pb\<lparr>pb_batchers := (pb_batchers pb)(t \<mapsto> b'), pb_attempts := pb_attempts pb @ [(t, p, True)]\<rparr>)
           | (Some err, b') \<Rightarrow>
               (False, pb\<lparr>pb_batchers := (pb_batchers pb)(t \<mapsto> b'), pb_totalErrors := pb_totalErrors pb + 1,
                          pb_attempts := pb_attempts pb @ [(t, p, False)]\<rparr>))
      | None \<Rightarrow>
          if ok (length (pb_attempts pb)) t p
          then (True, pb\<lparr>pb_totalPublish := pb_totalPublish pb + 1, pb_attempts := pb_attempts pb @ [(t, p, True)]\<rparr>)
          else (False, pb\<lparr>pb_totalErrors := pb_totalErrors pb + 1, pb_attempts := pb_attempts pb @ [(t, p, False)]\<rparr>))"

text \<open>The entry of \<^verbatim>\<open>fallbackSnapshot\<close> for a target.\<close>

definition fallback_of :: "publisher \<Rightarrow> string \<Rightarrow> string option" where
  "fallback_of pb t =
     (case pb_transportCfg pb t of
        None \<Rightarrow> None
      | Some cfg \<Rightarrow> if tc_Fallback cfg \<noteq> [] \<and> tc_Fallback cfg \<in> set (pb_transports pb) then Some (tc_Fallback cfg) else None)"

definition tryFallback :: "transport_ok \<Rightarrow> data_point \<Rightarrow> string option \<Rightarrow> publisher \<Rightarrow> publisher" where
  "tryFallback ok p fb pb = (case fb of None \<Rightarrow> pb | Some t \<Rightarrow> snd (publish_entry ok p t pb))"

definition publish_target :: "transport_ok \<Rightarrow> data_point \<Rightarrow> string \<times> string option \<Rightarrow> publisher \<Rightarrow> publisher" where
  "publish_target ok p e pb =
     (case publish_entry ok p (fst e) pb of
        (True, pb') \<Rightarrow> pb'
      | (False, pb') \<Rightarrow> tryFallback ok p (snd e) pb')"

definition publishToTargets :: "transport_ok \<Rightarrow> data_point \<Rightarrow> string list \<Rightarrow> publisher \<Rightarrow> publisher" where
  "publishToTargets ok p targets pb =
     (let present = filter (\<lambda>t. t \<in> set (pb_transports pb)) targets;
          absent = filter (\<lambda>t. t \<notin> set (pb_transports pb)) targets;
          snapshot = map (\<lambda>t. (t, fallback_of pb t)) present
      in fold (publish_target ok p) snapshot (pb\<lparr>pb_totalErrors := pb_totalErrors pb + length absent\<rparr>))"

section \<open>Actions\<close>

definition pointWithRule :: "data_point \<Rightarrow> string \<Rightarrow> data_point" where
  "pointWithRule p ruleName = p\<lparr>dp_metadata := update_key ''rule'' ruleName (dp_metadata p)\<rparr>"

definition badQualityAlertRule :: string where
  "badQualityAlertRule = ''bad-quality-policy''"

definition fireAlert :: "time \<Rightarrow> data_point \<Rightarrow> string \<Rightarrow> processing_core \<Rightarrow> processing_core" where
  "fireAlert now p rule pc =
     pc\<lparr>pc_alerts := map_option (am_record rule p now) (pc_alerts pc),
        pc_handlerCalls := pc_handlerCalls pc @ map (\<lambda>h. (h, p, rule)) [0..<pc_handlers pc]\<rparr>"

definition applyTransform ::
  "expr_lang \<Rightarrow> data_point \<Rightarrow> transform_config option \<Rightarrow> string set \<Rightarrow> data_point \<times> string set" where
  "applyTransform L p tc cache =
     (case tc of
        None \<Rightarrow> (p, cache)
      | Some t \<Rightarrow>
          if tf_expression t = [] then (p, cache)
          else case ToFloat64OK (dp_value p) of
                 None \<Rightarrow> (p, cache)
               | Some raw \<Rightarrow>
                   (case EvalArith L (tf_expression t) raw cache of
                      (Inl err, cache') \<Rightarrow> (p, cache')
                    | (Inr f, cache') \<Rightarrow>
                        (p\<lparr>dp_value := VFloat64 f,
                           dp_tag := (if tf_tag_rename t \<noteq> [] then tf_tag_rename t else dp_tag p)\<rparr>, cache')))"

definition publish_result :: "transport_ok \<Rightarrow> data_point \<Rightarrow> match_result \<Rightarrow> processing_core \<Rightarrow> processing_core" where
  "publish_result ok p r pc =
     pc\<lparr>pc_pub := publishToTargets ok (pointWithRule p (r_name (mr_rule r))) (mr_targets r) (pc_pub pc)\<rparr>"

fun run_actions ::
  "expr_lang \<Rightarrow> transport_ok \<Rightarrow> time \<Rightarrow> bool \<Rightarrow> match_result list \<Rightarrow> data_point \<Rightarrow> processing_core \<Rightarrow> processing_core" where
  "run_actions L ok now policyAlerted [] p pc = pc"
| "run_actions L ok now policyAlerted (r # rs) p pc =
     (case r_action (mr_rule r) of
        ActionDrop \<Rightarrow> pc
      | ActionAlert \<Rightarrow>
          let pc1 = (if policyAlerted then pc else fireAlert now p (r_name (mr_rule r)) pc)
          in run_actions L ok now policyAlerted rs p (publish_result ok p r pc1)
      | ActionTransform \<Rightarrow>
          (case applyTransform L p (mr_transform r) (pc_arithCache pc) of
             (p', c) \<Rightarrow> run_actions L ok now policyAlerted rs p' (publish_result ok p' r (pc\<lparr>pc_arithCache := c\<rparr>)))
      | ActionForward \<Rightarrow> run_actions L ok now policyAlerted rs p (publish_result ok p r pc)
      | ActionMirror \<Rightarrow> run_actions L ok now policyAlerted rs p (publish_result ok p r pc))"

section \<open>processPoint\<close>

text \<open>The policy: \<open>Inl\<close> is the early return, \<open>Inr\<close> the point that goes on and \<^verbatim>\<open>policyAlerted\<close>.\<close>

definition quality_policy ::
  "time \<Rightarrow> data_point \<Rightarrow> processing_core \<Rightarrow> processing_core + data_point \<times> bool \<times> processing_core" where
  "quality_policy now p pc =
     (if dp_quality p = QualityBad then
        case pc_badQualityPolicy pc of
          BadQualityDrop \<Rightarrow> Inl (pc\<lparr>pc_badQualityDrops := pc_badQualityDrops pc + 1\<rparr>)
        | BadQualityMarkAndPublish \<Rightarrow> Inr (p\<lparr>dp_value := VNil\<rparr>, False, pc)
        | BadQualityAlert \<Rightarrow> Inr (p, True, fireAlert now p badQualityAlertRule pc)
        | BadQualityPublish \<Rightarrow> Inr (p, False, pc)
      else Inr (p, False, pc))"

text \<open>\<^verbatim>\<open>processPoint\<close>; the value \<open>None\<close> is a panic in \<^verbatim>\<open>Broadcast\<close>.\<close>

definition processPoint ::
  "expr_lang \<Rightarrow> transport_ok \<Rightarrow> time \<Rightarrow> data_point \<Rightarrow> processing_core \<Rightarrow> processing_core option" where
  "processPoint L ok now point pc =
     (case quality_policy now point pc of
        Inl pc' \<Rightarrow> Some pc'
      | Inr (p, policyAlerted, pc1) \<Rightarrow>
          (case Broadcast p (pc_dataBus pc1) of
             None \<Rightarrow> None
           | Some bus \<Rightarrow>
               (case Match (rule_Match L now) now p (pc_rules pc1) (pc_world pc1) of
                  (results, e, w) \<Rightarrow>
                    Some (run_actions L ok now policyAlerted results p
                      (pc1\<lparr>pc_cache := Update p (pc_cache pc1), pc_dataBus := bus, pc_rules := e, pc_world := w\<rparr>)))))"

text \<open>One turn of the two worker loops: \<open>None\<close> when there is nothing to take.\<close>

definition processingLoop_turn ::
  "expr_lang \<Rightarrow> transport_ok \<Rightarrow> time \<Rightarrow> processing_core \<Rightarrow> processing_core option" where
  "processingLoop_turn L ok now pc =
     (case take_main (pc_dataBus pc) of
        None \<Rightarrow> None
      | Some (p, bus) \<Rightarrow> processPoint L ok now p (pc\<lparr>pc_dataBus := bus\<rparr>))"

definition processingLoopHighPriority_turn ::
  "expr_lang \<Rightarrow> transport_ok \<Rightarrow> time \<Rightarrow> processing_core \<Rightarrow> processing_core option" where
  "processingLoopHighPriority_turn L ok now pc =
     (case take_high (pc_dataBus pc) of
        None \<Rightarrow> None
      | Some (p, bus) \<Rightarrow> processPoint L ok now p (pc\<lparr>pc_dataBus := bus\<rparr>))"

text \<open>The numbers of worker goroutines.\<close>

definition startProcessingWorkers :: "processing_core \<Rightarrow> int \<times> int" where
  "startProcessingWorkers pc =
     (if pc_numWorkers pc < 1 then 1 else pc_numWorkers pc,
      if pc_numHighPriorityWorkers pc < 0 then 0 else pc_numHighPriorityWorkers pc)"

definition OnAlert :: "processing_core \<Rightarrow> processing_core" where
  "OnAlert pc = pc\<lparr>pc_handlers := pc_handlers pc + 1\<rparr>"

text \<open>\<^verbatim>\<open>core.EngineConfig\<close>.\<close>

record engine_config =
  ec_DataBusSize :: int
  ec_Workers :: int
  ec_ShutdownTimeout :: string
  ec_ErrorThrottleWindow :: string
  ec_DefaultTagInterval :: string
  ec_OnBadQuality :: string
  ec_StaleThreshold :: string
  ec_WriteRetryCount :: int
  ec_CommandConcurrency :: int
  ec_HighPriorityWorkers :: int
  ec_DeadLetterPath :: string
  ec_WriteMinInterval :: string
  ec_WriteAuditPath :: string
  ec_AlertActiveWindow :: string

definition processing_applyConfig :: "engine_config \<Rightarrow> processing_core \<Rightarrow> processing_core" where
  "processing_applyConfig cfg pc =
     pc\<lparr>pc_dataBusSize := (if ec_DataBusSize cfg > 0 then ec_DataBusSize cfg else pc_dataBusSize pc),
        pc_numWorkers := (if ec_Workers cfg > 0 then ec_Workers cfg else pc_numWorkers pc),
        pc_numHighPriorityWorkers :=
          (if ec_HighPriorityWorkers cfg > 0 then ec_HighPriorityWorkers cfg else pc_numHighPriorityWorkers pc),
        pc_alertActiveWindow :=
          (case parse_duration (ec_AlertActiveWindow cfg) of
             Some d \<Rightarrow> if d > 0 then d else pc_alertActiveWindow pc
           | None \<Rightarrow> pc_alertActiveWindow pc)\<rparr>"

definition applyBadQualityPolicy :: "string \<Rightarrow> processing_core \<Rightarrow> (string, processing_core) result" where
  "applyBadQualityPolicy name pc =
     (case parseBadQualityPolicy name of Inl err \<Rightarrow> Inl err | Inr policy \<Rightarrow> Inr (pc\<lparr>pc_badQualityPolicy := policy\<rparr>))"

section \<open>Every target gets its attempts and is accounted for\<close>

text \<open>The attempts for one target: one, and one more on the fallback when the first failed.\<close>

definition target_attempts :: "data_point \<Rightarrow> string \<times> string option \<Rightarrow> (string \<times> data_point \<times> bool) list \<Rightarrow> bool" where
  "target_attempts p e xs \<longleftrightarrow>
     xs = [(fst e, p, True)]
     \<or> snd e = None \<and> xs = [(fst e, p, False)]
     \<or> (\<exists>fb b. snd e = Some fb \<and> xs = [(fst e, p, False), (fb, p, b)])"

definition failures :: "(string \<times> data_point \<times> bool) list \<Rightarrow> nat" where
  "failures xs = length (filter (\<lambda>(_, _, b). \<not> b) xs)"

definition direct_successes :: "publisher \<Rightarrow> (string \<times> data_point \<times> bool) list \<Rightarrow> nat" where
  "direct_successes pb xs = length (filter (\<lambda>(t, _, b). b \<and> pb_batchers pb t = None) xs)"

lemma failures_simps [simp]:
  "failures [] = 0"
  "failures ((t, p, b) # xs) = (if b then 0 else 1) + failures xs"
  "failures (xs @ ys) = failures xs + failures ys"
  by (simp_all add: failures_def)

lemma direct_successes_simps [simp]:
  "direct_successes pb [] = 0"
  "direct_successes pb ((t, p, b) # xs) = (if b \<and> pb_batchers pb t = None then 1 else 0) + direct_successes pb xs"
  "direct_successes pb (xs @ ys) = direct_successes pb xs + direct_successes pb ys"
  by (simp_all add: direct_successes_def)

text \<open>What publishing keeps: the set of transports, their configurations, and which have a batcher.\<close>

definition same_routes :: "publisher \<Rightarrow> publisher \<Rightarrow> bool" where
  "same_routes pb pb' \<longleftrightarrow> pb_transports pb' = pb_transports pb \<and> pb_transportCfg pb' = pb_transportCfg pb
     \<and> dom (pb_batchers pb') = dom (pb_batchers pb)"

lemma direct_successes_routes:
  assumes "same_routes pb pb'"
  shows "direct_successes pb' xs = direct_successes pb xs"
proof -
  have d: "dom (pb_batchers pb') = dom (pb_batchers pb)" using assms by (simp add: same_routes_def)
  have "pb_batchers pb' t = None \<longleftrightarrow> pb_batchers pb t = None" for t
  proof -
    have "t \<in> dom (pb_batchers pb') \<longleftrightarrow> t \<in> dom (pb_batchers pb)" by (simp only: d)
    then show ?thesis unfolding domIff by blast
  qed
  then show ?thesis by (simp add: direct_successes_def)
qed

text \<open>The books of a stretch of publishing with the attempts \<open>xs\<close>.\<close>

definition accounts :: "publisher \<Rightarrow> (string \<times> data_point \<times> bool) list \<Rightarrow> publisher \<Rightarrow> bool" where
  "accounts pb xs pb' \<longleftrightarrow>
     same_routes pb pb' \<and> pb_attempts pb' = pb_attempts pb @ xs
     \<and> pb_totalErrors pb' = pb_totalErrors pb + failures xs
     \<and> pb_totalPublish pb' = pb_totalPublish pb + direct_successes pb xs"

lemma accounts_Nil [simp]: "accounts pb [] pb"
  by (simp add: accounts_def same_routes_def)

lemma accounts_trans:
  assumes a: "accounts pb xs pb'" "accounts pb' ys pb''"
  shows "accounts pb (xs @ ys) pb''"
proof -
  have "direct_successes pb' ys = direct_successes pb ys"
    using a(1) by (simp add: accounts_def direct_successes_routes)
  with a show ?thesis by (simp add: accounts_def same_routes_def)
qed

lemma publish_entry_accounts:
  "publish_entry ok p t pb = (b, pb') \<Longrightarrow> accounts pb [(t, p, b)] pb'"
  by (auto simp: publish_entry_def accounts_def same_routes_def split: option.splits prod.splits if_splits)

lemma publish_target_accounts:
  "\<exists>xs. target_attempts p e xs \<and> accounts pb xs (publish_target ok p e pb)"
proof -
  obtain t fb where e: "e = (t, fb)" by (cases e)
  obtain b pb1 where one: "publish_entry ok p t pb = (b, pb1)" by (cases "publish_entry ok p t pb")
  note a1 = publish_entry_accounts [OF one]
  show ?thesis
  proof (cases "b \<or> fb = None")
    case True
    with a1 one e show ?thesis
      by (intro exI [of _ "[(t, p, b)]"])
         (cases b; auto simp: target_attempts_def publish_target_def tryFallback_def)
  next
    case False
    then obtain f where f: "fb = Some f" "\<not> b" by auto
    obtain c pb2 where two: "publish_entry ok p f pb1 = (c, pb2)" by (cases "publish_entry ok p f pb1")
    from accounts_trans [OF a1 publish_entry_accounts [OF two]] f one two e show ?thesis
      by (intro exI [of _ "[(t, p, False), (f, p, c)]"])
         (auto simp: target_attempts_def publish_target_def tryFallback_def)
  qed
qed

lemma publish_targets_account:
  "\<exists>xss. list_all2 (target_attempts p) es xss \<and> accounts pb (concat xss) (fold (publish_target ok p) es pb)"
proof (induction es arbitrary: pb)
  case Nil
  then show ?case by (intro exI [of _ "[]"]) simp
next
  case (Cons e es)
  obtain xs where x: "target_attempts p e xs" "accounts pb xs (publish_target ok p e pb)"
    using publish_target_accounts by blast
  obtain xss where xs: "list_all2 (target_attempts p) es xss"
    "accounts (publish_target ok p e pb) (concat xss) (fold (publish_target ok p) es (publish_target ok p e pb))"
    using Cons.IH by blast
  have "accounts pb (concat (xs # xss)) (fold (publish_target ok p) (e # es) pb)"
    using accounts_trans [OF x(2) xs(2)] by simp
  with x(1) xs(1) show ?case by (intro exI [of _ "xs # xss"]) simp
qed


section \<open>What is published\<close>

text \<open>The point after an action: only a transform changes it. The program cache is left out.\<close>

definition transform_step :: "expr_lang \<Rightarrow> data_point \<Rightarrow> match_result \<Rightarrow> data_point" where
  "transform_step L p r =
     (if r_action (mr_rule r) = ActionTransform then fst (applyTransform L p (mr_transform r) {}) else p)"

definition before_drop :: "match_result list \<Rightarrow> match_result list" where
  "before_drop rs = takeWhile (\<lambda>r. r_action (mr_rule r) \<noteq> ActionDrop) rs"

definition publications :: "expr_lang \<Rightarrow> match_result list \<Rightarrow> data_point \<Rightarrow> (data_point \<times> string list) list" where
  "publications L rs p =
     map (\<lambda>i. (pointWithRule (foldl (transform_step L) p (take (Suc i) rs)) (r_name (mr_rule (rs ! i))), mr_targets (rs ! i)))
       [0..<length (before_drop rs)]"

definition publish_all :: "transport_ok \<Rightarrow> (data_point \<times> string list) list \<Rightarrow> publisher \<Rightarrow> publisher" where
  "publish_all ok ps pb = fold (\<lambda>(p, ts). publishToTargets ok p ts) ps pb"

lemma publications_Nil [simp]: "publications L [] p = []"
  by (simp add: publications_def before_drop_def)

lemma publications_Cons:
  "publications L (r # rs) p =
   (if r_action (mr_rule r) = ActionDrop then []
    else (pointWithRule (transform_step L p r) (r_name (mr_rule r)), mr_targets r) # publications L rs (transform_step L p r))"
  by (simp add: publications_def before_drop_def upt_conv_Cons map_Suc_upt [symmetric] comp_def del: upt_Suc)

lemma applyTransform_cache:
  assumes c: "\<forall>e\<in>c. xl_compile_arith L e = None"
  shows "fst (applyTransform L p tc c) = fst (applyTransform L p tc {})
    \<and> (\<forall>e\<in>snd (applyTransform L p tc c). xl_compile_arith L e = None)"
proof (cases tc)
  case None
  with c show ?thesis by (simp add: applyTransform_def)
next
  case (Some t)
  show ?thesis
  proof (cases "tf_expression t = [] \<or> ToFloat64OK (dp_value p) = None")
    case True
    with c Some show ?thesis by (auto simp: applyTransform_def)
  next
    case False
    then obtain x where x: "ToFloat64OK (dp_value p) = Some x" "tf_expression t \<noteq> []" by auto
    obtain r c' where r: "EvalArith L (tf_expression t) x c = (r, c')" by (cases "EvalArith L (tf_expression t) x c")
    obtain c'' where r0: "EvalArith L (tf_expression t) x {} = (r, c'')"
      using eval_arith_finite_and_cached [OF c, of "tf_expression t" x] r by (metis fst_conv prod.collapse)
    have "\<forall>e\<in>c'. xl_compile_arith L e = None"
      using eval_arith_finite_and_cached [OF c, of "tf_expression t" x] r by simp
    with Some x r r0 show ?thesis by (cases r) (simp_all add: applyTransform_def)
  qed
qed

lemma run_actions_pub:
  assumes "\<forall>e\<in>pc_arithCache pc. xl_compile_arith L e = None"
  shows "pc_pub (run_actions L ok now al rs p pc) = publish_all ok (publications L rs p) (pc_pub pc)"
  using assms
proof (induction rs arbitrary: p pc)
  case Nil
  then show ?case by (simp add: publish_all_def)
next
  case (Cons r rs)
  have f: "pc_pub (fireAlert now q n pc) = pc_pub pc" "pc_arithCache (fireAlert now q n pc) = pc_arithCache pc" for q n
    by (simp_all add: fireAlert_def)
  show ?case
  proof (cases "r_action (mr_rule r)")
    case ActionTransform
    obtain q c where q: "applyTransform L p (mr_transform r) (pc_arithCache pc) = (q, c)"
      by (cases "applyTransform L p (mr_transform r) (pc_arithCache pc)")
    have "transform_step L p r = q" "\<forall>e\<in>c. xl_compile_arith L e = None"
      using applyTransform_cache [OF Cons.prems, of p "mr_transform r"] q ActionTransform
      by (simp_all add: transform_step_def)
    with Cons.IH [of "publish_result ok q r (pc\<lparr>pc_arithCache := c\<rparr>)" q] q ActionTransform show ?thesis
      by (simp add: publications_Cons publish_result_def publish_all_def)
  next
    case ActionAlert
    with Cons.IH [of "publish_result ok p r (if al then pc else fireAlert now p (r_name (mr_rule r)) pc)" p] Cons.prems
    show ?thesis
      by (cases al) (simp_all add: publications_Cons publish_result_def publish_all_def transform_step_def f)
  qed (use Cons in \<open>simp_all add: publications_Cons publish_result_def publish_all_def transform_step_def\<close>)
qed

lemma run_actions_cache [simp]: "pc_cache (run_actions L ok now al rs p pc) = pc_cache pc"
proof (induction rs arbitrary: p pc)
  case (Cons r rs)
  then show ?case
    by (cases al) (simp_all add: publish_result_def fireAlert_def split: action.split prod.split)
qed simp

lemma run_actions_bus [simp]: "pc_dataBus (run_actions L ok now al rs p pc) = pc_dataBus pc"
proof (induction rs arbitrary: p pc)
  case (Cons r rs)
  then show ?case
    by (cases al) (simp_all add: publish_result_def fireAlert_def split: action.split prod.split)
qed simp

lemma quality_policy_keeps:
  assumes "quality_policy now p pc = Inr (q, al, pc1)"
  shows "pc_dataBus pc1 = pc_dataBus pc \<and> pc_cache pc1 = pc_cache pc \<and> pc_pub pc1 = pc_pub pc
    \<and> pc_rules pc1 = pc_rules pc \<and> pc_world pc1 = pc_world pc \<and> pc_arithCache pc1 = pc_arithCache pc"
  using assms by (auto simp: quality_policy_def fireAlert_def split: if_splits bad_quality_policy.splits)

lemma processPoint_total:
  assumes "bus_inv (pc_dataBus pc)"
  shows "\<exists>pc'. processPoint L ok now point pc = Some pc'"
proof (cases "quality_policy now point pc")
  case (Inl pc')
  then show ?thesis by (simp add: processPoint_def)
next
  case (Inr x)
  obtain p al pc1 where x: "x = (p, al, pc1)" by (metis prod_cases3)
  obtain bus where "Broadcast p (pc_dataBus pc1) = Some bus"
    using Broadcast_inv [OF assms] quality_policy_keeps Inr x by metis
  moreover obtain rs e w where "Match (rule_Match L now) now p (pc_rules pc1) (pc_world pc1) = (rs, e, w)"
    by (metis prod_cases3)
  ultimately show ?thesis using Inr x by (simp add: processPoint_def)
qed

text \<open>
  C7. Processing a point that passes the bad-quality policy never panics on a healthy bus, stores
  and broadcasts that point, and publishes exactly this: for every matched rule before the first drop
  rule, in order, to the targets of the rule, the point as all transforms up to that rule left it,
  labelled with the name of the rule. The cache of compiled transform expressions has no influence.
\<close>

theorem pipeline_publishes_matched:
  assumes "quality_policy now point pc = Inr (p, al, pc1)" and "bus_inv (pc_dataBus pc)"
    and "\<forall>e\<in>pc_arithCache pc. xl_compile_arith L e = None"
  shows "\<exists>pc'. processPoint L ok now point pc = Some pc'
    \<and> pc_pub pc' = publish_all ok (publications L (fst (Match (rule_Match L now) now p (pc_rules pc) (pc_world pc))) p) (pc_pub pc)
    \<and> pc_cache pc' = Update p (pc_cache pc)
    \<and> Broadcast p (pc_dataBus pc) = Some (pc_dataBus pc') \<and> bus_inv (pc_dataBus pc')"
proof -
  note k = quality_policy_keeps [OF assms(1)]
  obtain bus where b: "Broadcast p (pc_dataBus pc) = Some bus" "bus_inv bus"
    using Broadcast_inv [OF assms(2)] by blast
  obtain rs e w where m: "Match (rule_Match L now) now p (pc_rules pc) (pc_world pc) = (rs, e, w)"
    by (metis prod_cases3)
  let ?pc = "pc1\<lparr>pc_cache := Update p (pc_cache pc), pc_dataBus := bus, pc_rules := e, pc_world := w\<rparr>"
  have "processPoint L ok now point pc = Some (run_actions L ok now al rs p ?pc)"
    using assms(1) b m k by (simp add: processPoint_def)
  moreover have "pc_pub (run_actions L ok now al rs p ?pc) = publish_all ok (publications L rs p) (pc_pub pc)"
    using run_actions_pub [of ?pc L] assms(3) k by simp
  ultimately show ?thesis using b m by simp
qed

section \<open>The bad-quality policy\<close>

lemma run_actions_alerted:
  "pc_handlerCalls (run_actions L ok now True rs p pc) = pc_handlerCalls pc
   \<and> pc_alerts (run_actions L ok now True rs p pc) = pc_alerts pc"
proof (induction rs arbitrary: p pc)
  case (Cons r rs)
  then show ?case
    by (simp add: publish_result_def split: action.split prod.split)
qed simp

definition marked :: "data_point \<Rightarrow> bool" where
  "marked p \<longleftrightarrow> dp_value p = VNil \<and> dp_quality p = QualityBad"

lemma transform_marked: "marked p \<Longrightarrow> transform_step L p r = p"
  by (auto simp: marked_def transform_step_def applyTransform_def split: option.splits)

lemma publications_marked:
  "marked p \<Longrightarrow> (q, ts) \<in> set (publications L rs p) \<Longrightarrow> marked q"
proof (induction rs)
  case (Cons r rs)
  then show ?case
    by (auto simp: publications_Cons transform_marked pointWithRule_def marked_def split: if_splits)
qed simp

text \<open>
  C18. The policy for bad-quality points is enforced before anything else sees the point: with
  \<^emph>\<open>drop\<close> nothing but the drop counter changes; with \<^emph>\<open>alert\<close> every handler is called exactly once
  and the alert registry records exactly one fire, under the policy's own name, whatever rules
  match; with \<^emph>\<open>mark-and-publish\<close> the cached point and every published one have no value and stay bad.
\<close>

theorem bad_quality_policy_enforced:
  assumes "dp_quality point = QualityBad" and "processPoint L ok now point pc = Some pc'"
    and "\<forall>e\<in>pc_arithCache pc. xl_compile_arith L e = None"
  shows "(pc_badQualityPolicy pc = BadQualityDrop \<longrightarrow> pc' = pc\<lparr>pc_badQualityDrops := pc_badQualityDrops pc + 1\<rparr>)
    \<and> (pc_badQualityPolicy pc = BadQualityAlert \<longrightarrow>
         pc_handlerCalls pc' = pc_handlerCalls pc @ map (\<lambda>h. (h, point, badQualityAlertRule)) [0..<pc_handlers pc]
         \<and> pc_alerts pc' = map_option (am_record badQualityAlertRule point now) (pc_alerts pc))
    \<and> (pc_badQualityPolicy pc = BadQualityMarkAndPublish \<longrightarrow>
         pc_cache pc' = Update (point\<lparr>dp_value := VNil\<rparr>) (pc_cache pc)
         \<and> (\<exists>ps. pc_pub pc' = publish_all ok ps (pc_pub pc) \<and> list_all (\<lambda>(q, _). marked q) ps))"
proof (intro conjI impI)
  assume "pc_badQualityPolicy pc = BadQualityDrop"
  with assms show "pc' = pc\<lparr>pc_badQualityDrops := pc_badQualityDrops pc + 1\<rparr>"
    by (simp add: processPoint_def quality_policy_def)
next
  assume a: "pc_badQualityPolicy pc = BadQualityAlert"
  let ?pc = "fireAlert now point badQualityAlertRule pc"
  obtain rs bus e w where pc': "pc' = run_actions L ok now True rs point
      (?pc\<lparr>pc_cache := Update point (pc_cache ?pc), pc_dataBus := bus, pc_rules := e, pc_world := w\<rparr>)"
    using assms(1,2) a by (auto simp: processPoint_def quality_policy_def split: option.splits prod.splits)
  show "pc_handlerCalls pc' = pc_handlerCalls pc @ map (\<lambda>h. (h, point, badQualityAlertRule)) [0..<pc_handlers pc]"
    "pc_alerts pc' = map_option (am_record badQualityAlertRule point now) (pc_alerts pc)"
    unfolding pc' by (simp_all add: run_actions_alerted fireAlert_def)
next
  assume m: "pc_badQualityPolicy pc = BadQualityMarkAndPublish"
  let ?p = "point\<lparr>dp_value := VNil\<rparr>"
  obtain rs bus e w where pc': "pc' = run_actions L ok now False rs ?p
      (pc\<lparr>pc_cache := Update ?p (pc_cache pc), pc_dataBus := bus, pc_rules := e, pc_world := w\<rparr>)"
    using assms(1,2) m by (auto simp: processPoint_def quality_policy_def split: option.splits prod.splits)
  show "pc_cache pc' = Update ?p (pc_cache pc)" unfolding pc' by simp
  have "marked ?p" using assms(1) by (simp add: marked_def)
  then have "list_all (\<lambda>(q, _). marked q) (publications L rs ?p)"
    using publications_marked by (auto simp: list_all_iff)
  moreover have "pc_pub pc' = publish_all ok (publications L rs ?p) (pc_pub pc)"
    unfolding pc' using assms(3) by (subst run_actions_pub) simp_all
  ultimately show "\<exists>ps. pc_pub pc' = publish_all ok ps (pc_pub pc) \<and> list_all (\<lambda>(q, _). marked q) ps" by blast
qed

definition demo_rules :: engine where
  "demo_rules =
     (case SetRules demo_lang
        [\<lparr>rc_name = ''all'', rc_match = ''ALL'', rc_action = ''forward'', rc_target = ''up'', rc_targets = [],
          rc_priority = 1, rc_transform = None, rc_continue = False\<rparr>] NewEngine of
        Inr e \<Rightarrow> e | Inl _ \<Rightarrow> NewEngine)"

definition demo_pc :: "bad_quality_policy \<Rightarrow> processing_core" where
  "demo_pc policy =
     \<lparr>pc_dataBus = NewDataBus 1, pc_cache = NewLatestCache, pc_handlers = 1, pc_handlerCalls = [], pc_alerts = None,
      pc_alertActiveWindow = DefaultAlertActiveWindow, pc_badQualityPolicy = policy, pc_numWorkers = 1, pc_dataBusSize = 1,
      pc_numHighPriorityWorkers = 0, pc_badQualityDrops = 0, pc_rules = demo_rules,
      pc_world = \<lparr>rw_providers = [], rw_engines = []\<rparr>, pc_arithCache = {},
      pc_pub = \<lparr>pb_transports = [''up''], pb_batchers = Map.empty, pb_transportCfg = Map.empty, pb_totalErrors = 0,
                pb_totalPublish = 0, pb_attempts = []\<rparr>\<rparr>"

theorem pipeline_publishes_matched_witness:
  "\<exists>pc'. processPoint demo_lang (\<lambda>_ _ _. True) 0 (sample_point ''plc'' ''x'') (demo_pc BadQualityPublish) = Some pc'
    \<and> pb_attempts (pc_pub pc') = [(''up'', pointWithRule (sample_point ''plc'' ''x'') ''all'', True)]"
proof -
  let ?p = "sample_point ''plc'' ''x''" and ?pc = "demo_pc BadQualityPublish"
  have q: "quality_policy 0 ?p ?pc = Inr (?p, False, ?pc)"
    by (simp add: quality_policy_def sample_point_def)
  have b: "bus_inv (pc_dataBus ?pc)" by (simp add: demo_pc_def)
  have a: "\<forall>e\<in>pc_arithCache ?pc. xl_compile_arith demo_lang e = None" by (simp add: demo_pc_def)
  have "publications demo_lang (fst (Match (rule_Match demo_lang 0) 0 ?p demo_rules \<lparr>rw_providers = [], rw_engines = []\<rparr>)) ?p
      = [(pointWithRule ?p ''all'', [''up''])]"
    by code_simp
  then have "pb_attempts (publish_all (\<lambda>_ _ _. True)
      (publications demo_lang (fst (Match (rule_Match demo_lang 0) 0 ?p (pc_rules ?pc) (pc_world ?pc))) ?p) (pc_pub ?pc))
      = [(''up'', pointWithRule ?p ''all'', True)]"
    by (simp add: demo_pc_def publish_all_def publishToTargets_def publish_target_def publish_entry_def)
  with pipeline_publishes_matched [OF q b a, of "\<lambda>_ _ _. True"] show ?thesis by auto
qed

theorem bad_quality_policy_enforced_witness:
  "\<exists>pc'. processPoint demo_lang (\<lambda>_ _ _. True) 0 (sample_point ''plc'' ''x''\<lparr>dp_quality := QualityBad\<rparr>) (demo_pc BadQualityAlert) = Some pc'
    \<and> length (pc_handlerCalls pc') = 1"
proof -
  let ?p = "sample_point ''plc'' ''x''\<lparr>dp_quality := QualityBad\<rparr>" and ?pc = "demo_pc BadQualityAlert"
  have a: "\<forall>e\<in>pc_arithCache ?pc. xl_compile_arith demo_lang e = None" by (simp add: demo_pc_def)
  have "bus_inv (pc_dataBus ?pc)" by (simp add: demo_pc_def)
  then obtain pc' where pc': "processPoint demo_lang (\<lambda>_ _ _. True) 0 ?p ?pc = Some pc'"
    using processPoint_total by blast
  have "dp_quality ?p = QualityBad" by simp
  from bad_quality_policy_enforced [OF this pc' a] have "length (pc_handlerCalls pc') = 1"
    by (simp add: demo_pc_def)
  with pc' show ?thesis by blast
qed

end
