(* ===== verification/Registry.thy ===== *)
theory Registry
  imports Scheduler Write_Manager Latest_Cache Data_Bus Batcher
begin

text \<open>
  The registries of a started engine: drivers (\<^verbatim>\<open>engine/driver_manager.go\<close>) with their tags-file
  watchers (\<^verbatim>\<open>engine/tagfile.go\<close>, \<^verbatim>\<open>engine/tagfile_watcher.go\<close>) and the scheduler callbacks
  (\<^verbatim>\<open>engine/lifecycle_support.go\<close>), transports (\<^verbatim>\<open>engine/transport_manager.go\<close>), and the factory
  table (\<^verbatim>\<open>core/registry.go\<close>). A running driver or transport stands for the configuration it was
  created with; whether creating, initialising, starting and stopping one succeeds is up to its
  implementation and a parameter. The interface the configuration reload relies on is the locale
  \<open>component_set\<close>, which both registries satisfy.
\<close>

section \<open>Configuration and factories\<close>

record driver_config =
  dc_name :: string
  dc_type :: string
  dc_settings :: "(string \<times> go_value) list"
  dc_tags :: "tag_config list"
  dc_tagsFile :: string
  dc_tagsInterval :: string

text \<open>
  What an implementation does, as errors: of its factory (by type name, if one is registered), of
  \<^verbatim>\<open>Init\<close>, \<^verbatim>\<open>Start\<close> and \<^verbatim>\<open>Stop\<close>. \<open>cp_minInterval\<close> is the floor of \<^verbatim>\<open>core.IntervalLimiter\<close>, 0 if none.
\<close>

record 'c component_ops =
  cp_factories :: "string \<rightharpoonup> ('c \<Rightarrow> string option)"
  cp_init :: "'c \<Rightarrow> string option"
  cp_start :: "'c \<Rightarrow> string option"
  cp_stop :: "'c \<Rightarrow> string option"
  cp_minInterval :: "'c \<Rightarrow> time"

definition CreateDriver :: "driver_config component_ops \<Rightarrow> driver_config \<Rightarrow> string option" where
  "CreateDriver ops cfg =
     (case cp_factories ops (dc_type cfg) of
        None \<Rightarrow> Some (''unknown driver type: '' @ dc_type cfg)
      | Some factory \<Rightarrow> factory cfg)"

definition CreateTransport :: "transport_config component_ops \<Rightarrow> transport_config \<Rightarrow> string option" where
  "CreateTransport ops cfg =
     (case cp_factories ops (tc_Type cfg) of
        None \<Rightarrow> Some (''unknown transport type: '' @ tc_Type cfg)
      | Some factory \<Rightarrow> factory cfg)"

section \<open>Drivers\<close>

record tag_file_watcher =
  tw_driver :: string
  tw_path :: string
  tw_interval :: time
  tw_hash :: string

text \<open>
  \<^verbatim>\<open>driverRegistry\<close> and the components it reaches through the engine. \<open>dr_live\<close> holds the watchers
  whose goroutine is running, by number; \<open>dr_tagFileWatchers\<close> maps a driver to the number of its
  watcher.
\<close>

record driver_registry =
  dr_drivers :: "string \<rightharpoonup> driver_config"
  dr_driverConfigs :: "string \<rightharpoonup> driver_config"
  dr_tagFileWatchers :: "string \<rightharpoonup> nat"
  dr_live :: "(nat \<times> tag_file_watcher) list"
  dr_nextWatcher :: nat
  dr_tagGroups :: "string \<rightharpoonup> (string \<rightharpoonup> string)"
  dr_scheduler :: scheduler
  dr_defaultTagInterval :: time
  dr_pacer :: write_pacer
  dr_cache :: latest_cache

definition tag_groups :: "tag_config list \<Rightarrow> string \<rightharpoonup> string" where
  "tag_groups tags = fold (\<lambda>t m. if tc_group t \<noteq> [] then m(tc_name t \<mapsto> tc_group t) else m) tags Map.empty"

definition driverMinInterval :: "driver_config component_ops \<Rightarrow> driver_config \<Rightarrow> time" where
  "driverMinInterval ops cfg = (if cp_minInterval ops cfg > 0 then cp_minInterval ops cfg else 0)"

text \<open>\<open>load\<close> reads, parses and hashes the tags file of a path; \<open>None\<close> is an error.\<close>

type_synonym tags_loader = "string \<Rightarrow> (tag_config list \<times> string) option"

definition newTagFileWatcher :: "tags_loader \<Rightarrow> string \<Rightarrow> string \<Rightarrow> string \<Rightarrow> tag_file_watcher option" where
  "newTagFileWatcher load driverName path intervalStr =
     (case parse_duration intervalStr of
        None \<Rightarrow> None
      | Some interval \<Rightarrow>
          if interval \<le> 0 then None
          else case load path of
                 None \<Rightarrow> None
               | Some (tags, hash) \<Rightarrow>
                   Some \<lparr>tw_driver = driverName, tw_path = path, tw_interval = interval, tw_hash = hash\<rparr>)"

definition startTagFileWatcher :: "tags_loader \<Rightarrow> driver_config \<Rightarrow> driver_registry \<Rightarrow> driver_registry" where
  "startTagFileWatcher load cfg r =
     (if dc_tagsFile cfg = [] \<or> dc_tagsInterval cfg = [] then r
      else case newTagFileWatcher load (dc_name cfg) (dc_tagsFile cfg) (dc_tagsInterval cfg) of
             None \<Rightarrow> r
           | Some w \<Rightarrow>
               r\<lparr>dr_tagFileWatchers := (dr_tagFileWatchers r)(dc_name cfg \<mapsto> dr_nextWatcher r),
                 dr_live := dr_live r @ [(dr_nextWatcher r, w)], dr_nextWatcher := dr_nextWatcher r + 1\<rparr>)"

definition stopTagFileWatcher :: "string \<Rightarrow> driver_registry \<Rightarrow> driver_registry" where
  "stopTagFileWatcher name r =
     (case dr_tagFileWatchers r name of
        None \<Rightarrow> r
      | Some k \<Rightarrow>
          r\<lparr>dr_tagFileWatchers := (dr_tagFileWatchers r)(name := None), dr_live := filter (\<lambda>(i, _). i \<noteq> k) (dr_live r)\<rparr>)"

definition stopAllTagFileWatchers :: "driver_registry \<Rightarrow> driver_registry" where
  "stopAllTagFileWatchers r =
     r\<lparr>dr_tagFileWatchers := Map.empty, dr_live := filter (\<lambda>(i, _). i \<notin> ran (dr_tagFileWatchers r)) (dr_live r)\<rparr>"

text \<open>Install a started driver: the common tail of \<^verbatim>\<open>AddDriver\<close> and \<^verbatim>\<open>reloadDriverTags\<close>.\<close>

definition install_driver :: "driver_config component_ops \<Rightarrow> driver_config \<Rightarrow> driver_registry \<Rightarrow> driver_registry" where
  "install_driver ops cfg r =
     r\<lparr>dr_drivers := (dr_drivers r)(dc_name cfg \<mapsto> cfg),
       dr_tagGroups := (dr_tagGroups r)(dc_name cfg \<mapsto> tag_groups (dc_tags cfg)),
       dr_scheduler := scheduleDriverTags (dr_defaultTagInterval r) (driverMinInterval ops cfg) (dc_name cfg) (dc_tags cfg) (dr_scheduler r),
       dr_driverConfigs := (dr_driverConfigs r)(dc_name cfg \<mapsto> cfg)\<rparr>"

text \<open>The checks before anything is changed: create, initialise, start.\<close>

definition bring_up :: "string \<Rightarrow> string option \<Rightarrow> 'c component_ops \<Rightarrow> 'c \<Rightarrow> string option" where
  "bring_up what create_err ops cfg =
     (case create_err of
        Some e \<Rightarrow> Some (''failed to create '' @ what @ '': '' @ e)
      | None \<Rightarrow>
          (case cp_init ops cfg of
             Some e \<Rightarrow> Some (''failed to init '' @ what @ '': '' @ e)
           | None \<Rightarrow>
               (case cp_start ops cfg of Some e \<Rightarrow> Some (''failed to start '' @ what @ '': '' @ e) | None \<Rightarrow> None)))"

definition driver_up :: "driver_config component_ops \<Rightarrow> driver_config \<Rightarrow> string option" where
  "driver_up ops cfg = bring_up (''driver '' @ dc_name cfg) (CreateDriver ops cfg) ops cfg"

definition transport_up :: "transport_config component_ops \<Rightarrow> transport_config \<Rightarrow> string option" where
  "transport_up ops cfg = bring_up (''transport '' @ tc_Name cfg) (CreateTransport ops cfg) ops cfg"

definition AddDriver ::
  "driver_config component_ops \<Rightarrow> tags_loader \<Rightarrow> driver_config \<Rightarrow> driver_registry \<Rightarrow> string option \<times> driver_registry" where
  "AddDriver ops load cfg r =
     (case driver_up ops cfg of
        Some e \<Rightarrow> (Some e, r)
      | None \<Rightarrow>
          let r = (case dr_drivers r (dc_name cfg) of
                     None \<Rightarrow> r
                   | Some old \<Rightarrow> r\<lparr>dr_scheduler := PauseDriver (dc_name cfg) (dr_scheduler r)\<rparr>)
          in (None, startTagFileWatcher load cfg (install_driver ops cfg r)))"

definition RemoveDriver :: "driver_config component_ops \<Rightarrow> string \<Rightarrow> driver_registry \<Rightarrow> string option \<times> driver_registry" where
  "RemoveDriver ops name r =
     (let r = stopTagFileWatcher name r
      in case dr_drivers r name of
           None \<Rightarrow> (Some (''driver not found: '' @ name), r)
         | Some driver \<Rightarrow>
             (cp_stop ops driver,
              r\<lparr>dr_drivers := (dr_drivers r)(name := None), dr_tagGroups := (dr_tagGroups r)(name := None),
                dr_driverConfigs := (dr_driverConfigs r)(name := None), dr_pacer := pacer_forget name (dr_pacer r),
                dr_cache := DeleteDriver name (dr_cache r), dr_scheduler := RemoveDriverTasks name (dr_scheduler r)\<rparr>))"

definition GetDriver :: "string \<Rightarrow> driver_registry \<Rightarrow> driver_config option" where
  "GetDriver name r = dr_drivers r name"

definition hasDriver :: "string \<Rightarrow> driver_registry \<Rightarrow> bool" where
  "hasDriver name r \<longleftrightarrow> dr_drivers r name \<noteq> None"

fun startDrivers ::
  "driver_config component_ops \<Rightarrow> tags_loader \<Rightarrow> driver_config list \<Rightarrow> driver_registry \<Rightarrow> string option \<times> driver_registry" where
  "startDrivers ops load [] r = (None, r)"
| "startDrivers ops load (c # cs) r =
     (case AddDriver ops load c r of
        (Some e, r') \<Rightarrow> (Some (''failed to add driver '' @ dc_name c @ '': '' @ e), r')
      | (None, r') \<Rightarrow> startDrivers ops load cs r')"

section \<open>Tags-file reload\<close>

definition reloadDriverTags ::
  "driver_config component_ops \<Rightarrow> driver_config \<Rightarrow> driver_registry \<Rightarrow> string option \<times> driver_registry" where
  "reloadDriverTags ops cfg r =
     (case driver_up ops cfg of
        Some e \<Rightarrow> (Some e, r)
      | None \<Rightarrow>
          let r = (case dr_drivers r (dc_name cfg) of
                     None \<Rightarrow> r
                   | Some old \<Rightarrow> r\<lparr>dr_scheduler := RemoveDriverTasks (dc_name cfg) (dr_scheduler r)\<rparr>)
          in (None, install_driver ops cfg r))"

definition onReload ::
  "driver_config component_ops \<Rightarrow> string \<Rightarrow> tag_config list \<Rightarrow> driver_registry \<Rightarrow> string option \<times> driver_registry" where
  "onReload ops driverName newTags r =
     (case dr_driverConfigs r driverName of
        None \<Rightarrow> (Some (''driver '' @ driverName @ '' config not found during tag-file reload''), r)
      | Some baseCfg \<Rightarrow>
          let gone = filter (\<lambda>n. n \<notin> tc_name ` set newTags) (map tc_name (dc_tags baseCfg));
              r = r\<lparr>dr_cache := fold (DeleteTag driverName) gone (dr_cache r)\<rparr>
          in reloadDriverTags ops (baseCfg\<lparr>dc_tags := newTags\<rparr>) r)"

text \<open>\<^verbatim>\<open>checkAndReload\<close> of the watcher number \<open>k\<close>. An error of \<open>load\<close> is \<open>Some ''read''\<close>.\<close>

definition checkAndReload ::
  "driver_config component_ops \<Rightarrow> tags_loader \<Rightarrow> nat \<Rightarrow> driver_registry \<Rightarrow> string option \<times> driver_registry" where
  "checkAndReload ops load k r =
     (case map_of (dr_live r) k of
        None \<Rightarrow> (None, r)
      | Some w \<Rightarrow>
          (case load (tw_path w) of
             None \<Rightarrow> (Some ''read'', r)
           | Some (tags, hash) \<Rightarrow>
               if hash = tw_hash w then (None, r)
               else onReload ops (tw_driver w) tags
                      (r\<lparr>dr_live := map (\<lambda>(i, x). if i = k then (i, w\<lparr>tw_hash := hash\<rparr>) else (i, x)) (dr_live r)\<rparr>)))"

section \<open>Scheduler callbacks\<close>

definition readFromDriver ::
  "(driver_config \<Rightarrow> string list \<Rightarrow> (string, tag_value list) result) \<Rightarrow> string \<Rightarrow> string list \<Rightarrow> driver_registry \<Rightarrow>
   (string, tag_value list) result" where
  "readFromDriver rd driver tags r =
     (case dr_drivers r driver of None \<Rightarrow> Inl (''driver not found: '' @ driver) | Some d \<Rightarrow> rd d tags)"

definition group_of :: "string \<Rightarrow> string \<Rightarrow> driver_registry \<Rightarrow> string" where
  "group_of driver tag r =
     (case dr_tagGroups r driver of
        None \<Rightarrow> []
      | Some groups \<Rightarrow> (case groups tag of None \<Rightarrow> [] | Some g \<Rightarrow> g))"

definition point_of_value :: "string \<Rightarrow> tag_value \<Rightarrow> driver_registry \<Rightarrow> data_point" where
  "point_of_value driver v r =
     \<lparr>dp_driver = driver, dp_device = [], dp_group = group_of driver (tv_tag v) r, dp_tag = tv_tag v,
      dp_value = tv_value v, dp_type = tv_type v, dp_quality = tv_quality v, dp_timestamp = tv_timestamp v,
      dp_metadata = [], dp_is_stale = False\<rparr>"

definition suppressed_points :: "time \<Rightarrow> string \<Rightarrow> trigger_plan option \<Rightarrow> driver_registry \<Rightarrow> data_point list" where
  "suppressed_points now driver plan r =
     (case plan of
        None \<Rightarrow> []
      | Some pl \<Rightarrow>
          List.map_filter (\<lambda>tag.
            (case Get driver tag (dr_cache r) of
               None \<Rightarrow> None
             | Some prev \<Rightarrow>
                 Some (point_of_value driver
                   \<lparr>tv_tag = tag, tv_value = dp_value prev, tv_type = dp_type prev, tv_quality = QualityUncertain,
                    tv_timestamp = now, tv_error = None\<rparr> r))) (tp_suppressed pl))"

definition onDriverData ::
  "time \<Rightarrow> string \<Rightarrow> tag_value list \<Rightarrow> trigger_plan option \<Rightarrow> int \<Rightarrow> driver_registry \<Rightarrow> data_bus \<Rightarrow> data_bus option" where
  "onDriverData now driver values plan priority r bus =
     (let push = (if priority > 0 then PushHighPriority else Push)
      in fold (\<lambda>p b. Option.bind b (push p))
           (suppressed_points now driver plan r @ map (\<lambda>v. point_of_value driver v r) values) (Some bus))"

section \<open>Transports\<close>

text \<open>
  \<^verbatim>\<open>transportManager\<close>. \<open>xm_listening\<close> are the transports whose listener goroutines run under a context
  that is in \<open>xm_cancels\<close>; stopped batchers are collected in \<open>xm_stopped\<close>.
\<close>

record transport_manager =
  xm_transports :: "string \<rightharpoonup> transport_config"
  xm_transportCfg :: "string \<rightharpoonup> transport_config"
  xm_batchers :: "string \<rightharpoonup> batcher"
  xm_cancels :: "string set"
  xm_stopped :: "batcher list"
  xm_hasOffline :: bool
  xm_shutdownTimeout :: time
  xm_running :: bool

definition stop_batcher :: "string \<Rightarrow> transport_manager \<Rightarrow> transport_manager" where
  "stop_batcher name m =
     (case xm_batchers m name of
        None \<Rightarrow> m
      | Some b \<Rightarrow> m\<lparr>xm_batchers := (xm_batchers m)(name := None), xm_stopped := xm_stopped m @ [b\<lparr>bt_stopped := True\<rparr>]\<rparr>)"

definition AddTransport ::
  "transport_config component_ops \<Rightarrow> transport_config \<Rightarrow> transport_manager \<Rightarrow> string option \<times> transport_manager" where
  "AddTransport ops cfg m =
     (case transport_up ops cfg of
        Some e \<Rightarrow> (Some e, m)
      | None \<Rightarrow>
          let name = tc_Name cfg;
              m = (case xm_transports m name of
                     None \<Rightarrow> m
                   | Some old \<Rightarrow> (stop_batcher name m)\<lparr>xm_cancels := xm_cancels m - {name}\<rparr>);
              m = m\<lparr>xm_transports := (xm_transports m)(name \<mapsto> cfg), xm_transportCfg := (xm_transportCfg m)(name \<mapsto> cfg)\<rparr>;
              m = (case newTransportBatcher name cfg (xm_hasOffline m) (xm_shutdownTimeout m) of
                     None \<Rightarrow> m
                   | Some b \<Rightarrow> m\<lparr>xm_batchers := (xm_batchers m)(name \<mapsto> batcher_start b)\<rparr>)
          in (None, if xm_running m then m\<lparr>xm_cancels := insert name (xm_cancels m)\<rparr> else m))"

definition RemoveTransport ::
  "transport_config component_ops \<Rightarrow> string \<Rightarrow> transport_manager \<Rightarrow> string option \<times> transport_manager" where
  "RemoveTransport ops name m =
     (case xm_transports m name of
        None \<Rightarrow> (Some (''transport not found: '' @ name), m)
      | Some t \<Rightarrow>
          (cp_stop ops t,
           (stop_batcher name m)\<lparr>xm_transports := (xm_transports m)(name := None),
              xm_transportCfg := (xm_transportCfg m)(name := None), xm_cancels := xm_cancels m - {name}\<rparr>))"

definition GetTransport :: "string \<Rightarrow> transport_manager \<Rightarrow> transport_config option" where
  "GetTransport name m = xm_transports m name"

fun startTransports ::
  "transport_config component_ops \<Rightarrow> transport_config list \<Rightarrow> transport_manager \<Rightarrow> string option \<times> transport_manager" where
  "startTransports ops [] m = (None, m)"
| "startTransports ops (c # cs) m =
     (case AddTransport ops c m of
        (Some e, m') \<Rightarrow> (Some (''failed to add transport '' @ tc_Name c @ '': '' @ e), m')
      | (None, m') \<Rightarrow> startTransports ops cs m')"

section \<open>The interface of a registry\<close>

text \<open>
  What a client of a registry relies on. \<open>up\<close> and \<open>down\<close> say which components can be brought up and
  stop without an error. Adding is all or nothing; removing a known component always takes it out,
  and reports the error of its \<^verbatim>\<open>Stop\<close>.
\<close>

locale component_set =
  fixes name_of :: "'c \<Rightarrow> string"
    and add :: "'c \<Rightarrow> 's \<Rightarrow> string option \<times> 's"
    and remove :: "string \<Rightarrow> 's \<Rightarrow> string option \<times> 's"
    and view :: "'s \<Rightarrow> string \<rightharpoonup> 'c"
    and up :: "'c \<Rightarrow> bool"
    and down :: "'c \<Rightarrow> bool"
  assumes add_fails: "\<not> up c \<Longrightarrow> fst (add c s) \<noteq> None \<and> view (snd (add c s)) = view s"
    and add_succeeds: "up c \<Longrightarrow> fst (add c s) = None \<and> view (snd (add c s)) = (view s)(name_of c \<mapsto> c)"
    and remove_view: "view (snd (remove n s)) = (view s)(n := None)"
    and remove_result: "view s n = Some c \<Longrightarrow> fst (remove n s) = None \<longleftrightarrow> down c"
    and remove_missing: "view s n = None \<Longrightarrow> fst (remove n s) \<noteq> None"

lemma install_driver_drivers [simp]:
  "dr_drivers (install_driver ops cfg r) = (dr_drivers r)(dc_name cfg \<mapsto> cfg)"
  "dr_driverConfigs (install_driver ops cfg r) = (dr_driverConfigs r)(dc_name cfg \<mapsto> cfg)"
  "dr_tagGroups (install_driver ops cfg r) = (dr_tagGroups r)(dc_name cfg \<mapsto> tag_groups (dc_tags cfg))"
  "dr_cache (install_driver ops cfg r) = dr_cache r"
  "dr_live (install_driver ops cfg r) = dr_live r"
  "dr_tagFileWatchers (install_driver ops cfg r) = dr_tagFileWatchers r"
  "dr_nextWatcher (install_driver ops cfg r) = dr_nextWatcher r"
  by (simp_all add: install_driver_def)

lemma startTagFileWatcher_same [simp]:
  "dr_drivers (startTagFileWatcher load cfg r) = dr_drivers r"
  "dr_driverConfigs (startTagFileWatcher load cfg r) = dr_driverConfigs r"
  "dr_tagGroups (startTagFileWatcher load cfg r) = dr_tagGroups r"
  "dr_scheduler (startTagFileWatcher load cfg r) = dr_scheduler r"
  "dr_cache (startTagFileWatcher load cfg r) = dr_cache r"
  by (simp_all add: startTagFileWatcher_def split: option.split)

lemma stopTagFileWatcher_same [simp]:
  "dr_drivers (stopTagFileWatcher n r) = dr_drivers r"
  "dr_driverConfigs (stopTagFileWatcher n r) = dr_driverConfigs r"
  "dr_tagGroups (stopTagFileWatcher n r) = dr_tagGroups r"
  "dr_scheduler (stopTagFileWatcher n r) = dr_scheduler r"
  "dr_cache (stopTagFileWatcher n r) = dr_cache r"
  by (simp_all add: stopTagFileWatcher_def split: option.split)

lemma AddDriver_result:
  "fst (AddDriver ops load c r) = driver_up ops c"
  "dr_drivers (snd (AddDriver ops load c r)) =
     (if driver_up ops c = None then (dr_drivers r)(dc_name c \<mapsto> c) else dr_drivers r)"
  by (simp_all add: AddDriver_def Let_def split: option.split)

lemma RemoveDriver_result:
  "dr_drivers (snd (RemoveDriver ops n r)) = (dr_drivers r)(n := None)"
  "dr_drivers r n = Some c \<Longrightarrow> fst (RemoveDriver ops n r) = cp_stop ops c"
  "dr_drivers r n = None \<Longrightarrow> fst (RemoveDriver ops n r) \<noteq> None"
  by (auto simp: RemoveDriver_def Let_def split: option.split)

interpretation drivers: component_set dc_name "AddDriver ops load" "RemoveDriver ops" dr_drivers
  "\<lambda>c. driver_up ops c = None" "\<lambda>c. cp_stop ops c = None" for ops load
proof (unfold_locales, goal_cases)
  case (1 c s)
  then show ?case by (cases "driver_up ops c") (simp_all add: AddDriver_result)
qed (simp_all add: AddDriver_result RemoveDriver_result)

lemma stop_batcher_same [simp]:
  "xm_transports (stop_batcher n m) = xm_transports m"
  "xm_transportCfg (stop_batcher n m) = xm_transportCfg m"
  "xm_cancels (stop_batcher n m) = xm_cancels m"
  "xm_running (stop_batcher n m) = xm_running m"
  "xm_batchers (stop_batcher n m) = (xm_batchers m)(n := None)"
  by (auto simp: stop_batcher_def fun_eq_iff split: option.split)

lemma AddTransport_result:
  "fst (AddTransport ops c m) = transport_up ops c"
  "xm_transports (snd (AddTransport ops c m)) =
     (if transport_up ops c = None then (xm_transports m)(tc_Name c \<mapsto> c) else xm_transports m)"
  by (simp_all add: AddTransport_def Let_def split: option.split)

lemma RemoveTransport_result:
  "xm_transports (snd (RemoveTransport ops n m)) = (xm_transports m)(n := None)"
  "xm_transports m n = Some c \<Longrightarrow> fst (RemoveTransport ops n m) = cp_stop ops c"
  "xm_transports m n = None \<Longrightarrow> fst (RemoveTransport ops n m) \<noteq> None"
  by (auto simp: RemoveTransport_def split: option.split)

interpretation transports: component_set tc_Name "AddTransport ops" "RemoveTransport ops" xm_transports
  "\<lambda>c. transport_up ops c = None" "\<lambda>c. cp_stop ops c = None" for ops
proof (unfold_locales, goal_cases)
  case (1 c s)
  then show ?case by (cases "transport_up ops c") (simp_all add: AddTransport_result)
qed (simp_all add: AddTransport_result RemoveTransport_result)

section \<open>The driver registry stays consistent\<close>

definition task_drivers :: "scheduler \<Rightarrow> string set" where
  "task_drivers s = (\<lambda>t. st_Driver (tr_task (snd t))) ` set (sc_tasks s)"

text \<open>
  The maps agree: the configuration on record is the one the driver runs with, under its own name,
  with the groups of its tags; every scheduled task and every watcher belongs to a registered driver.
\<close>

definition registry_inv :: "driver_registry \<Rightarrow> bool" where
  "registry_inv r \<longleftrightarrow>
     dr_driverConfigs r = dr_drivers r
     \<and> dom (dr_tagGroups r) = dom (dr_drivers r)
     \<and> (\<forall>n c. dr_drivers r n = Some c \<longrightarrow> dc_name c = n \<and> dr_tagGroups r n = Some (tag_groups (dc_tags c)))
     \<and> task_drivers (dr_scheduler r) \<subseteq> dom (dr_drivers r)
     \<and> dom (dr_tagFileWatchers r) \<subseteq> dom (dr_drivers r)
     \<and> cache_inv (dr_cache r)"

lemma set_AList_update: "set (AList.update k v xs) \<subseteq> insert (k, v) (set xs)"
  by (induction xs) auto

lemma AddTask_drivers: "task_drivers (AddTask t s) \<subseteq> insert (st_Driver t) (task_drivers s)"
proof
  fix d
  assume "d \<in> task_drivers (AddTask t s)"
  then obtain i k where i: "(i, k) \<in> set (AList.update (st_ID t) (new_runner t) (sc_tasks s))" and d: "d = st_Driver (tr_task k)"
    by (auto simp: task_drivers_def AddTask_def)
  have "(i, k) \<in> insert (st_ID t, new_runner t) (set (sc_tasks s))" by (rule subsetD [OF set_AList_update i])
  then show "d \<in> insert (st_Driver t) (task_drivers s)"
  proof
    assume "(i, k) = (st_ID t, new_runner t)"
    then show "d \<in> insert (st_Driver t) (task_drivers s)" using d by (simp add: new_runner_def)
  next
    assume "(i, k) \<in> set (sc_tasks s)"
    then have "d \<in> task_drivers s" unfolding task_drivers_def d by (rule rev_image_eqI) simp
    then show "d \<in> insert (st_Driver t) (task_drivers s)" by simp
  qed
qed

lemma scheduleDriverTags_drivers:
  "task_drivers (scheduleDriverTags dflt mi n tags s) \<subseteq> insert n (task_drivers s)"
proof -
  have "\<forall>t\<in>set ts. st_Driver t = n \<Longrightarrow> task_drivers (fold AddTask ts s) \<subseteq> insert n (task_drivers s)" for ts
  proof (induction ts arbitrary: s)
    case (Cons t ts)
    then have "task_drivers (fold AddTask ts (AddTask t s)) \<subseteq> insert n (task_drivers (AddTask t s))" by simp
    also have "\<dots> \<subseteq> insert n (task_drivers s)" using AddTask_drivers [of t s] Cons.prems by auto
    finally show ?case by simp
  qed auto
  then show ?thesis by (auto simp: scheduleDriverTags_def driver_tasks_def Let_def task_of_def)
qed

lemma task_drivers_simps [simp]:
  "task_drivers (PauseDriver n s) = task_drivers s"
  "task_drivers (RemoveDriverTasks n s) = task_drivers s - {n}"
  by (auto simp: task_drivers_def PauseDriver_def RemoveDriverTasks_def)

lemma install_driver_inv:
  assumes "registry_inv r"
  shows "registry_inv (install_driver ops cfg r)"
proof -
  have "task_drivers (dr_scheduler (install_driver ops cfg r)) \<subseteq> insert (dc_name cfg) (task_drivers (dr_scheduler r))"
    using scheduleDriverTags_drivers by (simp add: install_driver_def)
  with assms show ?thesis by (auto simp: registry_inv_def)
qed

lemma watcher_inv:
  assumes "registry_inv r" "dr_drivers r (dc_name cfg) \<noteq> None"
  shows "registry_inv (startTagFileWatcher load cfg r)"
proof -
  have "dom (dr_tagFileWatchers (startTagFileWatcher load cfg r)) \<subseteq> insert (dc_name cfg) (dom (dr_tagFileWatchers r))"
    by (auto simp: startTagFileWatcher_def split: option.splits if_splits)
  moreover have "dom (dr_tagFileWatchers r) \<subseteq> dom (dr_drivers r)" using assms(1) by (simp add: registry_inv_def)
  ultimately have "dom (dr_tagFileWatchers (startTagFileWatcher load cfg r)) \<subseteq> dom (dr_drivers r)"
    using assms(2) by blast
  with assms(1) show ?thesis by (simp add: registry_inv_def)
qed

lemma scheduler_update_inv:
  "registry_inv r \<Longrightarrow> task_drivers s \<subseteq> task_drivers (dr_scheduler r) \<Longrightarrow> registry_inv (r\<lparr>dr_scheduler := s\<rparr>)"
  by (auto simp: registry_inv_def)

lemma AddDriver_inv: "registry_inv r \<Longrightarrow> registry_inv (snd (AddDriver ops load c r))"
  by (auto simp: AddDriver_def Let_def intro!: watcher_inv install_driver_inv scheduler_update_inv split: option.split)

lemma reloadDriverTags_inv: "registry_inv r \<Longrightarrow> registry_inv (snd (reloadDriverTags ops c r))"
  by (auto simp: reloadDriverTags_def Let_def intro!: install_driver_inv scheduler_update_inv split: option.split)

lemma cache_inv_DeleteTags: "cache_inv c \<Longrightarrow> cache_inv (fold (DeleteTag d) ts c)"
  by (induction ts arbitrary: c) (simp_all add: cache_inv_DeleteTag)

lemma onReload_inv: "registry_inv r \<Longrightarrow> registry_inv (snd (onReload ops n tags r))"
proof (cases "dr_driverConfigs r n")
  case (Some c)
  assume "registry_inv r"
  then have "registry_inv (r\<lparr>dr_cache := fold (DeleteTag n) ts (dr_cache r)\<rparr>)" for ts
    by (simp add: registry_inv_def cache_inv_DeleteTags)
  with Some show ?thesis by (simp add: onReload_def Let_def reloadDriverTags_inv)
qed (simp add: onReload_def)

lemma checkAndReload_inv: "registry_inv r \<Longrightarrow> registry_inv (snd (checkAndReload ops load k r))"
proof -
  assume r: "registry_inv r"
  have "registry_inv (r\<lparr>dr_live := l\<rparr>)" for l using r by (simp add: registry_inv_def)
  with r show ?thesis by (simp add: checkAndReload_def onReload_inv split: option.split prod.split)
qed

lemma RemoveDriver_inv: "registry_inv r \<Longrightarrow> registry_inv (snd (RemoveDriver ops n r))"
proof -
  assume r: "registry_inv r"
  have w: "dom (dr_tagFileWatchers (stopTagFileWatcher n r)) = dom (dr_tagFileWatchers r) - {n}"
    by (auto simp: stopTagFileWatcher_def split: option.split)
  show ?thesis
  proof (cases "dr_drivers r n")
    case None
    with r w show ?thesis by (auto simp: RemoveDriver_def Let_def registry_inv_def)
  next
    case (Some c)
    with r w show ?thesis
      by (auto simp: RemoveDriver_def Let_def registry_inv_def cache_inv_DeleteDriver split: if_splits)
  qed
qed

text \<open>The operations on the registry, in any order.\<close>

inductive registry_reach :: "driver_config component_ops \<Rightarrow> tags_loader \<Rightarrow> driver_registry \<Rightarrow> driver_registry \<Rightarrow> bool"
  for ops load r where
  reach_start: "registry_reach ops load r r"
| reach_add: "registry_reach ops load r r' \<Longrightarrow> registry_reach ops load r (snd (AddDriver ops load c r'))"
| reach_remove: "registry_reach ops load r r' \<Longrightarrow> registry_reach ops load r (snd (RemoveDriver ops n r'))"
| reach_check: "registry_reach ops load r r' \<Longrightarrow> registry_reach ops load r (snd (checkAndReload ops load k r'))"

definition new_registry :: "time \<Rightarrow> driver_registry" where
  "new_registry dflt =
     \<lparr>dr_drivers = Map.empty, dr_driverConfigs = Map.empty, dr_tagFileWatchers = Map.empty, dr_live = [], dr_nextWatcher = 0,
      dr_tagGroups = Map.empty, dr_scheduler = NewScheduler 0, dr_defaultTagInterval = dflt, dr_pacer = newWritePacer,
      dr_cache = NewLatestCache\<rparr>"

lemma new_registry_inv [simp]: "registry_inv (new_registry dflt)"
  by (simp add: registry_inv_def new_registry_def task_drivers_def NewScheduler_def)

lemma registry_reach_inv: "registry_reach ops load r r' \<Longrightarrow> registry_inv r \<Longrightarrow> registry_inv r'"
  by (induction rule: registry_reach.induct) (auto intro: AddDriver_inv RemoveDriver_inv checkAndReload_inv)

lemma RemoveDriver_fields:
  "dr_drivers r n = None \<Longrightarrow> dr_cache (snd (RemoveDriver ops n r)) = dr_cache r"
  "dr_drivers r n = None \<Longrightarrow> dr_tagFileWatchers (snd (RemoveDriver ops n r)) = dr_tagFileWatchers (stopTagFileWatcher n r)"
  "dr_drivers r n = Some d \<Longrightarrow> dr_cache (snd (RemoveDriver ops n r)) = DeleteDriver n (dr_cache r)"
  "dr_drivers r n = Some d \<Longrightarrow> dr_tagFileWatchers (snd (RemoveDriver ops n r)) = dr_tagFileWatchers (stopTagFileWatcher n r)"
  "dr_drivers r n = Some d \<Longrightarrow> n \<notin> set (sc_paused (dr_scheduler (snd (RemoveDriver ops n r))))"
  "dr_drivers r n = Some d \<Longrightarrow> wp_last (dr_pacer (snd (RemoveDriver ops n r))) n = None"
  by (simp_all add: RemoveDriver_def Let_def RemoveDriverTasks_def pacer_forget_def)


definition demo_driver :: "string \<Rightarrow> tag_config list \<Rightarrow> driver_config" where
  "demo_driver n tags = \<lparr>dc_name = n, dc_type = ''sim'', dc_settings = [], dc_tags = tags, dc_tagsFile = [], dc_tagsInterval = []\<rparr>"

definition demo_ops :: "'c component_ops" where
  "demo_ops = \<lparr>cp_factories = (\<lambda>_. Some (\<lambda>_. None)), cp_init = (\<lambda>_. None), cp_start = (\<lambda>_. None), cp_stop = (\<lambda>_. None),
     cp_minInterval = (\<lambda>_. 0)\<rparr>"


text \<open>
  Adding a driver over one that has a tags-file watcher starts a second watcher and forgets the
  first, whose goroutine keeps running and can no longer be stopped.
\<close>

lemma replaced_driver_leaks_watcher:
  assumes "driver_up ops c = None" "dr_tagFileWatchers r (dc_name c) = Some k" "(k, w) \<in> set (dr_live r)"
    and "k < dr_nextWatcher r" "\<And>n. n \<noteq> dc_name c \<Longrightarrow> dr_tagFileWatchers r n \<noteq> Some k"
    and "dc_tagsFile c \<noteq> []" "dc_tagsInterval c \<noteq> []"
    and "newTagFileWatcher load (dc_name c) (dc_tagsFile c) (dc_tagsInterval c) = Some w'"
  shows "(k, w) \<in> set (dr_live (stopAllTagFileWatchers (snd (AddDriver ops load c r))))"
proof -
  have "dr_tagFileWatchers (snd (AddDriver ops load c r)) = (dr_tagFileWatchers r)(dc_name c \<mapsto> dr_nextWatcher r)"
    "dr_live (snd (AddDriver ops load c r)) = dr_live r @ [(dr_nextWatcher r, w')]"
    using assms by (simp_all add: AddDriver_def Let_def startTagFileWatcher_def split: option.split)
  moreover have "k \<notin> ran ((dr_tagFileWatchers r)(dc_name c \<mapsto> dr_nextWatcher r))"
    using assms(4,5) by (auto simp: ran_def split: if_splits)
  ultimately show ?thesis using assms(3) by (simp add: stopAllTagFileWatchers_def)
qed

text \<open>
  A hot reload of the tags file replaces all tags of the driver by those of the file: the inline
  tags, which the initial load appends to them, are gone.
\<close>

lemma hot_reload_drops_inline_tags:
  assumes "dr_driverConfigs r n = Some c" "dc_name c = n" "driver_up ops (c\<lparr>dc_tags := fileTags\<rparr>) = None"
  shows "\<exists>d. dr_drivers (snd (onReload ops n fileTags r)) n = Some d \<and> dc_tags d = fileTags"
  using assms by (auto simp: onReload_def reloadDriverTags_def Let_def split: option.split)

text \<open>A failed reload is not tried again while the file stays as it is.\<close>

lemma failed_reload_not_retried:
  assumes "map_of (dr_live r) k = Some w" "load (tw_path w) = Some (tags, hash)" "hash \<noteq> tw_hash w"
    and "dr_driverConfigs r (tw_driver w) = Some c" "driver_up ops (c\<lparr>dc_tags := tags\<rparr>) = Some e"
  shows "fst (checkAndReload ops load k r) = Some e
    \<and> fst (checkAndReload ops load k (snd (checkAndReload ops load k r))) = None"
proof -
  have m: "map_of (map (\<lambda>(i, x). if i = k then (i, v) else (i, x)) l) k = Some v" if "map_of l k \<noteq> None" for l :: "(nat \<times> tag_file_watcher) list" and v
    using that by (induction l) (auto split: if_splits)
  have one: "checkAndReload ops load k r =
      (Some e, r\<lparr>dr_live := map (\<lambda>(i, x). if i = k then (i, w\<lparr>tw_hash := hash\<rparr>) else (i, x)) (dr_live r),
        dr_cache := fold (DeleteTag (tw_driver w)) (filter (\<lambda>n. n \<notin> tc_name ` set tags) (map tc_name (dc_tags c))) (dr_cache r)\<rparr>)"
    using assms by (simp add: checkAndReload_def onReload_def reloadDriverTags_def Let_def)
  show ?thesis unfolding one using m [of "dr_live r" "w\<lparr>tw_hash := hash\<rparr>"] assms(1,2) by (simp add: checkAndReload_def)
qed

end
