(* ===== verification/Config_Validate.thy ===== *)
theory Config_Validate
  imports Processing Registry Derived Rule_Props
begin

text \<open>
  Configuration and its validation (\<^verbatim>\<open>core/engine.go\<close>, \<^verbatim>\<open>config/validate.go\<close>): the checks in their order,
  each with its error, and the warnings that do not block. Validation is shown to accept exactly the
  configurations that satisfy a declarative well-formedness predicate, and that predicate to be what
  the engine needs: rules whose actions parse and whose targets exist, a known bad-quality policy,
  derived tags with distinct names. Factories and settings checks of the driver and transport
  packages are parameters.
\<close>

section \<open>Configuration\<close>

record node_config =
  nc_ID :: string
  nc_Role :: string
  nc_Subscribe :: "string list"
  nc_TopicPrefix :: string

record buffer_config =
  bc_Enabled :: bool
  bc_MaxSize :: int
  bc_Path :: string

text \<open>\<^verbatim>\<open>core.APIConfig\<close>: of the server settings those that validation and reload look at.\<close>

record api_config =
  ac_Listen :: string
  ac_Secret :: string
  ac_TLSCert :: string
  ac_TLSKey :: string

record global_config =
  gc_LogLevel :: string
  gc_LogFormat :: string
  gc_API :: api_config
  gc_Engine :: engine_config
  gc_Buffer :: buffer_config

record core_config =
  cf_Node :: node_config
  cf_Global :: global_config
  cf_Drivers :: "driver_config list"
  cf_Transports :: "transport_config list"
  cf_Rules :: "rule_config list"
  cf_RuleGroups :: rule_groups
  cf_DerivedTags :: "derived_tag_config list"

datatype config_error =
    BufferPathUnset | BufferTooSmall int
  | InvalidDuration string string | NonPositiveDuration string string | InvalidOnBadQuality string
  | EmptyDriverName | DuplicateDriverName string | EmptyDriverType string | UnknownDriverType string string
  | NoTags string
  | EmptyTagName string | DuplicateTagName string string | EmptyAddress string string | EmptyTagType string string
  | InvalidTagType string string string | InvalidTagDuration string string string string
  | NonPositiveTagDuration string string string time
  | TriggerConflict string string | InvalidTriggerGroup string string string | InvalidProtect string string string
  | EnforceNeedsDeadband string string | EnforceTooShort string string time time
  | DanglingTrigger string string string
  | ApiSecretRequired | ApiSecretTooShort nat
  | EmptyTransportName | DuplicateTransportName string | EmptyTransportType string | UnknownTransportType string string
  | MisplacedField string string
  | SettingsRejected string string
  | EmptyRuleName | DuplicateRuleName string | EmptyAction string | InvalidAction string string | EmptyMatch string
  | DropContinue string | TargetNotFound string string
  | DerivedInvalid derived_error

section \<open>Loops\<close>

text \<open>A loop that returns the first error.\<close>

fun first_error :: "('a \<Rightarrow> 'e option) \<Rightarrow> 'a list \<Rightarrow> 'e option" where
  "first_error f [] = None"
| "first_error f (x # xs) = (case f x of Some e \<Rightarrow> Some e | None \<Rightarrow> first_error f xs)"

text \<open>The same with the set of names seen so far.\<close>

fun unique_loop :: "('a \<Rightarrow> string) \<Rightarrow> (string list \<Rightarrow> 'a \<Rightarrow> 'e option) \<Rightarrow> string list \<Rightarrow> 'a list \<Rightarrow> 'e option" where
  "unique_loop nm chk seen [] = None"
| "unique_loop nm chk seen (x # xs) =
     (case chk seen x of Some e \<Rightarrow> Some e | None \<Rightarrow> unique_loop nm chk (nm x # seen) xs)"

lemma first_error_None: "first_error f xs = None \<longleftrightarrow> (\<forall>x\<in>set xs. f x = None)"
  by (induction xs) (auto split: option.split)

lemma unique_loop_None:
  assumes "\<And>seen x. chk seen x = None \<longleftrightarrow> nm x \<notin> set seen \<and> P x"
  shows "unique_loop nm chk seen xs = None \<longleftrightarrow>
    distinct (map nm xs) \<and> set (map nm xs) \<inter> set seen = {} \<and> (\<forall>x\<in>set xs. P x)"
proof (induction xs arbitrary: seen)
  case (Cons x xs)
  show ?case
  proof (cases "chk seen x")
    case None
    then show ?thesis using Cons.IH [of "nm x # seen"] assms [of seen x] by auto
  next
    case (Some e)
    then show ?thesis using assms [of seen x] by auto
  qed
qed simp

section \<open>Checks\<close>

definition validateBuffer :: "core_config \<Rightarrow> config_error option" where
  "validateBuffer cfg =
     (let b = gc_Buffer (cf_Global cfg)
      in if \<not> bc_Enabled b then None
         else if bc_Path b = [] then Some BufferPathUnset
         else if bc_MaxSize b > 0 \<and> bc_MaxSize b < 10 then Some (BufferTooSmall (bc_MaxSize b))
         else None)"

definition check_duration :: "string \<times> string \<Rightarrow> config_error option" where
  "check_duration f =
     (if snd f = [] then None
      else case parse_duration (snd f) of
             None \<Rightarrow> Some (InvalidDuration (fst f) (snd f))
           | Some d \<Rightarrow> if d \<le> 0 then Some (NonPositiveDuration (fst f) (snd f)) else None)"

definition engine_durations :: "engine_config \<Rightarrow> (string \<times> string) list" where
  "engine_durations e =
     [(''engine.default-tag-interval'', ec_DefaultTagInterval e),
      (''engine.shutdown-timeout'', ec_ShutdownTimeout e),
      (''engine.error-throttle-window'', ec_ErrorThrottleWindow e),
      (''engine.stale-threshold'', ec_StaleThreshold e),
      (''engine.write-min-interval'', ec_WriteMinInterval e),
      (''engine.alert-active-window'', ec_AlertActiveWindow e)]"

definition validateEngine :: "core_config \<Rightarrow> config_error option" where
  "validateEngine cfg =
     (let e = gc_Engine (cf_Global cfg)
      in case first_error check_duration (engine_durations e) of
           Some err \<Rightarrow> Some err
         | None \<Rightarrow>
             if to_lower (ec_OnBadQuality e) \<in> {[], ''publish'', ''drop'', ''mark-and-publish'', ''alert''} then None
             else Some (InvalidOnBadQuality (ec_OnBadQuality e)))"

definition validateDataSources :: "core_config \<Rightarrow> config_error option" where
  "validateDataSources cfg = None"

definition validatePositiveDuration :: "string \<Rightarrow> string \<Rightarrow> string \<Rightarrow> string \<Rightarrow> config_error option" where
  "validatePositiveDuration driver tag field val =
     (if val = [] then None
      else case parse_duration val of
             None \<Rightarrow> Some (InvalidTagDuration driver tag field val)
           | Some d \<Rightarrow> if d \<le> 0 then Some (NonPositiveTagDuration driver tag field d) else None)"

definition check_enforce :: "string \<Rightarrow> tag_config \<Rightarrow> config_error option" where
  "check_enforce driver tag =
     (if tc_enforce_interval tag = [] then None
      else if f64_le (tc_deadband tag) 0 then Some (EnforceNeedsDeadband driver (tc_name tag))
      else case parse_duration (tc_enforce_interval tag) of
             None \<Rightarrow> Some (InvalidTagDuration driver (tc_name tag) ''enforce-interval'' (tc_enforce_interval tag))
           | Some enforce \<Rightarrow>
               if enforce \<le> 0 then Some (NonPositiveTagDuration driver (tc_name tag) ''enforce-interval'' enforce)
               else if tc_interval tag = [] then None
               else case parse_duration (tc_interval tag) of
                      None \<Rightarrow> None
                    | Some interval \<Rightarrow>
                        if enforce < interval then Some (EnforceTooShort driver (tc_name tag) enforce interval) else None)"

definition validateTag :: "string \<Rightarrow> string list \<Rightarrow> tag_config \<Rightarrow> config_error option" where
  "validateTag driver tagNames tag =
     (let n = tc_name tag
      in if n = [] then Some (EmptyTagName driver)
         else if n \<in> set tagNames then Some (DuplicateTagName driver n)
         else if tc_address tag = [] then Some (EmptyAddress driver n)
         else if tc_type tag = [] then Some (EmptyTagType driver n)
         else if ParseDataType (tc_type tag) = None then Some (InvalidTagType driver n (tc_type tag))
         else case validatePositiveDuration driver n ''interval'' (tc_interval tag) of
                Some e \<Rightarrow> Some e
              | None \<Rightarrow>
                  (case validatePositiveDuration driver n ''read-timeout'' (tc_read_timeout tag) of
                     Some e \<Rightarrow> Some e
                   | None \<Rightarrow>
                       if tc_trigger_group tag \<noteq> [] \<and> tc_triggers tag \<noteq> [] then Some (TriggerConflict driver n)
                       else if tc_trigger_group tag \<noteq> [] \<and> list_ex (\<lambda>c. c \<in> set '' ,;'') (tc_trigger_group tag)
                       then Some (InvalidTriggerGroup driver n (tc_trigger_group tag))
                       else if tc_protect tag \<notin> {[], ''read-write'', ''read-only'', ''write-only''}
                       then Some (InvalidProtect driver n (tc_protect tag))
                       else check_enforce driver tag))"

definition check_trigger :: "driver_config \<Rightarrow> tag_config \<Rightarrow> config_error option" where
  "check_trigger d tag =
     (if tc_triggers tag = [] \<or> tc_name tag \<notin> tc_name ` set (dc_tags d) then None
      else if tc_triggers tag \<notin> tc_name ` {t \<in> set (dc_tags d). tc_trigger_group t \<noteq> []}
      then Some (DanglingTrigger (dc_name d) (tc_name tag) (tc_triggers tag)) else None)"

definition validateDriver :: "string list \<Rightarrow> string list \<Rightarrow> driver_config \<Rightarrow> config_error option" where
  "validateDriver registered driverNames d =
     (if dc_name d = [] then Some EmptyDriverName
      else if dc_name d \<in> set driverNames then Some (DuplicateDriverName (dc_name d))
      else if dc_type d = [] then Some (EmptyDriverType (dc_name d))
      else if registered \<noteq> [] \<and> dc_type d \<notin> set registered then Some (UnknownDriverType (dc_name d) (dc_type d))
      else if dc_tags d = [] then Some (NoTags (dc_name d))
      else case unique_loop tc_name (validateTag (dc_name d)) [] (dc_tags d) of
             Some e \<Rightarrow> Some e
           | None \<Rightarrow> first_error (check_trigger d) (dc_tags d))"

definition validateDrivers :: "string list \<Rightarrow> core_config \<Rightarrow> config_error option" where
  "validateDrivers registered cfg = unique_loop dc_name (validateDriver registered) [] (cf_Drivers cfg)"

definition validateAPI :: "core_config \<Rightarrow> config_error option" where
  "validateAPI cfg =
     (let api = gc_API (cf_Global cfg)
      in if ac_Listen api = [] then None
         else if ac_Secret api = [] then Some ApiSecretRequired
         else if length (ac_Secret api) < 8 then Some (ApiSecretTooShort (length (ac_Secret api)))
         else None)"

definition misplaced_keys :: "string list" where
  "misplaced_keys = [''batch-size'', ''batch_size'', ''flush-interval'', ''flush_interval'', ''retry-count'', ''retry_count'',
     ''buffer-size'', ''buffer_size'', ''fallback'']"

definition validate_transport :: "string list \<Rightarrow> string list \<Rightarrow> transport_config \<Rightarrow> config_error option" where
  "validate_transport registered names t =
     (if tc_Name t = [] then Some EmptyTransportName
      else if tc_Name t \<in> set names then Some (DuplicateTransportName (tc_Name t))
      else if tc_Type t = [] then Some (EmptyTransportType (tc_Name t))
      else if registered \<noteq> [] \<and> tc_Type t \<notin> set registered then Some (UnknownTransportType (tc_Name t) (tc_Type t))
      else first_error (\<lambda>k. if k \<in> fst ` set (tc_Settings t) then Some (MisplacedField (tc_Name t) k) else None) misplaced_keys)"

definition validateTransports :: "string list \<Rightarrow> core_config \<Rightarrow> (config_error, string list) result" where
  "validateTransports registered cfg =
     (case unique_loop tc_Name (validate_transport registered) [] (cf_Transports cfg) of
        Some e \<Rightarrow> Inl e
      | None \<Rightarrow> Inr (map tc_Name (cf_Transports cfg)))"

text \<open>
  The settings passes. \<open>check\<close> is the \<^verbatim>\<open>ValidateSettings\<close> of a component, if it has that role;
  a component that cannot be created is skipped.
\<close>

definition validateDriverSettings ::
  "driver_config component_ops \<Rightarrow> (driver_config \<Rightarrow> string option) \<Rightarrow> core_config \<Rightarrow> config_error option" where
  "validateDriverSettings ops check cfg =
     first_error (\<lambda>d. if CreateDriver ops d \<noteq> None then None
                      else map_option (SettingsRejected (dc_name d)) (check d)) (cf_Drivers cfg)"

definition validateTransportSettings ::
  "transport_config component_ops \<Rightarrow> (transport_config \<Rightarrow> string option) \<Rightarrow> core_config \<Rightarrow> config_error option" where
  "validateTransportSettings ops check cfg =
     first_error (\<lambda>t. if CreateTransport ops t \<noteq> None then None
                      else map_option (SettingsRejected (tc_Name t)) (check t)) (cf_Transports cfg)"

definition validActions :: "string list" where
  "validActions = [''forward'', ''drop'', ''alert'', ''transform'', ''mirror'']"

definition validate_rule :: "string list \<Rightarrow> string list \<Rightarrow> rule_config \<Rightarrow> config_error option" where
  "validate_rule transports names r =
     (if rc_name r = [] then Some EmptyRuleName
      else if rc_name r \<in> set names then Some (DuplicateRuleName (rc_name r))
      else if rc_action r = [] then Some (EmptyAction (rc_name r))
      else if to_lower (rc_action r) \<notin> set validActions then Some (InvalidAction (rc_name r) (rc_action r))
      else if rc_match r = [] then Some (EmptyMatch (rc_name r))
      else if equal_fold (rc_action r) ''drop'' \<and> rc_continue r then Some (DropContinue (rc_name r))
      else if rc_target r \<noteq> [] \<and> rc_target r \<notin> set transports then Some (TargetNotFound (rc_name r) (rc_target r))
      else first_error (\<lambda>t. if t \<notin> set transports then Some (TargetNotFound (rc_name r) t) else None) (rc_targets r))"

definition validateRules :: "string list \<Rightarrow> core_config \<Rightarrow> config_error option" where
  "validateRules transports cfg = unique_loop rc_name (validate_rule transports) [] (cf_Rules cfg)"

text \<open>The keys of the factory tables are what \<^verbatim>\<open>RegisteredDrivers\<close> and \<^verbatim>\<open>RegisteredTransports\<close> list.\<close>

record registries =
  rg_drivers :: "string list"
  rg_transports :: "string list"
  rg_driverOps :: "driver_config component_ops"
  rg_transportOps :: "transport_config component_ops"
  rg_driverCheck :: "driver_config \<Rightarrow> string option"
  rg_transportCheck :: "transport_config \<Rightarrow> string option"

definition or_else :: "'e option \<Rightarrow> 'e option \<Rightarrow> 'e option" where
  "or_else a b = (case a of Some e \<Rightarrow> Some e | None \<Rightarrow> b)"

definition validate :: "registries \<Rightarrow> core_config \<Rightarrow> config_error option" where
  "validate rg cfg =
     or_else (validateBuffer cfg) (or_else (validateEngine cfg) (or_else (validateDataSources cfg)
       (or_else (validateDrivers (rg_drivers rg) cfg) (or_else (validateAPI cfg)
         (case validateTransports (rg_transports rg) cfg of
            Inl e \<Rightarrow> Some e
          | Inr transportNames \<Rightarrow>
              or_else (validateDriverSettings (rg_driverOps rg) (rg_driverCheck rg) cfg)
                (or_else (validateTransportSettings (rg_transportOps rg) (rg_transportCheck rg) cfg)
                  (or_else (validateRules transportNames cfg)
                    (map_option DerivedInvalid (validateDerivedTags (cf_DerivedTags cfg))))))))))"

section \<open>Warnings\<close>

datatype config_warning = NoControlPlane | NoDataSource | NoTransport | NoFlushInterval string | IgnoredFlushInterval string string

definition string_setting :: "string \<Rightarrow> (string \<times> go_value) list \<Rightarrow> bool" where
  "string_setting k settings = (case map_of settings k of Some (VString s) \<Rightarrow> s \<noteq> [] | _ \<Rightarrow> False)"

definition hasInboundTransport :: "transport_config list \<Rightarrow> bool" where
  "hasInboundTransport ts =
     list_ex (\<lambda>t. string_setting ''data-topic'' (tc_Settings t) \<or> string_setting ''webhook-addr'' (tc_Settings t)) ts"

definition hasAutoDiscoveryInbound :: "core_config \<Rightarrow> bool" where
  "hasAutoDiscoveryInbound cfg \<longleftrightarrow> nc_ID (cf_Node cfg) \<noteq> [] \<and> nc_Subscribe (cf_Node cfg) \<noteq> []"

definition batching_warning :: "transport_config \<Rightarrow> config_warning option" where
  "batching_warning t =
     (if tc_BatchSize t \<le> 0 \<and> tc_FlushInterval t = [] \<and> tc_RetryCount t \<le> 0 then None
      else if tc_FlushInterval t = [] then Some (NoFlushInterval (tc_Name t))
      else case parse_duration (tc_FlushInterval t) of
             None \<Rightarrow> Some (IgnoredFlushInterval (tc_Name t) (tc_FlushInterval t))
           | Some d \<Rightarrow> if d \<le> 0 then Some (IgnoredFlushInterval (tc_Name t) (tc_FlushInterval t)) else None)"

definition batchingWarnings :: "core_config \<Rightarrow> config_warning list" where
  "batchingWarnings cfg =
     (if bc_Enabled (gc_Buffer (cf_Global cfg)) then [] else List.map_filter batching_warning (cf_Transports cfg))"

definition IdleWarnings :: "core_config \<Rightarrow> config_warning list" where
  "IdleWarnings cfg =
     (if ac_Listen (gc_API (cf_Global cfg)) = [] then [NoControlPlane] else [])
     @ (if cf_Drivers cfg = [] \<and> \<not> hasInboundTransport (cf_Transports cfg) \<and> \<not> hasAutoDiscoveryInbound cfg
        then [NoDataSource] else [])
     @ (if cf_Transports cfg = [] then [NoTransport] else [])
     @ batchingWarnings cfg"

section \<open>Well-formed configurations\<close>

definition positive_if_set :: "string \<Rightarrow> bool" where
  "positive_if_set s \<longleftrightarrow> s = [] \<or> (\<exists>d. parse_duration s = Some d \<and> 0 < d)"

definition enforce_wf :: "tag_config \<Rightarrow> bool" where
  "enforce_wf t \<longleftrightarrow> tc_enforce_interval t = []
     \<or> \<not> f64_le (tc_deadband t) 0
       \<and> (\<exists>d. parse_duration (tc_enforce_interval t) = Some d \<and> 0 < d
            \<and> (tc_interval t = [] \<or> (\<forall>i. parse_duration (tc_interval t) = Some i \<longrightarrow> i \<le> d)))"

definition tag_wf :: "tag_config \<Rightarrow> bool" where
  "tag_wf t \<longleftrightarrow> tc_name t \<noteq> [] \<and> tc_address t \<noteq> [] \<and> tc_type t \<in> data_type_String ` set all_data_types
     \<and> positive_if_set (tc_interval t) \<and> positive_if_set (tc_read_timeout t)
     \<and> (tc_trigger_group t = [] \<or> tc_triggers t = [])
     \<and> set (tc_trigger_group t) \<inter> set '' ,;'' = {}
     \<and> tc_protect t \<in> {[], ''read-write'', ''read-only'', ''write-only''}
     \<and> enforce_wf t"

definition driver_wf :: "string list \<Rightarrow> driver_config \<Rightarrow> bool" where
  "driver_wf registered d \<longleftrightarrow> dc_name d \<noteq> [] \<and> dc_type d \<noteq> [] \<and> (registered = [] \<or> dc_type d \<in> set registered)
     \<and> dc_tags d \<noteq> [] \<and> distinct (map tc_name (dc_tags d)) \<and> (\<forall>t\<in>set (dc_tags d). tag_wf t)
     \<and> (\<forall>t\<in>set (dc_tags d). tc_triggers t \<noteq> [] \<longrightarrow>
          (\<exists>c\<in>set (dc_tags d). tc_name c = tc_triggers t \<and> tc_trigger_group c \<noteq> []))"

definition transport_wf :: "string list \<Rightarrow> transport_config \<Rightarrow> bool" where
  "transport_wf registered t \<longleftrightarrow> tc_Name t \<noteq> [] \<and> tc_Type t \<noteq> [] \<and> (registered = [] \<or> tc_Type t \<in> set registered)
     \<and> set misplaced_keys \<inter> fst ` set (tc_Settings t) = {}"

definition rule_wf :: "string set \<Rightarrow> rule_config \<Rightarrow> bool" where
  "rule_wf transports r \<longleftrightarrow> rc_name r \<noteq> [] \<and> rc_match r \<noteq> []
     \<and> (\<exists>a. parseAction (rc_action r) = Inr a \<and> (a = ActionDrop \<longrightarrow> \<not> rc_continue r))
     \<and> (rc_target r = [] \<or> rc_target r \<in> transports) \<and> set (rc_targets r) \<subseteq> transports"

definition derived_wf :: "derived_tag_config \<Rightarrow> bool" where
  "derived_wf d \<longleftrightarrow> trim_space (dt_name d) \<noteq> [] \<and> trim_space (dt_expr d) \<noteq> [] \<and> trim_space (dt_interval d) \<noteq> []"

definition settings_wf :: "registries \<Rightarrow> core_config \<Rightarrow> bool" where
  "settings_wf rg cfg \<longleftrightarrow>
     (\<forall>d\<in>set (cf_Drivers cfg). CreateDriver (rg_driverOps rg) d = None \<longrightarrow> rg_driverCheck rg d = None)
     \<and> (\<forall>t\<in>set (cf_Transports cfg). CreateTransport (rg_transportOps rg) t = None \<longrightarrow> rg_transportCheck rg t = None)"

definition global_wf :: "global_config \<Rightarrow> bool" where
  "global_wf g \<longleftrightarrow>
     (bc_Enabled (gc_Buffer g) \<longrightarrow> bc_Path (gc_Buffer g) \<noteq> [] \<and> (bc_MaxSize (gc_Buffer g) \<le> 0 \<or> 10 \<le> bc_MaxSize (gc_Buffer g)))
     \<and> (\<forall>f\<in>set (engine_durations (gc_Engine g)). positive_if_set (snd f))
     \<and> (\<exists>p. parseBadQualityPolicy (ec_OnBadQuality (gc_Engine g)) = Inr p)
     \<and> (ac_Listen (gc_API g) \<noteq> [] \<longrightarrow> 8 \<le> length (ac_Secret (gc_API g)))"

definition config_wf :: "registries \<Rightarrow> core_config \<Rightarrow> bool" where
  "config_wf rg cfg \<longleftrightarrow>
     global_wf (cf_Global cfg)
     \<and> distinct (map dc_name (cf_Drivers cfg)) \<and> (\<forall>d\<in>set (cf_Drivers cfg). driver_wf (rg_drivers rg) d)
     \<and> distinct (map tc_Name (cf_Transports cfg)) \<and> (\<forall>t\<in>set (cf_Transports cfg). transport_wf (rg_transports rg) t)
     \<and> settings_wf rg cfg
     \<and> distinct (map rc_name (cf_Rules cfg)) \<and> (\<forall>r\<in>set (cf_Rules cfg). rule_wf (tc_Name ` set (cf_Transports cfg)) r)
     \<and> distinct (map dt_name (cf_DerivedTags cfg)) \<and> (\<forall>d\<in>set (cf_DerivedTags cfg). derived_wf d)"

section \<open>Validation accepts exactly the well-formed configurations\<close>

lemma or_else_None [simp]: "or_else a b = None \<longleftrightarrow> a = None \<and> b = None"
  by (auto simp: or_else_def split: option.split)

text \<open>A chain of checks passes when each check passes.\<close>

lemma check_chain:
  "(if c then Some e else x) = None \<longleftrightarrow> \<not> c \<and> x = None"
  "(case a of None \<Rightarrow> b | Some e \<Rightarrow> Some e) = None \<longleftrightarrow> a = None \<and> b = None"
  by (auto split: option.split)

lemma validatePositiveDuration_None:
  "validatePositiveDuration d t f v = None \<longleftrightarrow> positive_if_set v"
  by (auto simp: validatePositiveDuration_def positive_if_set_def split: option.split)

lemma check_duration_None: "check_duration f = None \<longleftrightarrow> positive_if_set (snd f)"
  by (auto simp: check_duration_def positive_if_set_def split: option.split)

lemma check_enforce_None: "check_enforce d t = None \<longleftrightarrow> enforce_wf t"
  by (auto simp: check_enforce_def enforce_wf_def split: option.split)

lemma ParseDataType_None: "ParseDataType s = None \<longleftrightarrow> s \<notin> data_type_String ` set all_data_types"
proof -
  have "ParseDataType s \<noteq> None \<longleftrightarrow> s \<in> data_type_String ` set all_data_types"
    using Parse_String Parse_String_inv [of s] by (auto simp: image_iff)
  then show ?thesis by blast
qed

lemma data_type_names_nonempty: "[] \<notin> data_type_String ` set all_data_types"
  by (simp add: all_data_types_def data_type_String_def dataTypeNames_def)

lemma validateTag_None:
  "validateTag d seen t = None \<longleftrightarrow> tc_name t \<notin> set seen \<and> tag_wf t"
proof -
  have sep: "list_ex (\<lambda>c. c \<in> set '' ,;'') g \<longleftrightarrow> set g \<inter> set '' ,;'' \<noteq> {}" for g :: string
    by (auto simp: list_ex_iff)
  have ty: "tc_type t = [] \<or> ParseDataType (tc_type t) = None \<longleftrightarrow> tc_type t \<notin> data_type_String ` set all_data_types"
    using ParseDataType_None data_type_names_nonempty by metis
  have "validateTag d seen t = None \<longleftrightarrow>
      tc_name t \<noteq> [] \<and> tc_name t \<notin> set seen \<and> tc_address t \<noteq> []
      \<and> \<not> (tc_type t = [] \<or> ParseDataType (tc_type t) = None)
      \<and> validatePositiveDuration d (tc_name t) ''interval'' (tc_interval t) = None
      \<and> validatePositiveDuration d (tc_name t) ''read-timeout'' (tc_read_timeout t) = None
      \<and> (tc_trigger_group t = [] \<or> tc_triggers t = [])
      \<and> (tc_trigger_group t = [] \<or> \<not> list_ex (\<lambda>c. c \<in> set '' ,;'') (tc_trigger_group t))
      \<and> tc_protect t \<in> {[], ''read-write'', ''read-only'', ''write-only''}
      \<and> check_enforce d t = None"
    unfolding validateTag_def Let_def check_chain by blast
  then show ?thesis
    unfolding ty validatePositiveDuration_None sep check_enforce_None tag_wf_def by auto
qed

lemma check_trigger_None:
  "t \<in> set (dc_tags d) \<Longrightarrow> check_trigger d t = None \<longleftrightarrow>
   (tc_triggers t \<noteq> [] \<longrightarrow> (\<exists>c\<in>set (dc_tags d). tc_name c = tc_triggers t \<and> tc_trigger_group c \<noteq> []))"
  by (auto simp: check_trigger_def image_iff)

lemma validateDriver_None:
  "validateDriver reg seen d = None \<longleftrightarrow> dc_name d \<notin> set seen \<and> driver_wf reg d"
proof -
  have tags: "unique_loop tc_name (validateTag (dc_name d)) [] (dc_tags d) = None \<longleftrightarrow>
      distinct (map tc_name (dc_tags d)) \<and> (\<forall>t\<in>set (dc_tags d). tag_wf t)"
    using unique_loop_None [of "validateTag (dc_name d)" tc_name tag_wf "[]" "dc_tags d"] validateTag_None by simp
  have trig: "first_error (check_trigger d) (dc_tags d) = None \<longleftrightarrow>
      (\<forall>t\<in>set (dc_tags d). tc_triggers t \<noteq> [] \<longrightarrow>
        (\<exists>c\<in>set (dc_tags d). tc_name c = tc_triggers t \<and> tc_trigger_group c \<noteq> []))"
    by (simp add: first_error_None check_trigger_None)
  show ?thesis unfolding validateDriver_def check_chain tags trig driver_wf_def by blast
qed

lemma validate_transport_None:
  "validate_transport reg seen t = None \<longleftrightarrow> tc_Name t \<notin> set seen \<and> transport_wf reg t"
proof -
  have "first_error (\<lambda>k. if k \<in> fst ` set (tc_Settings t) then Some (MisplacedField (tc_Name t) k) else None) misplaced_keys = None
      \<longleftrightarrow> set misplaced_keys \<inter> fst ` set (tc_Settings t) = {}"
    unfolding first_error_None check_chain by blast
  then show ?thesis unfolding validate_transport_def check_chain transport_wf_def by blast
qed

lemma parseAction_ok: "(\<exists>a. parseAction s = Inr a) \<longleftrightarrow> to_lower s \<in> set validActions"
  by (simp add: parseAction_def validActions_def Let_def)

lemma parseAction_drop: "parseAction s = Inr a \<Longrightarrow> a = ActionDrop \<longleftrightarrow> equal_fold s ''drop''"
proof -
  have "to_lower ''drop'' = ''drop''" by code_simp
  then show "parseAction s = Inr a \<Longrightarrow> ?thesis"
    by (auto simp: parseAction_def Let_def equal_fold_def split: if_splits)
qed

lemma validate_rule_None:
  "validate_rule ts seen r = None \<longleftrightarrow> rc_name r \<notin> set seen \<and> rule_wf (set ts) r"
proof -
  have targets: "first_error (\<lambda>t. if t \<notin> set ts then Some (TargetNotFound (rc_name r) t) else None) (rc_targets r) = None
      \<longleftrightarrow> set (rc_targets r) \<subseteq> set ts"
    unfolding first_error_None check_chain by blast
  have e: "rc_action r = [] \<Longrightarrow> to_lower (rc_action r) \<notin> set validActions"
    by (simp add: to_lower_def validActions_def)
  have act: "(to_lower (rc_action r) \<in> set validActions \<and> \<not> (equal_fold (rc_action r) ''drop'' \<and> rc_continue r)) \<longleftrightarrow>
      (\<exists>a. parseAction (rc_action r) = Inr a \<and> (a = ActionDrop \<longrightarrow> \<not> rc_continue r))"
    using parseAction_ok [of "rc_action r"] parseAction_drop [of "rc_action r"] by blast
  show ?thesis unfolding validate_rule_def check_chain targets rule_wf_def using e act by blast
qed

lemma validate_derived_None:
  "validateDerivedTags ds = None \<longleftrightarrow> distinct (map dt_name ds) \<and> (\<forall>d\<in>set ds. derived_wf d)"
proof -
  have "validate_derived_from seen ds = None \<longleftrightarrow>
      distinct (map dt_name ds) \<and> set (map dt_name ds) \<inter> set seen = {} \<and> (\<forall>d\<in>set ds. derived_wf d)" for seen
  proof (induction ds arbitrary: seen)
    case (Cons d ds)
    then show ?case unfolding validate_derived_from.simps check_chain by (auto simp: derived_wf_def)
  qed simp
  from this [of "[]"] show ?thesis by (simp add: validateDerivedTags_def)
qed

lemma validate_global_None:
  "validateBuffer cfg = None \<and> validateEngine cfg = None \<and> validateAPI cfg = None \<longleftrightarrow> global_wf (cf_Global cfg)"
proof -
  have b: "validateBuffer cfg = None \<longleftrightarrow> (bc_Enabled (gc_Buffer (cf_Global cfg)) \<longrightarrow>
      bc_Path (gc_Buffer (cf_Global cfg)) \<noteq> []
      \<and> (bc_MaxSize (gc_Buffer (cf_Global cfg)) \<le> 0 \<or> 10 \<le> bc_MaxSize (gc_Buffer (cf_Global cfg))))"
    by (auto simp: validateBuffer_def Let_def)
  have p: "(\<exists>p. parseBadQualityPolicy s = Inr p) \<longleftrightarrow> to_lower s \<in> {[], ''publish'', ''drop'', ''mark-and-publish'', ''alert''}" for s
    by (simp add: parseBadQualityPolicy_def Let_def)
  have e: "validateEngine cfg = None \<longleftrightarrow>
      (\<forall>f\<in>set (engine_durations (gc_Engine (cf_Global cfg))). positive_if_set (snd f))
      \<and> (\<exists>p. parseBadQualityPolicy (ec_OnBadQuality (gc_Engine (cf_Global cfg))) = Inr p)"
    unfolding validateEngine_def Let_def check_chain first_error_None check_duration_None p by auto
  have a: "validateAPI cfg = None \<longleftrightarrow> (ac_Listen (gc_API (cf_Global cfg)) \<noteq> [] \<longrightarrow> 8 \<le> length (ac_Secret (gc_API (cf_Global cfg))))"
    by (auto simp: validateAPI_def Let_def)
  show ?thesis unfolding b e a global_wf_def by blast
qed

lemma validate_settings_None:
  "validateDriverSettings (rg_driverOps rg) (rg_driverCheck rg) cfg = None
   \<and> validateTransportSettings (rg_transportOps rg) (rg_transportCheck rg) cfg = None \<longleftrightarrow> settings_wf rg cfg"
  unfolding validateDriverSettings_def validateTransportSettings_def first_error_None settings_wf_def
  by (auto split: if_splits)

lemma validate_None: "validate rg cfg = None \<longleftrightarrow> config_wf rg cfg"
proof -
  have d: "validateDrivers (rg_drivers rg) cfg = None \<longleftrightarrow>
      distinct (map dc_name (cf_Drivers cfg)) \<and> (\<forall>d\<in>set (cf_Drivers cfg). driver_wf (rg_drivers rg) d)"
    using unique_loop_None [of "validateDriver (rg_drivers rg)" dc_name "driver_wf (rg_drivers rg)" "[]" "cf_Drivers cfg"]
      validateDriver_None by (simp add: validateDrivers_def)
  have t: "unique_loop tc_Name (validate_transport (rg_transports rg)) [] (cf_Transports cfg) = None \<longleftrightarrow>
      distinct (map tc_Name (cf_Transports cfg)) \<and> (\<forall>t\<in>set (cf_Transports cfg). transport_wf (rg_transports rg) t)"
    using unique_loop_None [of "validate_transport (rg_transports rg)" tc_Name "transport_wf (rg_transports rg)" "[]" "cf_Transports cfg"]
      validate_transport_None by simp
  have r: "validateRules (map tc_Name (cf_Transports cfg)) cfg = None \<longleftrightarrow>
      distinct (map rc_name (cf_Rules cfg)) \<and> (\<forall>r\<in>set (cf_Rules cfg). rule_wf (tc_Name ` set (cf_Transports cfg)) r)"
    using unique_loop_None [of "validate_rule (map tc_Name (cf_Transports cfg))" rc_name
        "rule_wf (tc_Name ` set (cf_Transports cfg))" "[]" "cf_Rules cfg"]
      validate_rule_None [of "map tc_Name (cf_Transports cfg)"] by (simp add: validateRules_def)
  show ?thesis
    using validate_global_None [of cfg] validate_settings_None [of rg cfg] validate_derived_None [of "cf_DerivedTags cfg"] d t r
    by (cases "unique_loop tc_Name (validate_transport (rg_transports rg)) [] (cf_Transports cfg)")
       (auto simp: validate_def validateTransports_def validateDataSources_def config_wf_def)
qed

text \<open>
  C9. Validation accepts exactly the well-formed configurations: names unique and not empty,
  registered types, tags with a known type, positive durations, a deadband under every heartbeat and
  trigger conditions on their own driver, rules with a known action, no continuing drop and only
  existing targets, durations and policies the engine can parse, and settings the components accept.
\<close>

theorem validate_exact: "validate rg cfg = None \<longleftrightarrow> config_wf rg cfg"
  by (rule validate_None)

section \<open>What validation guarantees at run time\<close>

lemma newRule_targets:
  assumes "newRule L ps subs cfg = Inr r"
  shows "set (result_targets r) \<subseteq> set (rc_targets cfg) \<union> (if rc_target cfg = [] then {} else {rc_target cfg})"
  using assms
  by (auto simp: newRule_def newSimpleRule_def newRuleSetRule_def newSubRuleRef_def Let_def effective_targets_def
      result_targets_def split: sum.splits if_splits option.splits prod.splits)

lemma matchInRules_targets:
  "matchInRules m now p is st = (res, st') \<Longrightarrow> x \<in> set res \<Longrightarrow> mr_targets x = result_targets (mr_rule x)"
proof (induction "is" arbitrary: st res st')
  case (Cons i "is")
  obtain r st1 where t: "tryMatch m now p i st = (r, st1)" by (cases "tryMatch m now p i st")
  obtain rest st2 where u: "matchInRules m now p is st1 = (rest, st2)" by (cases "matchInRules m now p is st1")
  have "mr_targets y = result_targets (mr_rule y)" if "r = Some y" for y
    using t that by (auto simp: tryMatch_def mk_result_def split: prod.splits if_splits)
  then show ?case using Cons.IH [OF u] Cons.prems t u by (auto split: option.splits if_splits)
qed simp

lemma Match_results_config:
  assumes "SetRules L cfgs e0 = Inr e" "Match (rule_Match L now) now p e wld = (res, e', wld')" "x \<in> set res"
  shows "mr_targets x = result_targets (mr_rule x)
    \<and> (\<exists>c\<in>set cfgs. \<exists>r. newRule L (e_providers e0) (e_subEngines e0) c = Inr r \<and> same_config r (mr_rule x))"
proof -
  let ?is = "filter (relevant p (e_rules e)) [0..<length (e_rules e)]"
  obtain res1 ws1 s1 where
    r: "matchInRules (rule_Match L now) now p ?is (e_rules e, wld) = (res1, ws1, s1)" by (metis prod_cases3)
  have "res1 = res"
    using full.Match_char [OF SetRules_inv [OF assms(1)] r] assms(2) by simp
  note r = r [unfolded this]
  have sorted: "sorted_wrt (<) ?is" and rng: "\<forall>i \<in> set ?is. i < length (e_rules e)"
    by (auto simp: sorted_wrt_filter)
  have sc: "same_config (w_rule (e_rules e ! mr_ref x)) (mr_rule x)" and lt: "mr_ref x < length (e_rules e)"
    using full.matchInRules_shape [OF sorted rng r] full.matchInRules_refs [OF r] assms(3) by auto
  obtain rules where n: "new_rules L (e_providers e0) (e_subEngines e0) cfgs = Inr rules"
    and e: "e_rules e = wrap_rules (sort_key r_priority rules)"
    using SetRules_rules [OF assms(1)] by blast
  have "w_rule (e_rules e ! mr_ref x) \<in> set rules"
  proof -
    have "w_rule (e_rules e ! mr_ref x) = map w_rule (e_rules e) ! mr_ref x" using lt by simp
    also have "\<dots> \<in> set (map w_rule (e_rules e))" using lt by (intro nth_mem) simp
    finally show ?thesis unfolding e by simp
  qed
  then obtain i where i: "i < length rules" "rules ! i = w_rule (e_rules e ! mr_ref x)" by (auto simp: in_set_conv_nth)
  with new_rules_all2 [OF n] have "cfgs ! i \<in> set cfgs"
    "newRule L (e_providers e0) (e_subEngines e0) (cfgs ! i) = Inr (w_rule (e_rules e ! mr_ref x))"
    by (simp_all add: list_all2_conv_all_nth)
  then show ?thesis using matchInRules_targets [OF r assms(3)] sc by blast
qed

text \<open>
  C28. Under a validated configuration no rule publishes to a transport that does not exist: for
  every point, the targets of every matched rule are configured transports, so publishing a result
  counts no missing target.
\<close>

theorem validated_targets_exist:
  assumes "validate rg cfg = None" and "SetRules L (cf_Rules cfg) e0 = Inr e"
    and "Match (rule_Match L now) now p e wld = (res, e', wld')"
    and "set (pb_transports pb) = tc_Name ` set (cf_Transports cfg)" and "x \<in> set res"
  shows "filter (\<lambda>t. t \<notin> set (pb_transports pb)) (mr_targets x) = []"
proof -
  obtain c r where c: "c \<in> set (cf_Rules cfg)" and n: "newRule L (e_providers e0) (e_subEngines e0) c = Inr r"
    and s: "same_config r (mr_rule x)" and t: "mr_targets x = result_targets (mr_rule x)"
    using Match_results_config [OF assms(2,3,5)] by blast
  have "rule_wf (tc_Name ` set (cf_Transports cfg)) c"
    using assms(1) c by (simp add: validate_None config_wf_def)
  then have "set (result_targets r) \<subseteq> tc_Name ` set (cf_Transports cfg)"
    using newRule_targets [OF n] by (auto simp: rule_wf_def split: if_splits)
  moreover have "result_targets (mr_rule x) = result_targets r"
    using s by (simp add: same_config_def result_targets_def)
  ultimately show ?thesis using t assms(4) by (auto simp: filter_empty_conv)
qed


definition demo_transport :: transport_config where
  "demo_transport = \<lparr>tc_Name = ''up'', tc_Type = ''mqtt'', tc_Settings = [], tc_BatchSize = 10, tc_FlushInterval = ''5s'',
     tc_RetryCount = 0, tc_BufferSize = 0, tc_Fallback = []\<rparr>"

definition demo_rule_config :: rule_config where
  "demo_rule_config = \<lparr>rc_name = ''all'', rc_match = ''ALL'', rc_action = ''forward'', rc_target = ''up'', rc_targets = [],
     rc_priority = 1, rc_transform = None, rc_continue = False\<rparr>"

definition demo_config :: core_config where
  "demo_config =
     \<lparr>cf_Node = \<lparr>nc_ID = [], nc_Role = [], nc_Subscribe = [], nc_TopicPrefix = []\<rparr>,
      cf_Global = \<lparr>gc_LogLevel = [], gc_LogFormat = [], gc_API = \<lparr>ac_Listen = [], ac_Secret = [], ac_TLSCert = [], ac_TLSKey = []\<rparr>,
        gc_Engine = \<lparr>ec_DataBusSize = 0, ec_Workers = 0, ec_ShutdownTimeout = [], ec_ErrorThrottleWindow = [],
          ec_DefaultTagInterval = [], ec_OnBadQuality = ''Alert'', ec_StaleThreshold = [], ec_WriteRetryCount = 0,
          ec_CommandConcurrency = 0, ec_HighPriorityWorkers = 0, ec_DeadLetterPath = [], ec_WriteMinInterval = [],
          ec_WriteAuditPath = [], ec_AlertActiveWindow = []\<rparr>,
        gc_Buffer = \<lparr>bc_Enabled = False, bc_MaxSize = 0, bc_Path = []\<rparr>\<rparr>,
      cf_Drivers = [], cf_Transports = [demo_transport], cf_Rules = [demo_rule_config], cf_RuleGroups = [], cf_DerivedTags = []\<rparr>"

definition demo_registries :: registries where
  "demo_registries = \<lparr>rg_drivers = [''sim''], rg_transports = [''mqtt''], rg_driverOps = demo_ops, rg_transportOps = demo_ops,
     rg_driverCheck = (\<lambda>_. None), rg_transportCheck = (\<lambda>_. None)\<rparr>"

lemma demo_validate: "validate demo_registries demo_config = None"
  by code_simp

definition config_rules :: engine where
  "config_rules = (case SetRules demo_lang [demo_rule_config] NewEngine of Inr e \<Rightarrow> e | Inl _ \<Rightarrow> NewEngine)"

lemma config_rules_set: "SetRules demo_lang (cf_Rules demo_config) NewEngine = Inr config_rules"
proof -
  have "\<not> isl (SetRules demo_lang [demo_rule_config] NewEngine)" by code_simp
  then show ?thesis by (auto simp: config_rules_def demo_config_def split: sum.splits)
qed

theorem validated_targets_exist_witness:
  "\<exists>x. x \<in> set (fst (Match (rule_Match demo_lang 0) 0 (sample_point ''plc'' ''x'') config_rules \<lparr>rw_providers = [], rw_engines = []\<rparr>))
     \<and> mr_targets x = [''up''] \<and> filter (\<lambda>t. t \<notin> set (pb_transports (pc_pub (demo_pc BadQualityPublish)))) (mr_targets x) = []"
proof -
  let ?m = "Match (rule_Match demo_lang 0) 0 (sample_point ''plc'' ''x'') config_rules \<lparr>rw_providers = [], rw_engines = []\<rparr>"
  obtain res e' w' where m: "?m = (res, e', w')" by (metis prod_cases3)
  have "map mr_targets (fst ?m) = [[''up'']]" by code_simp
  then obtain x where x: "x \<in> set res" "mr_targets x = [''up'']" using m by auto
  have "set (pb_transports (pc_pub (demo_pc BadQualityPublish))) = tc_Name ` set (cf_Transports demo_config)"
    by (simp add: demo_pc_def demo_config_def demo_transport_def)
  from validated_targets_exist [OF demo_validate config_rules_set m this x(1)] x m show ?thesis by auto
qed


end
