(* ===== verification/Executor.thy ===== *)
theory Executor
  imports Config_Validate
begin

text \<open>
  Hot reload of the configuration (\<^verbatim>\<open>hub/executor/executor_diff.go\<close>, \<^verbatim>\<open>executor_apply.go\<close>): the running
  drivers and transports are reconciled with the new configuration, then the rules and the derived
  tags, and a failure anywhere rolls the recorded changes back. The reconciliation is the same
  program for drivers and transports; it is proved once, against the interface \<open>component_set\<close> of
  theory \<open>Registry\<close>, and used for both. A reload is shown to be atomic as long as the old components
  can be stopped and started again.
\<close>

section \<open>Reconciling a set of components\<close>

text \<open>The maps \<^verbatim>\<open>oldMap\<close> and \<^verbatim>\<open>newMap\<close>: a later configuration of the same name wins.\<close>

definition config_map :: "('c \<Rightarrow> string) \<Rightarrow> 'c list \<Rightarrow> string \<rightharpoonup> 'c" where
  "config_map name_of cs = map_of (rev (map (\<lambda>c. (name_of c, c)) cs))"

text \<open>
  The two loops run over the maps in Go's unspecified order, given here as the lists of names. They
  return the error, the state, the configurations that were removed and the names that were added.
\<close>

fun diff_removals ::
  "(string \<Rightarrow> 's \<Rightarrow> string option \<times> 's) \<Rightarrow> (string \<rightharpoonup> 'c) \<Rightarrow> (string \<rightharpoonup> 'c) \<Rightarrow> string list \<Rightarrow> 's \<Rightarrow> 'c list \<Rightarrow>
   string option \<times> 's \<times> 'c list" where
  "diff_removals remove oldM newM [] s rm = (None, s, rm)"
| "diff_removals remove oldM newM (n # ns) s rm =
     (if newM n \<noteq> None then diff_removals remove oldM newM ns s rm
      else case remove n s of
             (Some e, s') \<Rightarrow> (Some (''failed to remove '' @ n @ '': '' @ e), s', rm)
           | (None, s') \<Rightarrow> diff_removals remove oldM newM ns s' (rm @ [the (oldM n)]))"

fun diff_changes ::
  "('c \<Rightarrow> 's \<Rightarrow> string option \<times> 's) \<Rightarrow> (string \<Rightarrow> 's \<Rightarrow> string option \<times> 's) \<Rightarrow> bool \<Rightarrow> (string \<rightharpoonup> 'c) \<Rightarrow> (string \<rightharpoonup> 'c) \<Rightarrow>
   string list \<Rightarrow> 's \<Rightarrow> 'c list \<Rightarrow> string list \<Rightarrow> string option \<times> 's \<times> 'c list \<times> string list" where
  "diff_changes add remove force oldM newM [] s rm ad = (None, s, rm, ad)"
| "diff_changes add remove force oldM newM (n # ns) s rm ad =
     (case oldM n of
        None \<Rightarrow>
          (case add (the (newM n)) s of
             (Some e, s') \<Rightarrow> (Some (''failed to add '' @ n @ '': '' @ e), s', rm, ad)
           | (None, s') \<Rightarrow> diff_changes add remove force oldM newM ns s' rm (ad @ [n]))
      | Some old \<Rightarrow>
          if force \<or> old \<noteq> the (newM n)
          then (case remove n s of
                  (Some e, s') \<Rightarrow> (Some (''failed to stop '' @ n @ '' for restart: '' @ e), s', rm, ad)
                | (None, s') \<Rightarrow>
                    (case add (the (newM n)) s' of
                       (Some e, s'') \<Rightarrow> (Some (''failed to restart '' @ n @ '': '' @ e), s'', rm @ [old], ad)
                     | (None, s'') \<Rightarrow> diff_changes add remove force oldM newM ns s'' (rm @ [old]) (ad @ [n])))
          else diff_changes add remove force oldM newM ns s rm ad)"

definition diff_components ::
  "('c \<Rightarrow> 's \<Rightarrow> string option \<times> 's) \<Rightarrow> (string \<Rightarrow> 's \<Rightarrow> string option \<times> 's) \<Rightarrow> bool \<Rightarrow> (string \<rightharpoonup> 'c) \<Rightarrow> (string \<rightharpoonup> 'c) \<Rightarrow>
   string list \<Rightarrow> string list \<Rightarrow> 's \<Rightarrow> string option \<times> 's \<times> 'c list \<times> string list" where
  "diff_components add remove force oldM newM ordOld ordNew s =
     (case diff_removals remove oldM newM ordOld s [] of
        (Some e, s', rm) \<Rightarrow> (Some e, s', rm, [])
      | (None, s', rm) \<Rightarrow> diff_changes add remove force oldM newM ordNew s' rm [])"

text \<open>The part of \<^verbatim>\<open>rollback\<close> for one kind of component; errors are only logged.\<close>

definition rollback_components ::
  "('c \<Rightarrow> 's \<Rightarrow> string option \<times> 's) \<Rightarrow> (string \<Rightarrow> 's \<Rightarrow> string option \<times> 's) \<Rightarrow> 'c list \<Rightarrow> string list \<Rightarrow> 's \<Rightarrow> 's" where
  "rollback_components add remove rm ad s =
     fold (\<lambda>c s. snd (add c s)) (rev rm) (fold (\<lambda>n s. snd (remove n s)) ad s)"

section \<open>The executor\<close>

record diff_actions =
  da_removedDrivers :: "driver_config list"
  da_addedDrivers :: "string list"
  da_removedTransports :: "transport_config list"
  da_addedTransports :: "string list"
  da_rulesApplied :: bool

record executor =
  ex_drivers :: driver_registry
  ex_transports :: transport_manager
  ex_rules :: engine
  ex_derived :: "compiled_derived_tag list"
  ex_logLevel :: string
  ex_running :: bool
  ex_currentCfg :: "core_config option"

text \<open>What a reload meets: the implementations, the expression library, and the map orders.\<close>

record reload_env =
  re_driverOps :: "driver_config component_ops"
  re_transportOps :: "transport_config component_ops"
  re_load :: tags_loader
  re_lang :: expr_lang
  re_compile :: "string \<Rightarrow> string option"
  re_oldDrivers :: "string list"
  re_newDrivers :: "string list"
  re_oldTransports :: "string list"
  re_newTransports :: "string list"

datatype reload_error = DriversFailed string | TransportsFailed string | RulesFailed rule_error | DerivedFailed derived_error

definition diffDrivers ::
  "reload_env \<Rightarrow> driver_config list \<Rightarrow> driver_config list \<Rightarrow> bool \<Rightarrow> diff_actions \<Rightarrow> driver_registry \<Rightarrow>
   string option \<times> driver_registry \<times> diff_actions" where
  "diffDrivers E old new force act r =
     (case diff_components (AddDriver (re_driverOps E) (re_load E)) (RemoveDriver (re_driverOps E)) force
             (config_map dc_name old) (config_map dc_name new) (re_oldDrivers E) (re_newDrivers E) r of
        (err, r', rm, ad) \<Rightarrow>
          (err, r', act\<lparr>da_removedDrivers := da_removedDrivers act @ rm, da_addedDrivers := da_addedDrivers act @ ad\<rparr>))"

definition diffTransports ::
  "reload_env \<Rightarrow> transport_config list \<Rightarrow> transport_config list \<Rightarrow> bool \<Rightarrow> diff_actions \<Rightarrow> transport_manager \<Rightarrow>
   string option \<times> transport_manager \<times> diff_actions" where
  "diffTransports E old new force act m =
     (case diff_components (AddTransport (re_transportOps E)) (RemoveTransport (re_transportOps E)) force
             (config_map tc_Name old) (config_map tc_Name new) (re_oldTransports E) (re_newTransports E) m of
        (err, m', rm, ad) \<Rightarrow>
          (err, m', act\<lparr>da_removedTransports := da_removedTransports act @ rm,
                        da_addedTransports := da_addedTransports act @ ad\<rparr>))"

definition rollback :: "reload_env \<Rightarrow> core_config \<Rightarrow> diff_actions \<Rightarrow> executor \<Rightarrow> executor" where
  "rollback E oldCfg act s =
     s\<lparr>ex_transports := rollback_components (AddTransport (re_transportOps E)) (RemoveTransport (re_transportOps E))
          (da_removedTransports act) (da_addedTransports act) (ex_transports s),
       ex_drivers := rollback_components (AddDriver (re_driverOps E) (re_load E)) (RemoveDriver (re_driverOps E))
          (da_removedDrivers act) (da_addedDrivers act) (ex_drivers s),
       ex_rules :=
         (if da_rulesApplied act
          then case SetRules (re_lang E) (cf_Rules oldCfg) (ex_rules s) of Inl _ \<Rightarrow> ex_rules s | Inr e \<Rightarrow> e
          else ex_rules s)\<rparr>"

text \<open>\<^verbatim>\<open>log.ParseLevel\<close>, and \<^verbatim>\<open>Suspend\<close> and \<^verbatim>\<open>Resume\<close> of \<^verbatim>\<open>engine/runtime.go\<close>.\<close>

definition log_levels :: "string list" where
  "log_levels = [''debug'', ''info'', ''warn'', ''warning'', ''error'', ''silent'']"

definition Suspend :: "executor \<Rightarrow> executor" where
  "Suspend s = s\<lparr>ex_running := False, ex_drivers := (ex_drivers s)\<lparr>dr_scheduler := sched_Pause (dr_scheduler (ex_drivers s))\<rparr>\<rparr>"

definition Resume :: "executor \<Rightarrow> executor" where
  "Resume s = s\<lparr>ex_running := True, ex_drivers := (ex_drivers s)\<lparr>dr_scheduler := sched_Resume (dr_scheduler (ex_drivers s))\<rparr>\<rparr>"

definition empty_config :: core_config where
  "empty_config =
     \<lparr>cf_Node = \<lparr>nc_ID = [], nc_Role = [], nc_Subscribe = [], nc_TopicPrefix = []\<rparr>,
      cf_Global = \<lparr>gc_LogLevel = [], gc_LogFormat = [], gc_API = \<lparr>ac_Listen = [], ac_Secret = [], ac_TLSCert = [], ac_TLSKey = []\<rparr>,
        gc_Engine = \<lparr>ec_DataBusSize = 0, ec_Workers = 0, ec_ShutdownTimeout = [], ec_ErrorThrottleWindow = [],
          ec_DefaultTagInterval = [], ec_OnBadQuality = [], ec_StaleThreshold = [], ec_WriteRetryCount = 0,
          ec_CommandConcurrency = 0, ec_HighPriorityWorkers = 0, ec_DeadLetterPath = [], ec_WriteMinInterval = [],
          ec_WriteAuditPath = [], ec_AlertActiveWindow = []\<rparr>,
        gc_Buffer = \<lparr>bc_Enabled = False, bc_MaxSize = 0, bc_Path = []\<rparr>\<rparr>,
      cf_Drivers = [], cf_Transports = [], cf_Rules = [], cf_RuleGroups = [], cf_DerivedTags = []\<rparr>"

text \<open>Steps 3 to 5b of \<^verbatim>\<open>ApplyConfig\<close>, one definition per step, the last step first.\<close>

definition apply_derived ::
  "reload_env \<Rightarrow> core_config \<Rightarrow> core_config \<Rightarrow> bool \<Rightarrow> diff_actions \<Rightarrow> executor \<Rightarrow> reload_error option \<times> executor" where
  "apply_derived E old cfg force act s =
     (if force \<or> cf_DerivedTags old \<noteq> cf_DerivedTags cfg
      then (case applyDerivedTags (re_compile E) (cf_DerivedTags cfg) (ex_derived s) of
              (Some err, _) \<Rightarrow> (Some (DerivedFailed err), rollback E old act s)
            | (None, tags) \<Rightarrow> (None, s\<lparr>ex_derived := tags, ex_currentCfg := Some cfg\<rparr>))
      else (None, s\<lparr>ex_currentCfg := Some cfg\<rparr>))"

definition apply_rules ::
  "reload_env \<Rightarrow> core_config \<Rightarrow> core_config \<Rightarrow> bool \<Rightarrow> diff_actions \<Rightarrow> executor \<Rightarrow> reload_error option \<times> executor" where
  "apply_rules E old cfg force act s =
     (if force \<or> cf_Rules old \<noteq> cf_Rules cfg
      then (case SetRules (re_lang E) (cf_Rules cfg) (ex_rules s) of
              Inl err \<Rightarrow> (Some (RulesFailed err), rollback E old act s)
            | Inr e \<Rightarrow> apply_derived E old cfg force (act\<lparr>da_rulesApplied := True\<rparr>) (s\<lparr>ex_rules := e\<rparr>))
      else apply_derived E old cfg force act s)"

definition apply_transports ::
  "reload_env \<Rightarrow> core_config \<Rightarrow> core_config \<Rightarrow> bool \<Rightarrow> diff_actions \<Rightarrow> executor \<Rightarrow> reload_error option \<times> executor" where
  "apply_transports E old cfg force act s =
     (case diffTransports E (cf_Transports old) (cf_Transports cfg) force act (ex_transports s) of
        (Some err, m, act') \<Rightarrow> (Some (TransportsFailed err), rollback E old act' (s\<lparr>ex_transports := m\<rparr>))
      | (None, m, act') \<Rightarrow> apply_rules E old cfg force act' (s\<lparr>ex_transports := m\<rparr>))"

definition apply_drivers ::
  "reload_env \<Rightarrow> core_config \<Rightarrow> core_config \<Rightarrow> bool \<Rightarrow> diff_actions \<Rightarrow> executor \<Rightarrow> reload_error option \<times> executor" where
  "apply_drivers E old cfg force act s =
     (case diffDrivers E (cf_Drivers old) (cf_Drivers cfg) force act (ex_drivers s) of
        (Some err, r, act') \<Rightarrow> (Some (DriversFailed err), rollback E old act' (s\<lparr>ex_drivers := r\<rparr>))
      | (None, r, act') \<Rightarrow> apply_transports E old cfg force act' (s\<lparr>ex_drivers := r\<rparr>))"

definition ApplyConfig :: "reload_env \<Rightarrow> core_config \<Rightarrow> bool \<Rightarrow> executor \<Rightarrow> reload_error option \<times> executor" where
  "ApplyConfig E cfg force s =
     (let lvl = gc_LogLevel (cf_Global cfg);
          s = (if lvl \<noteq> [] \<and> lvl \<in> set log_levels then s\<lparr>ex_logLevel := lvl\<rparr> else s);
          old = (case ex_currentCfg s of Some c \<Rightarrow> c | None \<Rightarrow> empty_config);
          act = \<lparr>da_removedDrivers = [], da_addedDrivers = [], da_removedTransports = [], da_addedTransports = [],
                 da_rulesApplied = False\<rparr>;
          (err, s) = apply_drivers E old cfg force act (Suspend s)
      in (err, Resume s))"

section \<open>Reconciliation against the interface\<close>

text \<open>What the log of changes knows about the state: enough to restore the old set.\<close>

definition restorable ::
  "('c \<Rightarrow> string) \<Rightarrow> ('s \<Rightarrow> string \<rightharpoonup> 'c) \<Rightarrow> ('c \<Rightarrow> bool) \<Rightarrow> (string \<rightharpoonup> 'c) \<Rightarrow> 's \<Rightarrow> 'c list \<Rightarrow> string list \<Rightarrow> bool" where
  "restorable name_of view up oldM s rm ad \<longleftrightarrow>
     (\<forall>c\<in>set rm. oldM (name_of c) = Some c \<and> up c)
     \<and> (\<forall>n. n \<notin> set ad \<union> name_of ` set rm \<longrightarrow> view s n = oldM n)
     \<and> (\<forall>n\<in>set ad. n \<notin> name_of ` set rm \<longrightarrow> oldM n = None)"

text \<open>A map of configurations under their own names.\<close>

definition named :: "('c \<Rightarrow> string) \<Rightarrow> (string \<rightharpoonup> 'c) \<Rightarrow> bool" where
  "named name_of m \<longleftrightarrow> (\<forall>n c. m n = Some c \<longrightarrow> name_of c = n)"

lemma named_config_map: "named name_of (config_map name_of cs)"
  by (auto simp: named_def config_map_def dest!: map_of_SomeD)

context component_set
begin

lemma fold_remove_view:
  "view (fold (\<lambda>n s. snd (remove n s)) ns s) n = (if n \<in> set ns then None else view s n)"
  by (induction ns arbitrary: s) (auto simp: remove_view)

lemma fold_add_view:
  assumes "\<forall>c\<in>set cs. oldM (name_of c) = Some c \<and> up c"
  shows "view (fold (\<lambda>c s. snd (add c s)) cs s) n = (if n \<in> name_of ` set cs then oldM n else view s n)"
  using assms by (induction cs arbitrary: s) (auto simp: add_succeeds)

lemma rollback_restores:
  assumes "restorable name_of view up oldM s rm ad"
  shows "view (rollback_components add remove rm ad s) = oldM"
proof
  fix n
  have "\<forall>c\<in>set (rev rm). oldM (name_of c) = Some c \<and> up c" using assms by (simp add: restorable_def)
  from fold_add_view [OF this] show "view (rollback_components add remove rm ad s) n = oldM n"
    using assms by (auto simp: rollback_components_def fold_remove_view restorable_def)
qed

lemma removals_restorable:
  assumes "restorable name_of view up oldM s rm []" "set ns \<subseteq> dom oldM" "named name_of oldM"
    and "\<forall>n c. oldM n = Some c \<longrightarrow> up c \<and> down c" "distinct ns" "\<forall>n\<in>set ns. view s n = oldM n"
    and "diff_removals remove oldM newM ns s rm = (err, s', rm')"
  shows "restorable name_of view up oldM s' rm' []"
  using assms
proof (induction ns arbitrary: s rm)
  case Nil
  then show ?case by simp
next
  case (Cons n ns)
  show ?case
  proof (cases "newM n")
    case (Some x)
    with Cons.IH [of s rm] Cons.prems show ?thesis by simp
  next
    case None
    obtain c where c: "oldM n = Some c" "view s n = Some c" "name_of c = n" "up c" "down c"
      using Cons.prems(2-4,6) by (auto simp: named_def)
    obtain s1 where r: "remove n s = (None, s1)" "view s1 = (view s)(n := None)"
      using remove_result [OF c(2)] c(5) remove_view [of n s] by (cases "remove n s") simp
    have "restorable name_of view up oldM s1 (rm @ [c]) []"
      using Cons.prems(1) c r(2) by (auto simp: restorable_def)
    moreover have "\<forall>k\<in>set ns. view s1 k = oldM k" using Cons.prems(5,6) r(2) by auto
    moreover have "diff_removals remove oldM newM ns s1 (rm @ [c]) = (err, s', rm')"
      using Cons.prems(7) None r(1) c(1) by simp
    ultimately show ?thesis using Cons.IH Cons.prems(2-5) by simp
  qed
qed

lemma removals_view:
  assumes "diff_removals remove oldM newM ns s rm = (None, s', rm')"
  shows "view s' n = (if n \<in> set ns \<and> newM n = None then None else view s n)"
  using assms
proof (induction ns arbitrary: s rm)
  case (Cons k ns)
  show ?case
  proof (cases "newM k")
    case (Some x)
    with Cons.IH [of s rm] Cons.prems show ?thesis by auto
  next
    case None
    then obtain s1 rm1 where r: "remove k s = (None, s1)" "diff_removals remove oldM newM ns s1 rm1 = (None, s', rm')"
      using Cons.prems by (auto split: prod.splits option.splits)
    have "view s1 = (view s)(k := None)" using remove_view [of k s] r(1) by simp
    with Cons.IH [OF r(2)] None show ?thesis by auto
  qed
qed simp

lemma restorable_removed:
  assumes "restorable name_of view up oldM s rm ad" "oldM (name_of c) = Some c" "up c"
    and "\<forall>n. n \<noteq> name_of c \<longrightarrow> view s' n = view s n"
  shows "restorable name_of view up oldM s' (rm @ [c]) ad"
  using assms by (auto simp: restorable_def)

lemma restorable_added:
  assumes "restorable name_of view up oldM s rm ad" "\<forall>k. k \<noteq> n \<longrightarrow> view s' k = view s k"
    and "n \<in> name_of ` set rm \<or> oldM n = None"
  shows "restorable name_of view up oldM s' rm (ad @ [n])"
  using assms by (auto simp: restorable_def)

text \<open>One turn of the second loop: either it stops with an error and everything restorable, or it settles the name.\<close>

lemma change_turn:
  assumes "restorable name_of view up oldM s rm ad" "view s n = oldM n" "newM n = Some c" "name_of c = n"
    and "named name_of oldM" "\<forall>n c. oldM n = Some c \<longrightarrow> up c \<and> down c"
  obtains (stop) e s' rm' where "diff_changes add remove force oldM newM (n # ns) s rm ad = (Some e, s', rm', ad)"
      "restorable name_of view up oldM s' rm' ad"
    | (go) s' rm' ad' where "diff_changes add remove force oldM newM (n # ns) s rm ad =
        diff_changes add remove force oldM newM ns s' rm' ad'"
      "restorable name_of view up oldM s' rm' ad'" "view s' = (view s)(n \<mapsto> c)"
proof (cases "oldM n")
  case None
  obtain err s1 where a: "add c s = (err, s1)" by (cases "add c s")
  show ?thesis
  proof (cases "up c")
    case True
    then have "err = None" "view s1 = (view s)(n \<mapsto> c)" using add_succeeds [OF True, of s] a assms(4) by simp_all
    with restorable_added [OF assms(1), of n s1] None a assms(3) show ?thesis by (intro go [of s1 rm "ad @ [n]"]) simp_all
  next
    case False
    then obtain e where "err = Some e" and v: "view s1 = view s" using add_fails [OF False, of s] a by auto
    moreover have "restorable name_of view up oldM s1 rm ad" using assms(1) v by (simp add: restorable_def)
    ultimately show ?thesis using None a assms(3) by (intro stop [of "''failed to add '' @ n @ '': '' @ e" s1 rm]) simp_all
  qed
next
  case (Some old)
  have old: "name_of old = n" "up old" "down old" "view s n = Some old"
    using Some assms(2,5,6) by (auto simp: named_def)
  show ?thesis
  proof (cases "force \<or> old \<noteq> c")
    case False
    with Some assms(1,2,3) old(4) show ?thesis by (intro go [of s rm ad]) (simp_all add: fun_upd_idem)
  next
    case True
    obtain s1 where r: "remove n s = (None, s1)" "view s1 = (view s)(n := None)"
      using remove_result [OF old(4)] old(3) remove_view [of n s] by (cases "remove n s") simp
    have R: "restorable name_of view up oldM s1 (rm @ [old]) ad"
      using restorable_removed [OF assms(1), of old s1] Some old r(2) by simp
    obtain err s2 where a: "add c s1 = (err, s2)" by (cases "add c s1")
    show ?thesis
    proof (cases "up c")
      case up: True
      have v: "err = None" "view s2 = (view s)(n \<mapsto> c)" using add_succeeds [OF up, of s1] a r(2) assms(4) by simp_all
      have "restorable name_of view up oldM s2 (rm @ [old]) (ad @ [n])"
        using restorable_added [OF R, of n s2] v(2) r(2) old(1) by simp
      with True Some r(1) a v assms(3) show ?thesis by (intro go [of s2 "rm @ [old]" "ad @ [n]"]) simp_all
    next
      case down: False
      then obtain e where e: "err = Some e" and v: "view s2 = view s1" using add_fails [OF down, of s1] a by auto
      have "restorable name_of view up oldM s2 (rm @ [old]) ad" using R v by (simp add: restorable_def)
      with True Some r(1) a e assms(3) show ?thesis
        by (intro stop [of "''failed to restart '' @ n @ '': '' @ e" s2 "rm @ [old]"]) simp_all
    qed
  qed
qed

lemma changes_correct:
  assumes "restorable name_of view up oldM s rm ad" "\<forall>n\<in>set ns. view s n = oldM n" "distinct ns"
    and "set ns \<subseteq> dom newM" "named name_of newM" "named name_of oldM" "\<forall>n c. oldM n = Some c \<longrightarrow> up c \<and> down c"
    and "diff_changes add remove force oldM newM ns s rm ad = (err, s', rm', ad')"
  shows "restorable name_of view up oldM s' rm' ad'
    \<and> (err = None \<longrightarrow> (\<forall>n. view s' n = (if n \<in> set ns then newM n else view s n)))"
  using assms
proof (induction ns arbitrary: s rm ad)
  case Nil
  then show ?case by simp
next
  case (Cons n ns)
  obtain c where c: "newM n = Some c" "name_of c = n" using Cons.prems(4,5) by (auto simp: named_def)
  have "view s n = oldM n" using Cons.prems(2) by simp
  from Cons.prems(1) this c Cons.prems(6,7) show ?case
  proof (cases rule: change_turn [where force = force and ns = ns])
    case (stop e t rm1)
    with Cons.prems(8) show ?thesis by simp
  next
    case (go t rm1 ad1)
    have "\<forall>k\<in>set ns. view t k = oldM k" using go(3) Cons.prems(2,3) by auto
    moreover have "diff_changes add remove force oldM newM ns t rm1 ad1 = (err, s', rm', ad')"
      using go(1) Cons.prems(8) by simp
    ultimately show ?thesis using Cons.IH [OF go(2)] Cons.prems(3-7) go(3) c(1) by auto
  qed
qed

text \<open>
  The reconciliation: it can always be rolled back to the old set, and when it ends without an error
  the new set is running.
\<close>

lemma diff_correct:
  assumes "view s = oldM" "set ordOld = dom oldM" "distinct ordOld" "set ordNew = dom newM" "distinct ordNew"
    and "named name_of oldM" "named name_of newM" "\<forall>n c. oldM n = Some c \<longrightarrow> up c \<and> down c"
    and "diff_components add remove force oldM newM ordOld ordNew s = (err, s', rm, ad)"
  shows "view (rollback_components add remove rm ad s') = oldM \<and> (err = None \<longrightarrow> view s' = newM)"
proof -
  obtain e1 s1 rm1 where d1: "diff_removals remove oldM newM ordOld s [] = (e1, s1, rm1)" by (metis prod_cases3)
  have "restorable name_of view up oldM s [] []" using assms(1) by (simp add: restorable_def)
  then have R1: "restorable name_of view up oldM s1 rm1 []"
    using removals_restorable [OF _ _ assms(6,8,3) _ d1] assms(1,2) by simp
  show ?thesis
  proof (cases e1)
    case (Some e)
    with d1 assms(9) R1 show ?thesis by (auto simp: diff_components_def intro: rollback_restores)
  next
    case None
    have v1: "view s1 n = (if newM n = None then None else oldM n)" for n
      using removals_view [OF d1 [unfolded None], of n] assms(1,2) by (auto simp: domIff)
    have d2: "diff_changes add remove force oldM newM ordNew s1 rm1 [] = (err, s', rm, ad)"
      using assms(9) d1 None by (simp add: diff_components_def)
    have same: "\<forall>n\<in>set ordNew. view s1 n = oldM n" using v1 assms(4) by auto
    have sub: "set ordNew \<subseteq> dom newM" using assms(4) by simp
    note C = changes_correct [OF R1 same assms(5) sub assms(7,6,8) d2]
    have "view s' = newM" if "err = None"
    proof
      fix n
      show "view s' n = newM n" using C that v1 [of n] assms(4) by (cases "newM n") auto
    qed
    with C show ?thesis by (auto intro: rollback_restores)
  qed
qed

end

section \<open>A reload is atomic\<close>

definition enumerates :: "string list \<Rightarrow> (string \<rightharpoonup> 'c) \<Rightarrow> bool" where
  "enumerates ns m \<longleftrightarrow> distinct ns \<and> set ns = dom m"

text \<open>
  The situation before a reload: the components of the old configuration are running, each of them can
  be stopped and brought up again, and the orders enumerate the maps.
\<close>

definition reload_ready :: "reload_env \<Rightarrow> core_config \<Rightarrow> core_config \<Rightarrow> executor \<Rightarrow> bool" where
  "reload_ready E old cfg s \<longleftrightarrow>
     ex_currentCfg s = Some old
     \<and> dr_drivers (ex_drivers s) = config_map dc_name (cf_Drivers old)
     \<and> xm_transports (ex_transports s) = config_map tc_Name (cf_Transports old)
     \<and> (\<forall>n c. config_map dc_name (cf_Drivers old) n = Some c \<longrightarrow> driver_up (re_driverOps E) c = None \<and> cp_stop (re_driverOps E) c = None)
     \<and> (\<forall>n c. config_map tc_Name (cf_Transports old) n = Some c \<longrightarrow>
          transport_up (re_transportOps E) c = None \<and> cp_stop (re_transportOps E) c = None)
     \<and> enumerates (re_oldDrivers E) (config_map dc_name (cf_Drivers old))
     \<and> enumerates (re_newDrivers E) (config_map dc_name (cf_Drivers cfg))
     \<and> enumerates (re_oldTransports E) (config_map tc_Name (cf_Transports old))
     \<and> enumerates (re_newTransports E) (config_map tc_Name (cf_Transports cfg))"

definition applied :: "reload_env \<Rightarrow> core_config \<Rightarrow> core_config \<Rightarrow> bool \<Rightarrow> executor \<Rightarrow> executor \<Rightarrow> bool" where
  "applied E old cfg force s s' \<longleftrightarrow>
     dr_drivers (ex_drivers s') = config_map dc_name (cf_Drivers cfg)
     \<and> xm_transports (ex_transports s') = config_map tc_Name (cf_Transports cfg)
     \<and> ex_currentCfg s' = Some cfg
     \<and> (if force \<or> cf_Rules old \<noteq> cf_Rules cfg
        then SetRules (re_lang E) (cf_Rules cfg) (ex_rules s) = Inr (ex_rules s') else ex_rules s' = ex_rules s)
     \<and> (if force \<or> cf_DerivedTags old \<noteq> cf_DerivedTags cfg
        then newDerivedTagEvaluator (re_compile E) (cf_DerivedTags cfg) = Inr (ex_derived s') else ex_derived s' = ex_derived s)"

definition restored :: "engine \<Rightarrow> executor \<Rightarrow> executor \<Rightarrow> bool" where
  "restored e_old s s' \<longleftrightarrow>
     dr_drivers (ex_drivers s') = dr_drivers (ex_drivers s)
     \<and> xm_transports (ex_transports s') = xm_transports (ex_transports s)
     \<and> ex_currentCfg s' = ex_currentCfg s \<and> ex_derived s' = ex_derived s
     \<and> (ex_rules s' = ex_rules s \<or> ex_rules s' = e_old)"

text \<open>A rule set replaces the previous one without a trace.\<close>

lemma SetRules_twice: "SetRules L new e = Inr e1 \<Longrightarrow> SetRules L old e1 = SetRules L old e"
  by (auto simp: SetRules_def Let_def split: sum.splits prod.splits)

text \<open>What the steps keep: the log restores the two registries of the initial state \<open>s\<close>.\<close>

definition undoable :: "reload_env \<Rightarrow> diff_actions \<Rightarrow> executor \<Rightarrow> executor \<Rightarrow> bool" where
  "undoable E act s t \<longleftrightarrow>
     dr_drivers (rollback_components (AddDriver (re_driverOps E) (re_load E)) (RemoveDriver (re_driverOps E))
        (da_removedDrivers act) (da_addedDrivers act) (ex_drivers t)) = dr_drivers (ex_drivers s)
     \<and> xm_transports (rollback_components (AddTransport (re_transportOps E)) (RemoveTransport (re_transportOps E))
        (da_removedTransports act) (da_addedTransports act) (ex_transports t)) = xm_transports (ex_transports s)
     \<and> ex_currentCfg t = ex_currentCfg s \<and> ex_derived t = ex_derived s
     \<and> (if da_rulesApplied act then \<exists>cfgs. SetRules (re_lang E) cfgs (ex_rules s) = Inr (ex_rules t) else ex_rules t = ex_rules s)"

lemma rollback_restored:
  assumes "undoable E act s t" "SetRules (re_lang E) (cf_Rules old) (ex_rules s) = Inr e_old"
  shows "restored e_old s (rollback E old act t)"
proof (cases "da_rulesApplied act")
  case True
  then obtain cfgs where "SetRules (re_lang E) cfgs (ex_rules s) = Inr (ex_rules t)" using assms(1) by (auto simp: undoable_def)
  from SetRules_twice [OF this] assms True show ?thesis by (simp add: restored_def undoable_def rollback_def)
next
  case False
  with assms(1) show ?thesis by (simp add: restored_def undoable_def rollback_def)
qed

lemma apply_derived_outcome:
  assumes "undoable E act s t" "SetRules (re_lang E) (cf_Rules old) (ex_rules s) = Inr e_old"
    and "dr_drivers (ex_drivers t) = config_map dc_name (cf_Drivers cfg)"
    and "xm_transports (ex_transports t) = config_map tc_Name (cf_Transports cfg)"
    and "if force \<or> cf_Rules old \<noteq> cf_Rules cfg
         then SetRules (re_lang E) (cf_Rules cfg) (ex_rules s) = Inr (ex_rules t) else ex_rules t = ex_rules s"
    and "apply_derived E old cfg force act t = (err, s')"
  shows "(err = None \<longrightarrow> applied E old cfg force s s') \<and> (err \<noteq> None \<longrightarrow> restored e_old s s')"
proof -
  have d: "ex_derived t = ex_derived s" using assms(1) by (simp add: undoable_def)
  show ?thesis
  proof (cases "force \<or> cf_DerivedTags old \<noteq> cf_DerivedTags cfg")
    case False
    with assms(3-6) d show ?thesis by (auto simp: apply_derived_def applied_def)
  next
    case True
    obtain e tags where a: "applyDerivedTags (re_compile E) (cf_DerivedTags cfg) (ex_derived t) = (e, tags)"
      by (cases "applyDerivedTags (re_compile E) (cf_DerivedTags cfg) (ex_derived t)")
    show ?thesis
    proof (cases e)
      case None
      then have "newDerivedTagEvaluator (re_compile E) (cf_DerivedTags cfg) = Inr tags"
        using a by (auto simp: applyDerivedTags_def split: option.splits sum.splits)
      with None True a assms(3-6) show ?thesis by (auto simp: apply_derived_def applied_def)
    next
      case (Some x)
      with True a assms(6) rollback_restored [OF assms(1,2)] show ?thesis by (auto simp: apply_derived_def)
    qed
  qed
qed

lemma apply_rules_outcome:
  assumes "undoable E act s t" "\<not> da_rulesApplied act" "SetRules (re_lang E) (cf_Rules old) (ex_rules s) = Inr e_old"
    and "dr_drivers (ex_drivers t) = config_map dc_name (cf_Drivers cfg)"
    and "xm_transports (ex_transports t) = config_map tc_Name (cf_Transports cfg)"
    and "apply_rules E old cfg force act t = (err, s')"
  shows "(err = None \<longrightarrow> applied E old cfg force s s') \<and> (err \<noteq> None \<longrightarrow> restored e_old s s')"
proof -
  have r: "ex_rules t = ex_rules s" using assms(1,2) by (simp add: undoable_def)
  show ?thesis
  proof (cases "force \<or> cf_Rules old \<noteq> cf_Rules cfg")
    case False
    then have "apply_derived E old cfg force act t = (err, s')" using assms(6) by (auto simp: apply_rules_def)
    from apply_derived_outcome [OF assms(1,3,4,5) _ this] False r show ?thesis by simp
  next
    case True
    show ?thesis
    proof (cases "SetRules (re_lang E) (cf_Rules cfg) (ex_rules s)")
      case (Inl x)
      with True r assms(6) rollback_restored [OF assms(1,3)] show ?thesis by (auto simp: apply_rules_def)
    next
      case (Inr e)
      let ?act = "act\<lparr>da_rulesApplied := True\<rparr>" and ?t = "t\<lparr>ex_rules := e\<rparr>"
      have u: "undoable E ?act s ?t" using assms(1) Inr by (auto simp: undoable_def)
      have "apply_derived E old cfg force ?act ?t = (err, s')" using True Inr r assms(6) by (simp add: apply_rules_def)
      from apply_derived_outcome [OF u assms(3) _ _ _ this] assms(4,5) Inr True show ?thesis by simp
    qed
  qed
qed

lemma apply_transports_outcome:
  assumes ready: "reload_ready E old cfg s"
    and "undoable E act s t" "\<not> da_rulesApplied act" "da_removedTransports act = []" "da_addedTransports act = []"
    and e_old: "SetRules (re_lang E) (cf_Rules old) (ex_rules s) = Inr e_old"
    and "ex_transports t = ex_transports s" "dr_drivers (ex_drivers t) = config_map dc_name (cf_Drivers cfg)"
    and "apply_transports E old cfg force act t = (err, s')"
  shows "(err = None \<longrightarrow> applied E old cfg force s s') \<and> (err \<noteq> None \<longrightarrow> restored e_old s s')"
proof -
  let ?old = "config_map tc_Name (cf_Transports old)" and ?new = "config_map tc_Name (cf_Transports cfg)"
  obtain e m rm ad where d: "diff_components (AddTransport (re_transportOps E)) (RemoveTransport (re_transportOps E)) force
      ?old ?new (re_oldTransports E) (re_newTransports E) (ex_transports t) = (e, m, rm, ad)" by (metis prod_cases4)
  have "xm_transports (rollback_components (AddTransport (re_transportOps E)) (RemoveTransport (re_transportOps E)) rm ad m) = ?old
      \<and> (e = None \<longrightarrow> xm_transports m = ?new)"
    by (rule transports.diff_correct [OF _ _ _ _ _ named_config_map named_config_map _ d])
       (use ready assms(7) in \<open>auto simp: reload_ready_def enumerates_def\<close>)
  then have undo: "xm_transports (rollback_components (AddTransport (re_transportOps E)) (RemoveTransport (re_transportOps E)) rm ad m)
      = xm_transports (ex_transports s)" and new: "e = None \<Longrightarrow> xm_transports m = ?new"
    using ready by (auto simp: reload_ready_def)
  let ?act = "act\<lparr>da_removedTransports := rm, da_addedTransports := ad\<rparr>" and ?t = "t\<lparr>ex_transports := m\<rparr>"
  have u: "undoable E ?act s ?t" using assms(2) undo by (simp add: undoable_def)
  show ?thesis
  proof (cases e)
    case (Some x)
    with d assms(4,5,9) rollback_restored [OF u e_old] show ?thesis by (auto simp: apply_transports_def diffTransports_def)
  next
    case None
    with d assms(4,5,9) have "apply_rules E old cfg force ?act ?t = (err, s')"
      by (simp add: apply_transports_def diffTransports_def)
    from apply_rules_outcome [OF u _ e_old _ _ this] assms(3,8) new [OF None] show ?thesis by simp
  qed
qed

lemma apply_drivers_outcome:
  assumes ready: "reload_ready E old cfg s" and e_old: "SetRules (re_lang E) (cf_Rules old) (ex_rules s) = Inr e_old"
    and act: "act = \<lparr>da_removedDrivers = [], da_addedDrivers = [], da_removedTransports = [], da_addedTransports = [], da_rulesApplied = False\<rparr>"
    and run: "apply_drivers E old cfg force act s = (err, s')"
  shows "(err = None \<longrightarrow> applied E old cfg force s s') \<and> (err \<noteq> None \<longrightarrow> restored e_old s s')"
proof -
  let ?old = "config_map dc_name (cf_Drivers old)" and ?new = "config_map dc_name (cf_Drivers cfg)"
  obtain e r rm ad where d: "diff_components (AddDriver (re_driverOps E) (re_load E)) (RemoveDriver (re_driverOps E)) force
      ?old ?new (re_oldDrivers E) (re_newDrivers E) (ex_drivers s) = (e, r, rm, ad)" by (metis prod_cases4)
  have "dr_drivers (rollback_components (AddDriver (re_driverOps E) (re_load E)) (RemoveDriver (re_driverOps E)) rm ad r) = ?old
      \<and> (e = None \<longrightarrow> dr_drivers r = ?new)"
    by (rule drivers.diff_correct [OF _ _ _ _ _ named_config_map named_config_map _ d])
       (use ready in \<open>auto simp: reload_ready_def enumerates_def\<close>)
  then have undo: "dr_drivers (rollback_components (AddDriver (re_driverOps E) (re_load E)) (RemoveDriver (re_driverOps E)) rm ad r)
      = dr_drivers (ex_drivers s)" and new: "e = None \<Longrightarrow> dr_drivers r = ?new"
    using ready by (auto simp: reload_ready_def)
  let ?act = "act\<lparr>da_removedDrivers := rm, da_addedDrivers := ad\<rparr>" and ?t = "s\<lparr>ex_drivers := r\<rparr>"
  have u: "undoable E ?act s ?t" using undo by (simp add: undoable_def act rollback_components_def)
  show ?thesis
  proof (cases e)
    case (Some x)
    with d run rollback_restored [OF u e_old] show ?thesis by (auto simp: apply_drivers_def diffDrivers_def act)
  next
    case None
    with d run have "apply_transports E old cfg force ?act ?t = (err, s')"
      by (simp add: apply_drivers_def diffDrivers_def act)
    from apply_transports_outcome [OF ready u _ _ _ e_old _ _ this] new [OF None] show ?thesis by (simp add: act)
  qed
qed

lemma reload_ready_prepare:
  "reload_ready E old cfg (Suspend (s\<lparr>ex_logLevel := l\<rparr>)) = reload_ready E old cfg s"
  by (simp add: reload_ready_def Suspend_def)

text \<open>
  C5. A configuration reload is atomic. When the components of the old configuration are running and
  can be stopped and started, a reload that succeeds leaves exactly the components of the new
  configuration running, with the new rules and derived tags, and makes it the current one; a reload
  that fails, whatever new component, rule or expression is at fault, leaves the same drivers and
  transports running as before, the same derived tags, the old rules (as they were or rebuilt from
  the old configuration) and the old configuration as the current one. Collection is running again in
  both cases.
\<close>

theorem reload_atomic:
  assumes "reload_ready E old cfg s" and "SetRules (re_lang E) (cf_Rules old) (ex_rules s) = Inr e_old"
    and "ApplyConfig E cfg force s = (err, s')"
  shows "(err = None \<longrightarrow> applied E old cfg force s s') \<and> (err \<noteq> None \<longrightarrow> restored e_old s s')
    \<and> ex_running s' \<and> \<not> sc_globalPaused (dr_scheduler (ex_drivers s'))"
proof -
  let ?lvl = "gc_LogLevel (cf_Global cfg)"
  define s0 where "s0 = Suspend (s\<lparr>ex_logLevel := (if ?lvl \<noteq> [] \<and> ?lvl \<in> set log_levels then ?lvl else ex_logLevel s)\<rparr>)"
  let ?act = "\<lparr>da_removedDrivers = [], da_addedDrivers = [], da_removedTransports = [], da_addedTransports = [], da_rulesApplied = False\<rparr>"
  obtain e t where run: "apply_drivers E old cfg force ?act s0 = (e, t)" by (cases "apply_drivers E old cfg force ?act s0")
  have "ex_currentCfg s = Some old" using assms(1) by (simp add: reload_ready_def)
  then have s': "err = e" "s' = Resume t"
    using assms(3) run by (auto simp: ApplyConfig_def s0_def Let_def split: if_splits)
  have ready: "reload_ready E old cfg s0" using assms(1) by (simp add: s0_def reload_ready_prepare)
  have e_old: "SetRules (re_lang E) (cf_Rules old) (ex_rules s0) = Inr e_old" using assms(2) by (simp add: s0_def Suspend_def)
  have "(e = None \<longrightarrow> applied E old cfg force s0 t) \<and> (e \<noteq> None \<longrightarrow> restored e_old s0 t)"
    by (rule apply_drivers_outcome [OF ready e_old refl run])
  then show ?thesis unfolding s' by (auto simp: applied_def restored_def s0_def Suspend_def Resume_def sched_Resume_def)
qed

text \<open>
  Without the assumption on \<^verbatim>\<open>Stop\<close> it is not: when stopping a removed driver reports an error, the
  driver is out of the registry but not in the log, and the rollback does not bring it back.
\<close>

lemma failed_stop_loses_driver:
  assumes "ex_currentCfg s = Some old" "cf_Drivers old = [c]" "cf_Drivers cfg = []"
    and "dr_drivers (ex_drivers s) (dc_name c) = Some c" "cp_stop (re_driverOps E) c = Some e" "re_oldDrivers E = [dc_name c]"
    and "ApplyConfig E cfg force s = (err, s')"
  shows "err \<noteq> None \<and> dr_drivers (ex_drivers s') (dc_name c) = None"
proof -
  let ?lvl = "gc_LogLevel (cf_Global cfg)"
  define s0 where "s0 = Suspend (s\<lparr>ex_logLevel := (if ?lvl \<noteq> [] \<and> ?lvl \<in> set log_levels then ?lvl else ex_logLevel s)\<rparr>)"
  let ?act = "\<lparr>da_removedDrivers = [], da_addedDrivers = [], da_removedTransports = [], da_addedTransports = [], da_rulesApplied = False\<rparr>"
  have c: "dr_drivers (ex_drivers s0) (dc_name c) = Some c" using assms(4) by (simp add: s0_def Suspend_def)
  obtain r where r: "RemoveDriver (re_driverOps E) (dc_name c) (ex_drivers s0) = (Some e, r)"
    using RemoveDriver_result(2) [OF c, of "re_driverOps E"] assms(5) by (metis prod.collapse)
  have gone: "dr_drivers r (dc_name c) = None"
    using RemoveDriver_result(1) [of "re_driverOps E" "dc_name c" "ex_drivers s0"] r by simp
  obtain msg where d: "diffDrivers E (cf_Drivers old) (cf_Drivers cfg) force ?act (ex_drivers s0) = (Some msg, r, ?act)"
    using r assms(2,3,6) by (simp add: diffDrivers_def diff_components_def config_map_def)
  have "ApplyConfig E cfg force s = (Some (DriversFailed msg), Resume (rollback E old ?act (s0\<lparr>ex_drivers := r\<rparr>)))"
    using d assms(1) by (auto simp: ApplyConfig_def Let_def apply_drivers_def s0_def)
  with gone assms(7) show ?thesis by (auto simp: Resume_def rollback_def rollback_components_def)
qed

definition demo_reload_ops :: "driver_config component_ops" where
  "demo_reload_ops = demo_ops\<lparr>cp_start := (\<lambda>c. if dc_name c = ''bad'' then Some ''no route'' else None)\<rparr>"

definition demo_env :: reload_env where
  "demo_env = \<lparr>re_driverOps = demo_reload_ops, re_transportOps = demo_ops, re_load = (\<lambda>_. None), re_lang = demo_lang,
     re_compile = (\<lambda>_. None), re_oldDrivers = [''plc''], re_newDrivers = [''bad''], re_oldTransports = [], re_newTransports = []\<rparr>"

definition demo_old :: core_config where "demo_old = empty_config\<lparr>cf_Drivers := [demo_driver ''plc'' []]\<rparr>"
definition demo_new :: core_config where "demo_new = empty_config\<lparr>cf_Drivers := [demo_driver ''bad'' []]\<rparr>"

definition demo_executor :: executor where
  "demo_executor =
     \<lparr>ex_drivers = snd (AddDriver demo_reload_ops (\<lambda>_. None) (demo_driver ''plc'' []) (new_registry second)),
      ex_transports = \<lparr>xm_transports = Map.empty, xm_transportCfg = Map.empty, xm_batchers = Map.empty, xm_cancels = {}, xm_stopped = [],
        xm_hasOffline = False, xm_shutdownTimeout = 0, xm_running = True\<rparr>,
      ex_rules = NewEngine, ex_derived = [], ex_logLevel = ''info'', ex_running = True, ex_currentCfg = Some demo_old\<rparr>"

lemma demo_up:
  "driver_up demo_reload_ops (demo_driver ''plc'' []) = None" "driver_up demo_reload_ops (demo_driver ''bad'' []) \<noteq> None"
  by (simp_all add: driver_up_def bring_up_def CreateDriver_def demo_reload_ops_def demo_ops_def demo_driver_def)

lemma demo_name [simp]: "dc_name (demo_driver x t) = x"
  by (simp add: demo_driver_def)

lemma demo_stop [simp]: "cp_stop demo_reload_ops c = None"
  by (simp add: demo_reload_ops_def demo_ops_def)

lemma demo_maps:
  "config_map dc_name (cf_Drivers demo_old) = [''plc'' \<mapsto> demo_driver ''plc'' []]"
  "config_map dc_name (cf_Drivers demo_new) = [''bad'' \<mapsto> demo_driver ''bad'' []]"
  "config_map tc_Name (cf_Transports demo_old) = Map.empty" "config_map tc_Name (cf_Transports demo_new) = Map.empty"
  by (simp_all add: config_map_def demo_old_def demo_new_def empty_config_def)

lemma demo_drivers: "dr_drivers (ex_drivers demo_executor) = [''plc'' \<mapsto> demo_driver ''plc'' []]"
  by (simp add: demo_executor_def AddDriver_result demo_up new_registry_def)

lemma demo_ready: "reload_ready demo_env demo_old demo_new demo_executor"
  unfolding reload_ready_def demo_drivers demo_maps
  by (simp add: demo_executor_def demo_env_def enumerates_def demo_up)

lemma demo_reload_fails: "fst (ApplyConfig demo_env demo_new False demo_executor) \<noteq> None"
proof -
  define s0 where "s0 = Suspend demo_executor"
  let ?act = "\<lparr>da_removedDrivers = [], da_addedDrivers = [], da_removedTransports = [], da_addedTransports = [], da_rulesApplied = False\<rparr>"
  have d: "dr_drivers (ex_drivers s0) ''plc'' = Some (demo_driver ''plc'' [])"
    using demo_drivers by (simp add: s0_def Suspend_def)
  obtain r where r: "RemoveDriver demo_reload_ops ''plc'' (ex_drivers s0) = (None, r)"
    using RemoveDriver_result(2) [OF d, of demo_reload_ops] by (metis demo_stop prod.collapse)
  obtain e r' where a: "AddDriver demo_reload_ops (\<lambda>_. None) (demo_driver ''bad'' []) r = (Some e, r')"
    using AddDriver_result(1) [of demo_reload_ops "\<lambda>_. None" "demo_driver ''bad'' []" r] demo_up(2)
    by (metis not_None_eq prod.collapse)
  have E: "re_driverOps demo_env = demo_reload_ops" "re_load demo_env = (\<lambda>_. None)" "re_oldDrivers demo_env = [''plc'']"
    "re_newDrivers demo_env = [''bad'']" by (simp_all add: demo_env_def)
  have "fst (diffDrivers demo_env (cf_Drivers demo_old) (cf_Drivers demo_new) False ?act (ex_drivers s0)) \<noteq> None"
    by (simp add: diffDrivers_def diff_components_def demo_maps E r a)
  then have f: "fst (apply_drivers demo_env demo_old demo_new False ?act s0) \<noteq> None"
    by (auto simp: apply_drivers_def split: prod.splits option.splits)
  have "gc_LogLevel (cf_Global demo_new) = []" "ex_currentCfg demo_executor = Some demo_old"
    by (simp_all add: demo_new_def empty_config_def demo_executor_def)
  then show ?thesis using f by (auto simp: ApplyConfig_def Let_def s0_def split: prod.splits)
qed

theorem reload_atomic_witness:
  "\<exists>err s'. ApplyConfig demo_env demo_new False demo_executor = (err, s') \<and> err \<noteq> None
     \<and> dr_drivers (ex_drivers s') = [''plc'' \<mapsto> demo_driver ''plc'' []] \<and> ex_currentCfg s' = Some demo_old"
proof -
  obtain err s' where a: "ApplyConfig demo_env demo_new False demo_executor = (err, s')"
    by (cases "ApplyConfig demo_env demo_new False demo_executor")
  have r: "SetRules (re_lang demo_env) (cf_Rules demo_old) (ex_rules demo_executor) = Inr NewEngine"
    by (simp add: demo_old_def empty_config_def demo_executor_def SetRules_def wrap_rules_def NewEngine_def)
  have e: "err \<noteq> None" using demo_reload_fails a by simp
  then have "restored NewEngine demo_executor s'" using reload_atomic [OF demo_ready r a] by blast
  moreover have "ex_currentCfg demo_executor = Some demo_old" by (simp add: demo_executor_def)
  ultimately show ?thesis using a e demo_drivers by (auto simp: restored_def)
qed

end
