(* ===== verification/Spec2Isabelle.thy ===== *)
theory Spec2Isabelle
  imports Prelude Core_Types Data_Bus Latest_Cache Regex Rule_Expr Rule_Engine Rule_Match Rule_Props
    Go_Fmt Write_Manager Alerts Fan_Out Go_Float Go_Util Driver_Base S7_Driver S7_Props S7_Wire
    Modbus_Driver Modbus_Props Modbus_Correct Offline_Buffer
    Go_Time Batcher Scheduler Scheduler_Props Derived Processing Registry Config_Validate Executor
begin

text \<open>
  \<^bold>\<open>A verification of CoreC\<close>

  CoreC is an industrial gateway written in Go. Southbound drivers read tags from controllers, a
  scheduler decides when, a data bus carries the values as points to workers, the workers cache them,
  match them against rules and publish them to northbound transports, and commands travel the other
  way, from a transport through the write manager to a driver. This development models the parts
  that decide what happens to a value or a command, and proves what they promise. Paths below are
  relative to \<^verbatim>\<open>src/\<close>.

  \<^bold>\<open>The way of a point and the theories along it\<close>

  \<^item> \<^emph>\<open>Drivers.\<close> \<open>Driver_Base\<close> (\<^verbatim>\<open>driverbase/driverbase.go\<close>) holds the connection life cycle that every driver
    embeds, with its reconnect goroutines as the step relation \<open>driver_step\<close>: a driver has a client
    exactly when it is connected and exactly one reconnect loop while it is not, and the connected state
    stays reachable. \<open>S7_Driver\<close> (\<^verbatim>\<open>driver/s7\<close>) and \<open>Modbus_Driver\<close> (\<^verbatim>\<open>driver/modbus\<close>) hold address syntax,
    codecs, the planners that merge neighbouring tags into one request, reads with retry and writes.
    \<open>S7_Props\<close>, \<open>Modbus_Props\<close> and \<open>Modbus_Correct\<close> show that merging and batching are invisible: every tag
    gets what a read of its own bytes would give, and when requests fail a tag gets its own value or a
    bad one. \<open>S7_Wire\<close> has the round trips of addresses and values.

  \<^item> \<^emph>\<open>Collection.\<close> \<open>Scheduler\<close> (\<^verbatim>\<open>engine/scheduler.go\<close>, \<^verbatim>\<open>engine/trigger.go\<close>, \<^verbatim>\<open>scheduleDriverTags\<close>) builds the tasks
    of a driver and runs one tick of a task as the function \<open>task_tick\<close>. \<open>Scheduler_Props\<close>: every tag is in
    exactly one task, the deadband swallows only unchanged samples, the period follows the error streak,
    and gated tags are read exactly when their condition fired. \<open>Registry\<close> (\<^verbatim>\<open>engine/driver_manager.go\<close>,
    \<^verbatim>\<open>transport_manager.go\<close>, \<^verbatim>\<open>tagfile.go\<close>, \<^verbatim>\<open>tagfile_watcher.go\<close>, \<^verbatim>\<open>lifecycle_support.go\<close>, \<^verbatim>\<open>core/registry.go\<close>) adds and
    removes drivers and transports, watches tags files and turns values into points; a removed driver
    leaves nothing behind.

  \<^item> \<^emph>\<open>Distribution.\<close> \<open>Data_Bus\<close> (\<^verbatim>\<open>engine/databus.go\<close>) has the two drop-oldest channels, as calls and as an
    interleaving \<open>push_step\<close> of pushers, consumers and \<^verbatim>\<open>Close\<close> in which no point is lost uncounted.
    \<open>Latest_Cache\<close> (\<^verbatim>\<open>engine/cache.go\<close>) refines the plain map of latest points. \<open>Fan_Out\<close>
    (\<^verbatim>\<open>common/observable\<close>) is the fan-out behind the event streams. \<open>Derived\<close> (\<^verbatim>\<open>engine/derived.go\<close>) computes
    tags from other tags: its cycle check is exact and the quality of a derived point is determined by
    its inputs.

  \<^item> \<^emph>\<open>Rules.\<close> \<open>Regex\<close> is the part of Go's \<^verbatim>\<open>regexp\<close> the sources use, \<open>Rule_Expr\<close> (\<^verbatim>\<open>rule/expr.go\<close>, \<^verbatim>\<open>rule/arith.go\<close>)
    the match language, \<open>Rule_Engine\<close> (the rest of \<^verbatim>\<open>rule/\<close>) rules, providers, sub-rules and the driver
    index. \<open>Rule_Match\<close> proves, inside the locale \<open>rule_interface\<close>, that matching through the index equals
    the scan of all rules; \<open>Rule_Props\<close> interprets it on the engine's own rules.

  \<^item> \<^emph>\<open>Processing.\<close> \<open>Processing\<close> (\<^verbatim>\<open>engine/processing.go\<close>) composes cache, bus, rules, alerts and batchers into
    \<^verbatim>\<open>processPoint\<close>: what is published, that every target is attempted and accounted for, and what the
    bad-quality policy guarantees. \<open>Alerts\<close> (\<^verbatim>\<open>engine/alerts.go\<close>) has the alert registry, whose events refine
    the fired, acknowledged, cleared automaton.

  \<^item> \<^emph>\<open>Publishing.\<close> \<open>Batcher\<close> (\<^verbatim>\<open>engine/batcher.go\<close>, \<^verbatim>\<open>batcher_retry.go\<close>) is given as functions and, with its
    publishers, flush loop and shutdown, as the step relation \<open>batcher_step\<close>: order, accounting, a
    shutdown that strands nothing and can always complete. \<open>Offline_Buffer\<close> (\<^verbatim>\<open>engine/offlinebuffer.go\<close>) is
    the disk buffer, with a crash possible after every system call of a push.

  \<^item> \<^emph>\<open>Commands.\<close> \<open>Write_Manager\<close> (\<^verbatim>\<open>engine/write_manager.go\<close>, \<^verbatim>\<open>write_pacing.go\<close>, \<^verbatim>\<open>tag_protect.go\<close>,
    \<^verbatim>\<open>write_audit_store.go\<close>): protection, pacing, audit, retry and dead letters; no command is lost.

  \<^item> \<^emph>\<open>Configuration.\<close> \<open>Config_Validate\<close> (\<^verbatim>\<open>config/validate.go\<close>) accepts exactly the well-formed
    configurations, and \<open>Executor\<close> (\<^verbatim>\<open>hub/executor/executor_diff.go\<close>, \<^verbatim>\<open>executor_apply.go\<close>) reloads one atomically.

  Below all of them are \<open>Prelude\<close> (results, Go channels, string helpers, the bounded buffer), \<open>Core_Types\<close>
  (\<^verbatim>\<open>core/types.go\<close>), and the parts of the Go library: \<open>Go_Fmt\<close> (formatting), \<open>Go_Float\<close> (IEEE arithmetic on
  bit patterns), \<open>Go_Time\<close> (\<^verbatim>\<open>time.ParseDuration\<close>) and \<open>Go_Util\<close> (\<^verbatim>\<open>common/util/util.go\<close>).

  \<^bold>\<open>How code becomes definitions\<close>

  A struct is a record, a method a function that returns the updated record, with the name of the
  method where the name is free and a prefix otherwise (\<open>offline_Push\<close>, \<open>batcher_publish\<close>). An error is a
  value of an option or sum type; a panic is the value \<open>None\<close> of a function that can panic. A map is a HOL
  map or, where the order of an iteration matters, an association list, or the order is an argument.
  \<^verbatim>\<open>uint16\<close> registers, bytes and hashes are words; Go's \<^verbatim>\<open>int\<close> is \<open>int\<close>, with the wrap-around written out where
  a computation can reach it (retry delays, sequence numbers). Times and durations are nanoseconds in
  \<open>int\<close>. A function that reads the clock takes the reading as an argument.

  Goroutines are modelled where their interleaving matters: \<open>push_step\<close>, \<open>version_step\<close> (readers and writers of
  the cache), \<open>batcher_step\<close> and \<open>driver_step\<close>, each with an inductive notion of reachable state and
  invariants proved by rule induction. Elsewhere a method runs under a lock and is one function.

  Code outside the repository is an argument: the expression library (\<open>expr_lang\<close>), the S7 and Modbus
  clients with the state of the device (\<open>s7_client\<close>, \<open>mb_client\<close>), transports (whether an attempt
  succeeds), the JSON encoding of buffer entries, file systems that may refuse an operation, and the
  implementations of drivers and transports in the registry (\<open>component_ops\<close>). What a theorem needs of
  them is a hypothesis of the theorem, and its witness instantiates them.

  \<^bold>\<open>Interfaces\<close>

  \<^item> \<open>drop_oldest\<close> (in \<open>Prelude\<close>): append, then keep the newest. Interpreted on both bus channels, the alert
    history, the audit trail, the dead-letter queue and the flush queue of the batcher.
  \<^item> \<open>latest_store\<close> (in \<open>Latest_Cache\<close>): the map of latest points. Interpreted on the sharded cache.
  \<^item> \<open>rule_interface\<close> (in \<open>Rule_Match\<close>): evaluating a rule keeps its configuration. Interpreted on leaf rules
    and on all rules of the engine.
  \<^item> \<open>component_set\<close> (in \<open>Registry\<close>): adding is all or nothing, removing always takes out. Interpreted on
    drivers and on transports; the reload is proved once against it.

  \<^bold>\<open>Termination and bounds\<close>

  Every definition is total. Loops that are not structural have a measure: the depth-first searches
  of derived tags and of rule groups decrease the names not yet on their path, the scans of
  expression and duration texts the rest of the text. The retry loops of writes, batches and Modbus
  requests run the configured number of attempts. Only the reconnect loop has no bound in the code: it
  has fuel, and theory \<open>Go_Util\<close> shows that the number of the first successful attempt plus one
  is enough, with the state it then returns.

  \<^bold>\<open>What is not modelled\<close>

  Network and serial I/O and the clients behind it (OPC UA, MQTT, HTTP push, notifications,
  discovery), the HTTP API and the command-line programs, YAML and JSON decoding, the JSONL files behind
  the dead-letter and audit trails, logging, metrics and tracing, and the start and stop sequence of the
  whole engine, which is goroutine wiring around the parts above. Log lines are left out. Strings are
  byte lists; \<^verbatim>\<open>strings.ToLower\<close>, \<^verbatim>\<open>TrimSpace\<close> and \<^verbatim>\<open>Quote\<close> are those of ASCII input.

  Lemmas such as \<open>wrapped_batch_panics\<close>, \<open>documented_trigger_never_reads\<close> or \<open>failed_stop_loses_driver\<close> prove
  places where the code does not do what it means to; they stand at the end of their theories.
\<close>

end
